(* ===== verification/Prelude.thy ===== *)
theory Prelude
  imports Main "HOL-Library.Word" "HOL-Library.Sublist"
begin

text \<open>
  Shared vocabulary of the Oveo development.

  \<^item> A Python \<^verbatim>\<open>str\<close> is a list of code points (\<open>pystr\<close>), because the program counts,
    slices and classifies code points, including lone surrogates; \<open>lit\<close> turns an
    Isabelle string literal into such a list.  A \<^verbatim>\<open>bytes\<close> object is a list of \<open>8 word\<close>.
  \<^item> A raised exception is the \<open>Inl\<close> branch of a sum; content-free error codes are plain
    Isabelle strings.  \<open>bind_res\<close> sequences fallible steps, \<open>map_res\<close> runs a fallible loop.
  \<^item> The string methods the program calls (\<^verbatim>\<open>find\<close>, \<^verbatim>\<open>in\<close>, \<^verbatim>\<open>strip\<close>, \<^verbatim>\<open>removesuffix\<close>,
    \<^verbatim>\<open>join\<close>, decimal formatting) are defined here once, with the laws that the component
    theories use.
\<close>

section \<open>Fallible computations\<close>

named_theorems res_simps \<open>inversion rules for computations that may raise\<close>

type_synonym code = string
type_synonym 'a res = "code + 'a"

definition bind_res :: "'e + 'a \<Rightarrow> ('a \<Rightarrow> 'e + 'b) \<Rightarrow> 'e + 'b" where
  "bind_res m f = (case m of Inl e \<Rightarrow> Inl e | Inr x \<Rightarrow> f x)"

definition require :: "bool \<Rightarrow> 'e \<Rightarrow> 'e + unit" where
  "require b e = (if b then Inr () else Inl e)"

fun map_res :: "('a \<Rightarrow> 'e + 'b) \<Rightarrow> 'a list \<Rightarrow> 'e + 'b list" where
  "map_res f [] = Inr []"
| "map_res f (x # xs) =
     bind_res (f x) (\<lambda>y. bind_res (map_res f xs) (\<lambda>ys. Inr (y # ys)))"

definition is_ok :: "'e + 'a \<Rightarrow> bool" where
  "is_ok r = (case r of Inl _ \<Rightarrow> False | Inr _ \<Rightarrow> True)"

lemma bind_res_Inl [simp]: "bind_res (Inl e) f = Inl e"
  and bind_res_Inr [simp]: "bind_res (Inr x) f = f x"
  by (simp_all add: bind_res_def)

lemma bind_res_eq_Inr [res_simps]:
  "bind_res m f = Inr y \<longleftrightarrow> (\<exists>x. m = Inr x \<and> f x = Inr y)"
  by (cases m) (auto simp: bind_res_def)

lemma bind_res_eq_Inl [res_simps]:
  "bind_res m f = Inl e \<longleftrightarrow> m = Inl e \<or> (\<exists>x. m = Inr x \<and> f x = Inl e)"
  by (cases m) (auto simp: bind_res_def)

lemma bind_res_assoc: "bind_res (bind_res m f) g = bind_res m (\<lambda>x. bind_res (f x) g)"
  by (cases m) simp_all

lemma require_eq_Inr [res_simps]: "require b e = Inr u \<longleftrightarrow> b"
  by (simp add: require_def)

lemma require_eq_Inl [res_simps]: "require b e = Inl e' \<longleftrightarrow> \<not> b \<and> e' = e"
  by (auto simp: require_def)

lemma require_True [simp]: "require True e = Inr ()"
  and require_False [simp]: "require False e = Inl e"
  by (simp_all add: require_def)

lemma is_ok_simps [simp]: "is_ok (Inr x)" "\<not> is_ok (Inl e)"
  by (simp_all add: is_ok_def)

lemma is_ok_iff: "is_ok r \<longleftrightarrow> (\<exists>x. r = Inr x)"
  by (cases r) auto

lemma map_res_cong [fundef_cong]:
  "xs = ys \<Longrightarrow> (\<And>x. x \<in> set ys \<Longrightarrow> f x = g x) \<Longrightarrow> map_res f xs = map_res g ys"
  by (induction ys arbitrary: xs) auto

lemma map_res_length: "map_res f xs = Inr ys \<Longrightarrow> length ys = length xs"
  by (induction xs arbitrary: ys) (auto simp: res_simps)

lemma map_res_list_all2: "map_res f xs = Inr ys \<longleftrightarrow> list_all2 (\<lambda>x y. f x = Inr y) xs ys"
  by (induction xs arbitrary: ys) (auto simp: res_simps list_all2_Cons1)

lemma map_res_Inr: "map_res (\<lambda>x. Inr (f x)) xs = Inr (map f xs)"
  by (induction xs) auto

lemma map_res_map: "map_res f (map g xs) = map_res (\<lambda>x. f (g x)) xs"
  by (induction xs) simp_all

lemma map_res_InrD: "map_res f xs = Inr ys \<Longrightarrow> y \<in> set ys \<Longrightarrow> \<exists>x\<in>set xs. f x = Inr y"
  by (induction xs arbitrary: ys) (auto simp: res_simps)

section \<open>Python strings\<close>

type_synonym pystr = "nat list"
type_synonym byte = "8 word"
type_synonym bytes = "byte list"

definition lit :: "string \<Rightarrow> pystr" where
  "lit s = map of_char s"

lemma lit_inject [simp]: "lit a = lit b \<longleftrightarrow> a = b"
  by (simp add: lit_def inj_map_eq_map inj_def)

lemma lit_Nil [simp]: "lit [] = []"
  and lit_eq_Nil [simp]: "lit s = [] \<longleftrightarrow> s = []"
  and lit_append: "lit (a @ b) = lit a @ lit b"
  and length_lit [simp]: "length (lit s) = length s"
  by (simp_all add: lit_def)

lemma of_char_lt: "of_char c < (256 :: nat)"
  by (rule of_char_mod_256 [THEN subst, where P = "\<lambda>n. n < 256"]) simp

lemma lit_byte_range: "x \<in> set (lit s) \<Longrightarrow> x < 256"
  by (auto simp: lit_def of_char_lt)

text \<open>The code points for which \<^verbatim>\<open>str.isspace\<close> (and the regular expression \<^verbatim>\<open>\s\<close>) is true.\<close>

definition py_space :: "nat \<Rightarrow> bool" where
  "py_space c \<longleftrightarrow> (9 \<le> c \<and> c \<le> 13) \<or> (28 \<le> c \<and> c \<le> 32) \<or> c = 133 \<or> c = 160 \<or> c = 5760
     \<or> (8192 \<le> c \<and> c \<le> 8202) \<or> c = 8232 \<or> c = 8233 \<or> c = 8239 \<or> c = 8287 \<or> c = 12288"

definition strip :: "pystr \<Rightarrow> pystr" where
  "strip s = rev (dropWhile py_space (rev (dropWhile py_space s)))"

text \<open>\<^verbatim>\<open>not s.strip()\<close>: the text is empty or only white space.\<close>

definition blank :: "pystr \<Rightarrow> bool" where
  "blank s \<longleftrightarrow> strip s = []"

lemma blank_iff: "blank s \<longleftrightarrow> (\<forall>c\<in>set s. py_space c)"
proof
  assume "blank s"
  then have "\<forall>c\<in>set (dropWhile py_space s). py_space c"
    by (simp add: blank_def strip_def)
  then have "dropWhile py_space s = []"
    by (metis hd_dropWhile list.set_sel(1))
  then show "\<forall>c\<in>set s. py_space c" by simp
next
  assume "\<forall>c\<in>set s. py_space c"
  then show "blank s"
    by (auto simp: blank_def strip_def dest: set_dropWhileD)
qed

lemma blank_Nil [simp]: "blank []" by (simp add: blank_iff)

lemma blank_append [simp]: "blank (a @ b) \<longleftrightarrow> blank a \<and> blank b"
  by (auto simp: blank_iff)

lemma not_blank_nonempty: "\<not> blank s \<Longrightarrow> s \<noteq> []"
  by auto

text \<open>\<^verbatim>\<open>str.find\<close>: the least index at or after \<open>start\<close> where the pattern occurs.\<close>

fun find_sub :: "'a list \<Rightarrow> 'a list \<Rightarrow> nat option" where
  "find_sub [] pat = (if pat = [] then Some 0 else None)"
| "find_sub (x # xs) pat =
     (if prefix pat (x # xs) then Some 0 else map_option Suc (find_sub xs pat))"

definition find_from :: "'a list \<Rightarrow> 'a list \<Rightarrow> nat \<Rightarrow> nat option" where
  "find_from s pat start =
     (if start \<le> length s then map_option ((+) start) (find_sub (drop start s) pat) else None)"

definition contains :: "'a list \<Rightarrow> 'a list \<Rightarrow> bool" where
  "contains s pat \<longleftrightarrow> find_sub s pat \<noteq> None"

definition occurs_at :: "'a list \<Rightarrow> 'a list \<Rightarrow> nat \<Rightarrow> bool" where
  "occurs_at s pat i \<longleftrightarrow> i + length pat \<le> length s \<and> take (length pat) (drop i s) = pat"

lemma occurs_at_prefix: "occurs_at s pat i \<longleftrightarrow> i \<le> length s \<and> prefix pat (drop i s)"
proof
  assume "occurs_at s pat i"
  then show "i \<le> length s \<and> prefix pat (drop i s)"
    unfolding occurs_at_def by (metis add_leD1 take_is_prefix)
next
  assume "i \<le> length s \<and> prefix pat (drop i s)"
  then show "occurs_at s pat i"
    unfolding occurs_at_def
    by (auto simp: prefix_def dest: arg_cong [where f = length])
qed

lemma occurs_at_0: "occurs_at s pat 0 \<longleftrightarrow> prefix pat s"
  by (simp add: occurs_at_prefix)

lemma occurs_at_Suc: "occurs_at (x # xs) pat (Suc i) \<longleftrightarrow> occurs_at xs pat i"
  by (simp add: occurs_at_def)

lemma find_sub_None: "find_sub s pat = None \<longleftrightarrow> (\<forall>i. \<not> occurs_at s pat i)"
proof (induction s)
  case Nil
  then show ?case by (auto simp: occurs_at_def)
next
  case (Cons x xs)
  have "(\<forall>i. \<not> occurs_at (x # xs) pat i) \<longleftrightarrow>
      \<not> prefix pat (x # xs) \<and> (\<forall>i. \<not> occurs_at xs pat i)"
    by (metis occurs_at_0 occurs_at_Suc not0_implies_Suc)
  with Cons show ?case by simp
qed

lemma find_sub_Some:
  "find_sub s pat = Some i \<longleftrightarrow> occurs_at s pat i \<and> (\<forall>j<i. \<not> occurs_at s pat j)"
proof (induction s arbitrary: i)
  case Nil
  then show ?case by (auto simp: occurs_at_def)
next
  case (Cons x xs)
  show ?case
  proof (cases i)
    case 0
    then show ?thesis by (auto simp: occurs_at_0)
  next
    case (Suc j)
    with Cons show ?thesis
      by (auto simp: occurs_at_Suc occurs_at_0 less_Suc_eq_0_disj)
  qed
qed

lemma occurs_at_drop: "k \<le> length s \<Longrightarrow> occurs_at (drop k s) pat i \<longleftrightarrow> occurs_at s pat (k + i)"
  by (auto simp: occurs_at_def add.commute)

lemma occurs_at_bound: "occurs_at s pat i \<Longrightarrow> i \<le> length s"
  by (simp add: occurs_at_def)

lemma find_from_None:
  "find_from s pat start = None \<longleftrightarrow> (\<forall>i\<ge>start. \<not> occurs_at s pat i)"
proof (cases "start \<le> length s")
  case True
  then have "find_from s pat start = None \<longleftrightarrow> (\<forall>i. \<not> occurs_at s pat (start + i))"
    by (simp add: find_from_def find_sub_None occurs_at_drop)
  then show ?thesis by (metis le_iff_add)
next
  case False
  then show ?thesis
    by (auto simp: find_from_def dest: occurs_at_bound)
qed

lemma contains_iff: "contains s pat \<longleftrightarrow> (\<exists>i. occurs_at s pat i)"
  by (simp add: contains_def find_sub_None)

lemma occurs_at_split:
  "occurs_at s pat i \<longleftrightarrow> (\<exists>a b. s = a @ pat @ b \<and> length a = i)"
proof
  assume "occurs_at s pat i"
  then have "s = take i s @ pat @ drop (i + length pat) s" "length (take i s) = i"
    unfolding occurs_at_def by (metis append_take_drop_id drop_drop add.commute, simp)
  then show "\<exists>a b. s = a @ pat @ b \<and> length a = i" by blast
next
  assume "\<exists>a b. s = a @ pat @ b \<and> length a = i"
  then show "occurs_at s pat i" by (auto simp: occurs_at_def)
qed

lemma contains_sublist: "contains s pat \<longleftrightarrow> sublist pat s"
  by (auto simp: contains_iff occurs_at_split sublist_def)

text \<open>\<^verbatim>\<open>str.removesuffix\<close> for a one-character suffix and \<^verbatim>\<open>sep.join\<close>.\<close>

definition removesuffix1 :: "nat \<Rightarrow> pystr \<Rightarrow> pystr" where
  "removesuffix1 c s = (if s \<noteq> [] \<and> last s = c then butlast s else s)"

fun join :: "'a list \<Rightarrow> 'a list list \<Rightarrow> 'a list" where
  "join sep [] = []"
| "join sep [x] = x"
| "join sep (x # y # zs) = x @ sep @ join sep (y # zs)"

section \<open>Decimal numbers\<close>

fun digits_of :: "nat \<Rightarrow> nat list" where
  "digits_of n = (if n < 10 then [n] else digits_of (n div 10) @ [n mod 10])"

declare digits_of.simps [simp del]

definition of_digits :: "nat list \<Rightarrow> nat" where
  "of_digits ds = foldl (\<lambda>a d. 10 * a + d) 0 ds"

definition str_nat :: "nat \<Rightarrow> pystr" where
  "str_nat n = map ((+) 48) (digits_of n)"

text \<open>The format specification \<^verbatim>\<open>:06d\<close> for a non-negative number.\<close>

definition pad6 :: "nat \<Rightarrow> pystr" where
  "pad6 n = replicate (6 - length (str_nat n)) 48 @ str_nat n"

definition ascii_digit :: "nat \<Rightarrow> bool" where
  "ascii_digit c \<longleftrightarrow> 48 \<le> c \<and> c \<le> 57"

lemma digits_of_bound: "d \<in> set (digits_of n) \<Longrightarrow> d < 10"
proof (induction n rule: digits_of.induct)
  case (1 n)
  then show ?case
    by (cases "n < 10") (auto simp: digits_of.simps [of n])
qed

lemma of_digits_digits_of [simp]: "of_digits (digits_of n) = n"
proof (induction n rule: digits_of.induct)
  case (1 n)
  then show ?case
    by (cases "n < 10") (auto simp: digits_of.simps [of n] of_digits_def)
qed

lemma digits_of_nonempty [simp]: "digits_of n \<noteq> []"
  by (simp add: digits_of.simps [of n])

lemma digits_of_hd: "0 < n \<Longrightarrow> 0 < hd (digits_of n)"
proof (induction n rule: digits_of.induct)
  case (1 n)
  then show ?case
    by (cases "n < 10") (auto simp: digits_of.simps [of n] hd_append)
qed

lemma str_nat_inject [simp]: "str_nat a = str_nat b \<longleftrightarrow> a = b"
proof
  assume "str_nat a = str_nat b"
  then have "digits_of a = digits_of b"
    by (simp add: str_nat_def inj_map_eq_map)
  then show "a = b" by (metis of_digits_digits_of)
qed simp

lemma str_nat_digits: "c \<in> set (str_nat n) \<Longrightarrow> ascii_digit c"
  by (auto simp: str_nat_def ascii_digit_def dest: digits_of_bound)

lemma str_nat_nonempty [simp]: "str_nat n \<noteq> []"
  by (simp add: str_nat_def)

lemma of_digits_snoc: "of_digits (ds @ [d]) = 10 * of_digits ds + d"
  by (simp add: of_digits_def)

lemma of_digits_replicate0: "of_digits (replicate k 0 @ ds) = of_digits ds"
  by (induction k) (simp_all add: of_digits_def)

lemma pad6_inject [simp]: "pad6 a = pad6 b \<longleftrightarrow> a = b"
proof
  assume eq: "pad6 a = pad6 b"
  have val: "of_digits (map (\<lambda>c. c - 48) (pad6 n)) = n" for n
    by (simp add: pad6_def str_nat_def o_def map_replicate_const
        of_digits_replicate0)
  from eq show "a = b" by (metis val)
qed simp

lemma pad6_digits: "c \<in> set (pad6 n) \<Longrightarrow> ascii_digit c"
  by (auto simp: pad6_def ascii_digit_def dest: str_nat_digits split: if_splits)

lemma length_digits_of_le: "n < 10 ^ k \<Longrightarrow> 0 < k \<Longrightarrow> length (digits_of n) \<le> k"
proof (induction n arbitrary: k rule: digits_of.induct)
  case (1 n)
  show ?case
  proof (cases "n < 10")
    case True
    with 1 show ?thesis by (simp add: digits_of.simps [of n])
  next
    case False
    with "1.prems" obtain j where j: "k = Suc j" "0 < j"
      by (cases k; cases "k - 1") auto
    with "1.prems" have "n div 10 < 10 ^ j" by simp
    with 1 False j show ?thesis by (simp add: digits_of.simps [of n])
  qed
qed

lemma length_pad6: "n < 1000000 \<Longrightarrow> length (pad6 n) = 6"
  using length_digits_of_le [of n 6] by (simp add: pad6_def str_nat_def)

section \<open>Runs of a transition relation\<close>

text \<open>Two ways to reason about runs: a property every step keeps, and an order every step respects.\<close>

locale preserved =
  fixes step :: "'s \<Rightarrow> 's \<Rightarrow> bool" and inv :: "'s \<Rightarrow> bool"
  assumes kept: "inv s \<Longrightarrow> step s s' \<Longrightarrow> inv s'"
begin

lemma along: "step\<^sup>*\<^sup>* s s' \<Longrightarrow> inv s \<Longrightarrow> inv s'"
  by (induction rule: rtranclp_induct) (auto intro: kept)

end

locale ordered = preserved +
  fixes le :: "'s \<Rightarrow> 's \<Rightarrow> bool"
  assumes le_refl: "le s s" and le_trans: "le s t \<Longrightarrow> le t u \<Longrightarrow> le s u"
    and le_step: "inv s \<Longrightarrow> step s s' \<Longrightarrow> le s s'"
begin

lemma forward: "step\<^sup>*\<^sup>* s s' \<Longrightarrow> inv s \<Longrightarrow> le s s'"
  by (induction rule: rtranclp_induct) (auto intro: le_refl le_trans le_step along)

end

end
