(* ===== verification/Utf8.thy ===== *)
theory Utf8
  imports Prelude
begin

text \<open>
  UTF-8 as the program uses it: \<^verbatim>\<open>str.encode("utf-8")\<close> (strict and with
  \<^verbatim>\<open>surrogatepass\<close>) and the strict incremental decoder of \<^verbatim>\<open>codecs\<close>, which keeps an
  incomplete trailing sequence and raises on any byte that cannot continue it.  The
  decoder is shown to be the exact inverse of the encoder on Unicode scalar values, and
  insensitive to how the byte stream is cut into chunks.
\<close>

section \<open>Encoding\<close>

definition surrogate :: "nat \<Rightarrow> bool" where
  "surrogate c \<longleftrightarrow> 55296 \<le> c \<and> c \<le> 57343"

text \<open>Unicode scalar values: the code points the strict codec accepts.\<close>

definition scalar :: "nat \<Rightarrow> bool" where
  "scalar c \<longleftrightarrow> c < 1114112 \<and> \<not> surrogate c"

definition utf8_char :: "nat \<Rightarrow> nat list" where
  "utf8_char c =
     (if c < 128 then [c]
      else if c < 2048 then [192 + c div 64, 128 + c mod 64]
      else if c < 65536 then [224 + c div 4096, 128 + c div 64 mod 64, 128 + c mod 64]
      else [240 + c div 262144, 128 + c div 4096 mod 64, 128 + c div 64 mod 64, 128 + c mod 64])"

text \<open>\<open>utf8_encode\<close> is \<^verbatim>\<open>encode("utf-8", "surrogatepass")\<close>; the strict variant raises
  \<^verbatim>\<open>UnicodeEncodeError\<close> (here \<open>None\<close>) on a surrogate.\<close>

definition utf8_encode :: "pystr \<Rightarrow> bytes" where
  "utf8_encode s = concat (map (\<lambda>c. map of_nat (utf8_char c)) s)"

definition utf8_strict :: "pystr \<Rightarrow> bytes option" where
  "utf8_strict s = (if \<exists>c\<in>set s. surrogate c then None else Some (utf8_encode s))"

definition utf8_len :: "pystr \<Rightarrow> nat" where
  "utf8_len s = length (utf8_encode s)"

section \<open>Incremental decoding\<close>

text \<open>
  For a lead byte: the number of continuation bytes, the range of the first of them, and
  the payload bits of the lead byte.
\<close>

definition utf8_lead :: "nat \<Rightarrow> (nat \<times> nat \<times> nat \<times> nat) option" where
  "utf8_lead b =
     (if b < 128 then Some (0, 128, 191, b)
      else if b < 194 then None
      else if b < 224 then Some (1, 128, 191, b - 192)
      else if b = 224 then Some (2, 160, 191, 0)
      else if b = 237 then Some (2, 128, 159, 13)
      else if b < 240 then Some (2, 128, 191, b - 224)
      else if b = 240 then Some (3, 144, 191, 0)
      else if b < 244 then Some (3, 128, 191, b - 240)
      else if b = 244 then Some (3, 128, 143, 4)
      else None)"

fun continuation :: "nat \<Rightarrow> nat \<Rightarrow> nat list \<Rightarrow> bool" where
  "continuation lo hi [] = True"
| "continuation lo hi (x # xs) = (lo \<le> x \<and> x \<le> hi \<and> continuation 128 191 xs)"

definition utf8_fold :: "nat \<Rightarrow> nat list \<Rightarrow> nat" where
  "utf8_fold v xs = foldl (\<lambda>a x. a * 64 + (x - 128)) v xs"

definition cons_dec :: "'a \<Rightarrow> ('a list \<times> 'b) option \<Rightarrow> ('a list \<times> 'b) option" where
  "cons_dec c r = (case r of None \<Rightarrow> None | Some (s, rest) \<Rightarrow> Some (c # s, rest))"

fun utf8_decode :: "bytes \<Rightarrow> (pystr \<times> bytes) option" where
  "utf8_decode [] = Some ([], [])"
| "utf8_decode (b # bs) =
     (case utf8_lead (unat b) of
        None \<Rightarrow> None
      | Some (n, lo, hi, v) \<Rightarrow>
          let cs = map unat (take n bs) in
          if \<not> continuation lo hi cs then None
          else if length cs < n then Some ([], b # bs)
          else cons_dec (utf8_fold v cs) (utf8_decode (drop n bs)))"

declare utf8_decode.simps(2) [simp del]

text \<open>One call of the incremental decoder: the buffered bytes come first.\<close>

definition utf8_feed :: "bytes \<Rightarrow> bytes \<Rightarrow> (pystr \<times> bytes) option" where
  "utf8_feed buf chunk = utf8_decode (buf @ chunk)"

section \<open>Cutting the stream\<close>

lemma continuation_append:
  "continuation lo hi (xs @ ys) \<longleftrightarrow>
     continuation lo hi xs \<and> (if xs = [] then continuation lo hi ys else continuation 128 191 ys)"
  by (induction xs arbitrary: lo hi) auto

lemma utf8_decode_append:
  "utf8_decode a = Some (s, r) \<Longrightarrow>
     utf8_decode (a @ b) = map_option (\<lambda>(t, r'). (s @ t, r')) (utf8_decode (r @ b))"
proof (induction a arbitrary: s r rule: utf8_decode.induct)
  case 1
  then show ?case by (auto simp: option.map_ident split: option.splits)
next
  case (2 x bs)
  from "2.prems" obtain n lo hi v where
    lead: "utf8_lead (unat x) = Some (n, lo, hi, v)"
    by (auto simp: utf8_decode.simps split: option.splits)
  show ?case
  proof (cases "length bs < n")
    case True
    with "2.prems" lead have "s = []" "r = x # bs"
      by (auto simp: utf8_decode.simps Let_def split: if_splits)
    then show ?thesis by (simp add: option.map_ident case_prod_unfold)
  next
    case False
    with "2.prems" lead obtain s' where
      c: "continuation lo hi (map unat (take n bs))" and
      rec: "utf8_decode (drop n bs) = Some (s', r)" and
      s: "s = utf8_fold v (map unat (take n bs)) # s'"
      by (auto simp: utf8_decode.simps Let_def cons_dec_def split: if_splits option.splits)
    from "2.IH" lead c rec False have
      "utf8_decode (drop n bs @ b) = map_option (\<lambda>(t, r'). (s' @ t, r')) (utf8_decode (r @ b))"
      by simp
    with lead c False s show ?thesis
      by (auto simp: utf8_decode.simps(2) Let_def cons_dec_def split: option.splits)
  qed
qed

lemma utf8_feed_append:
  assumes "utf8_feed buf a = Some (s, buf')" and "utf8_feed buf' b = Some (t, buf'')"
  shows "utf8_feed buf (a @ b) = Some (s @ t, buf'')"
  using utf8_decode_append [of "buf @ a" s buf' b] assms by (simp add: utf8_feed_def)

section \<open>The decoder inverts the encoder\<close>

lemma unat_byte [simp]: "n < 256 \<Longrightarrow> unat (of_nat n :: byte) = n"
  by (simp add: unat_of_nat)

lemma utf8_char_bound: "c < 1114112 \<Longrightarrow> x \<in> set (utf8_char c) \<Longrightarrow> x < 256"
  by (auto simp: utf8_char_def split: if_splits)

lemma mod_64_bounds [simp]: "(x :: nat) mod 64 \<le> 63" "(x :: nat) mod 64 < 128"
  using mod_less_divisor [of 64 x] by linarith+

lemma list_upto_3:
  "length xs \<le> 3 \<Longrightarrow>
     xs = [] \<or> (\<exists>x. xs = [x]) \<or> (\<exists>x y. xs = [x, y]) \<or> (\<exists>x y z. xs = [x, y, z])"
  by (cases xs; cases "tl xs"; cases "tl (tl xs)"; cases "tl (tl (tl xs))") auto

lemma utf8_decode_step:
  assumes "utf8_lead b = Some (length cs, lo, hi, v)" "b < 256" "\<forall>x\<in>set cs. x < 256"
    and "continuation lo hi cs"
  shows "utf8_decode (map of_nat (b # cs) @ bs) = cons_dec (utf8_fold v cs) (utf8_decode bs)"
proof -
  have "map (unat \<circ> (of_nat :: nat \<Rightarrow> byte)) cs = cs"
    using assms(3) by (auto intro: map_idI)
  with assms show ?thesis by (simp add: utf8_decode.simps(2))
qed

text \<open>What the lead byte of an encoded scalar value announces, by its range.\<close>

lemma utf8_char_lead:
  assumes "scalar c"
  shows "\<exists>b cs lo hi v. utf8_char c = b # cs \<and> b < 256 \<and> (\<forall>x\<in>set cs. x < 256) \<and>
    utf8_lead b = Some (length cs, lo, hi, v) \<and> continuation lo hi cs \<and> utf8_fold v cs = c"
proof -
  have c: "c < 1114112" "c < 55296 \<or> 57343 < c"
    using assms by (auto simp: scalar_def surrogate_def)
  have e2: "c div 4096 * 64 + c div 64 mod 64 = c div 64"
    using div_mult_mod_eq [of "c div 64" 64] by (simp flip: div_mult2_eq)
  have e3: "c div 262144 * 64 + c div 4096 mod 64 = c div 4096"
    using div_mult_mod_eq [of "c div 4096" 64] by (simp flip: div_mult2_eq)
  have d2: "4096 * (c div 4096) + c div 64 mod 64 * 64 + c mod 64 = c"
    using e2 div_mult_mod_eq [of c 64] by linarith
  have d3: "262144 * (c div 262144) + c div 4096 mod 64 * 4096 + c div 64 mod 64 * 64 + c mod 64 = c"
    using e3 d2 by linarith
  consider "c < 128" | "128 \<le> c" "c < 2048" | "2048 \<le> c" "c < 4096" | "4096 \<le> c" "c < 53248"
    | "53248 \<le> c" "c < 55296" | "57344 \<le> c" "c < 65536" | "65536 \<le> c" "c < 262144"
    | "262144 \<le> c" "c < 1048576" | "1048576 \<le> c"
    using c by linarith
  then show ?thesis
  proof cases
    case 1
    then show ?thesis by (simp add: utf8_char_def utf8_lead_def utf8_fold_def)
  next
    case 2
    then have "c div 64 < 32" "2 \<le> c div 64" by auto
    with 2 show ?thesis by (simp add: utf8_char_def utf8_lead_def utf8_fold_def)
  next
    case 3
    then have "c div 4096 = 0" "32 \<le> c div 64" "c div 64 < 64" by auto
    with 3 d2 show ?thesis by (simp add: utf8_char_def utf8_lead_def utf8_fold_def)
  next
    case 4
    then have "1 \<le> c div 4096" "c div 4096 < 13" by auto
    with 4 d2 show ?thesis by (simp add: utf8_char_def utf8_lead_def utf8_fold_def)
  next
    case 5
    then have d: "c div 4096 = 13" and "c div 64 < 864" by auto
    with e2 have "c div 64 mod 64 < 32" by linarith
    with 5 d d2 show ?thesis by (simp add: utf8_char_def utf8_lead_def utf8_fold_def)
  next
    case 6
    then have "14 \<le> c div 4096" "c div 4096 < 16" by auto
    with 6 d2 show ?thesis by (simp add: utf8_char_def utf8_lead_def utf8_fold_def)
  next
    case 7
    then have "c div 262144 = 0" "16 \<le> c div 4096" "c div 4096 < 64" by auto
    with 7 d2 d3 show ?thesis by (simp add: utf8_char_def utf8_lead_def utf8_fold_def)
  next
    case 8
    then have "1 \<le> c div 262144" "c div 262144 < 4" by auto
    with 8 d2 d3 show ?thesis by (simp add: utf8_char_def utf8_lead_def utf8_fold_def)
  next
    case 9
    with c have d: "c div 262144 = 4" and "c div 4096 < 272" by auto
    with e3 have "c div 4096 mod 64 < 16" by linarith
    with 9 c d d2 d3 show ?thesis by (simp add: utf8_char_def utf8_lead_def utf8_fold_def)
  qed
qed

lemma utf8_decode_char:
  "scalar c \<Longrightarrow> utf8_decode (map of_nat (utf8_char c) @ bs) = cons_dec c (utf8_decode bs)"
  using utf8_char_lead [of c] utf8_decode_step by metis

lemma utf8_decode_encode_append:
  assumes "\<forall>c\<in>set s. scalar c"
  shows "utf8_decode (utf8_encode s @ bs) = map_option (\<lambda>(t, r). (s @ t, r)) (utf8_decode bs)"
  using assms
proof (induction s)
  case Nil
  then show ?case by (simp add: utf8_encode_def option.map_ident case_prod_unfold)
next
  case (Cons c s)
  then show ?case
    by (simp add: utf8_encode_def utf8_decode_char cons_dec_def case_prod_unfold split: option.splits)
qed

lemma utf8_decode_encode:
  "\<forall>c\<in>set s. scalar c \<Longrightarrow> utf8_decode (utf8_encode s) = Some (s, [])"
  using utf8_decode_encode_append [of s "[]"] by simp

lemma cons_dec_Some [simp]:
  "cons_dec c r = Some (s, rest) \<longleftrightarrow> (\<exists>s'. s = c # s' \<and> r = Some (s', rest))"
  by (cases r) (auto simp: cons_dec_def)

lemma utf8_fold_scalar:
  assumes lead: "utf8_lead b = Some (length xs, lo, hi, v)" and ok: "continuation lo hi xs"
  shows "scalar (utf8_fold v xs)"
proof -
  from lead have "length xs \<le> 3"
    by (auto simp: utf8_lead_def split: if_splits)
  then consider "xs = []" | x where "xs = [x]" | x y where "xs = [x, y]"
    | x y z where "xs = [x, y, z]"
    using list_upto_3 by blast
  then show ?thesis
    using lead ok
    by cases (auto simp: utf8_lead_def utf8_fold_def scalar_def surrogate_def split: if_splits)
qed

lemma utf8_decode_scalar: "utf8_decode bs = Some (s, r) \<Longrightarrow> c \<in> set s \<Longrightarrow> scalar c"
proof (induction bs arbitrary: s rule: utf8_decode.induct)
  case 1
  then show ?case by simp
next
  case (2 b bs)
  from "2.prems" obtain n lo hi v where
    lead: "utf8_lead (unat b) = Some (n, lo, hi, v)"
    by (auto simp: utf8_decode.simps split: option.splits)
  with "2.prems" obtain s' where
    len: "n \<le> length bs" and
    ok: "continuation lo hi (map unat (take n bs))" and
    rec: "utf8_decode (drop n bs) = Some (s', r)" and
    s: "s = utf8_fold v (map unat (take n bs)) # s'"
    by (auto simp: utf8_decode.simps Let_def split: if_splits)
  have "scalar (utf8_fold v (map unat (take n bs)))"
    by (rule utf8_fold_scalar [of "unat b", OF _ ok]) (simp add: lead len)
  with "2.IH" lead ok rec s len "2.prems" show ?case by auto
qed

lemma utf8_len_append [simp]: "utf8_len (a @ b) = utf8_len a + utf8_len b"
  by (simp add: utf8_len_def utf8_encode_def)

lemma utf8_decode_rest: "utf8_decode a = Some (s, r) \<Longrightarrow> utf8_decode r = Some ([], r)"
  using utf8_decode_append [of a s r "[]"] by (cases "utf8_decode r") auto

lemma utf8_decode_empty: "utf8_decode bs = Some ([], []) \<Longrightarrow> bs = []"
  by (cases bs) (auto simp: utf8_decode.simps Let_def cons_dec_def split: if_splits option.splits)

lemma utf8_decode_None_append: "utf8_decode a = None \<Longrightarrow> utf8_decode (a @ b) = None"
proof (induction a rule: utf8_decode.induct)
  case (2 x bs)
  show ?case
  proof (cases "utf8_lead (unat x)")
    case None
    then show ?thesis by (simp add: utf8_decode.simps)
  next
    case (Some k)
    then obtain n lo hi v where lead: "utf8_lead (unat x) = Some (n, lo, hi, v)" by (cases k) auto
    show ?thesis
    proof (cases "continuation lo hi (map unat (take n bs))")
      case False
      then have "\<not> continuation lo hi (map unat (take n (bs @ b)))"
        by (simp add: continuation_append)
      with lead show ?thesis by (simp add: utf8_decode.simps)
    next
      case True
      with "2.prems" lead have "\<not> length bs < n" "utf8_decode (drop n bs) = None"
        by (auto simp: utf8_decode.simps Let_def cons_dec_def split: if_splits option.splits)
      with "2.IH" lead True show ?thesis
        by (simp add: utf8_decode.simps Let_def cons_dec_def)
    qed
  qed
qed simp

lemma div64:
  assumes "x < (64::nat)"
  shows "(a * 64 + x) div 64 = a" "(a * 64 + x) mod 64 = x"
  using assms by simp_all

lemma div_by_64: "(c::nat) div 4096 = c div 64 div 64" "(c::nat) div 262144 = c div 64 div 64 div 64"
  by (simp_all flip: div_mult2_eq)

lemma utf8_char_fold:
  assumes lead: "utf8_lead b = Some (length xs, lo, hi, v)" and ok: "continuation lo hi xs"
  shows "utf8_char (utf8_fold v xs) = b # xs"
proof -
  from lead have "length xs \<le> 3"
    by (auto simp: utf8_lead_def split: if_splits)
  then consider "xs = []" | x where "xs = [x]" | x y where "xs = [x, y]"
    | x y z where "xs = [x, y, z]"
    using list_upto_3 by blast
  then show ?thesis
  proof cases
    case 1
    with lead show ?thesis by (auto simp: utf8_lead_def utf8_fold_def utf8_char_def split: if_splits)
  next
    case (2 x)
    with lead ok have b: "b = 192 + v" "2 \<le> v" "v < 32" "128 \<le> x" "x < 192"
      by (auto simp: utf8_lead_def split: if_splits)
    then obtain x' where x: "x = 128 + x'" "x' < 64" by (auto simp: le_iff_add)
    then have "128 \<le> v * 64 + x'" "v * 64 + x' < 2048" using b by auto
    with 2 b x show ?thesis
      by (simp add: utf8_fold_def utf8_char_def div64)
  next
    case (3 x y)
    with lead ok have b: "b = 224 + v" "v < 16" "128 \<le> x" "x < 192" "128 \<le> y" "y < 192" "v = 0 \<Longrightarrow> 160 \<le> x"
      by (auto simp: utf8_lead_def split: if_splits)
    then obtain x' y' where x: "x = 128 + x'" "x' < 64" "y = 128 + y'" "y' < 64" by (auto simp: le_iff_add)
    define c where "c = (v * 64 + x') * 64 + y'"
    have "2048 \<le> c" "c < 65536" using b x by (cases "v = 0"; simp add: c_def)+
    moreover have "c div 4096 = v" "c div 64 mod 64 = x'" "c mod 64 = y'"
      using x by (simp_all only: c_def div_by_64 div64)
    moreover have "utf8_fold v xs = c" by (simp add: 3 x utf8_fold_def c_def)
    ultimately show ?thesis using 3 b x by (simp add: utf8_char_def)
  next
    case (4 x y z)
    with lead ok have b: "b = 240 + v" "v < 5" "128 \<le> x" "x < 192" "128 \<le> y" "y < 192" "128 \<le> z" "z < 192"
       "v = 0 \<Longrightarrow> 144 \<le> x"
      by (auto simp: utf8_lead_def split: if_splits)
    then obtain x' y' z' where x: "x = 128 + x'" "x' < 64" "y = 128 + y'" "y' < 64" "z = 128 + z'" "z' < 64"
      by (auto simp: le_iff_add)
    define c where "c = ((v * 64 + x') * 64 + y') * 64 + z'"
    have "65536 \<le> c" using b x by (cases "v = 0"; simp add: c_def)+
    moreover have "c div 262144 = v" "c div 4096 mod 64 = x'" "c div 64 mod 64 = y'" "c mod 64 = z'"
      using x by (simp_all only: c_def div_by_64 div64)
    moreover have "utf8_fold v xs = c" by (simp add: 4 x utf8_fold_def c_def)
    ultimately show ?thesis using 4 b x by (simp add: utf8_char_def)
  qed
qed

lemma utf8_encode_decode: "utf8_decode bs = Some (s, r) \<Longrightarrow> utf8_encode s @ r = bs"
proof (induction bs arbitrary: s rule: utf8_decode.induct)
  case 1
  then show ?case by (simp add: utf8_encode_def)
next
  case (2 b bs)
  from "2.prems" obtain n lo hi v where
    lead: "utf8_lead (unat b) = Some (n, lo, hi, v)"
    by (auto simp: utf8_decode.simps split: option.splits)
  show ?case
  proof (cases "length bs < n")
    case True
    with "2.prems" lead show ?thesis
      by (auto simp: utf8_decode.simps Let_def utf8_encode_def split: if_splits)
  next
    case False
    with "2.prems" lead obtain s' where
      ok: "continuation lo hi (map unat (take n bs))" and
      rec: "utf8_decode (drop n bs) = Some (s', r)" and
      s: "s = utf8_fold v (map unat (take n bs)) # s'"
      by (auto simp: utf8_decode.simps Let_def split: if_splits)
    have c: "utf8_char (utf8_fold v (map unat (take n bs))) = unat b # map unat (take n bs)"
      by (rule utf8_char_fold [OF _ ok]) (use lead False in simp)
    have "utf8_encode s' @ r = drop n bs"
      using "2.IH" lead ok rec False by auto
    then show ?thesis
      by (simp add: s utf8_encode_def c o_def flip: append_assoc) simp
  qed
qed

lemma utf8_decode_len: "utf8_decode bs = Some (s, r) \<Longrightarrow> utf8_len s + length r = length bs"
  using utf8_encode_decode [of bs s r] by (auto simp: utf8_len_def)

end
