(* ===== verification/Json.thy ===== *)
theory Json
  imports Complex_Main Utf8 "HOL-Library.Log_Nat" "HOL-Library.List_Lexorder"
begin

text \<open>
  The \<^verbatim>\<open>json\<close> module as the program calls it: \<^verbatim>\<open>json.loads\<close> with its two hooks
  (\<^verbatim>\<open>object_pairs_hook\<close>, \<^verbatim>\<open>parse_constant\<close>), its recursion limit and the interpreter's
  limit on the digits of an integer, and \<^verbatim>\<open>json.dumps\<close> with compact separators.
  Floats are IEEE doubles: a literal is rounded to the nearest double (ties to even,
  overflow to infinity) and printed by its shortest representation.

  The scanner is recursive on fuel; \<open>loads_never_starves\<close> shows that the fuel
  \<open>loads\<close> gives is always enough.  The locale \<open>string_codec\<close> states what a string
  encoder owes the scanner, and its lemmas give the print/parse round trip once for
  every encoder the program uses.
\<close>

section \<open>Values\<close>

datatype pyfloat = Finite bool rat | Infinite bool | NaN

datatype json =
    JNull
  | JBool bool
  | JInt int
  | JFloat pyfloat
  | JStr pystr
  | JList "json list"
  | JDict "(pystr \<times> json) list"

datatype json_exn = DecodeError | ValueError | RecursionError | Raised code | OutOfFuel

type_synonym 'a scan = "json_exn + ('a \<times> pystr)"

section \<open>Doubles\<close>

definition ilog2 :: "rat \<Rightarrow> int" where
  "ilog2 q = (if 1 \<le> q then int (floorlog 2 (nat \<lfloor>q\<rfloor>)) - 1
              else - int (floorlog 2 (nat (\<lceil>1 / q\<rceil> - 1))))"

definition half_even :: "rat \<Rightarrow> int" where
  "half_even q =
     (let n = \<lfloor>q\<rfloor>; d = q - of_int n in
      if d < 1 / 2 then n else if 1 / 2 < d then n + 1 else if even n then n else n + 1)"

definition power_int_rat :: "rat \<Rightarrow> int \<Rightarrow> rat" where
  "power_int_rat b e = (if 0 \<le> e then b ^ nat e else 1 / b ^ nat (- e))"

text \<open>The double nearest to a non-negative rational, with its sign.\<close>

definition to_double :: "bool \<Rightarrow> rat \<Rightarrow> pyfloat" where
  "to_double neg q =
     (if q = 0 then Finite neg 0
      else
        let e = max (- 1074) (ilog2 q - 52);
            m = half_even (q / power_int_rat 2 e);
            r = of_int m * power_int_rat 2 e
        in if r < power_int_rat 2 1024 then Finite neg r else Infinite neg)"

fun is_finite :: "pyfloat \<Rightarrow> bool" where
  "is_finite (Finite _ _) = True"
| "is_finite _ = False"

text \<open>Python's \<^verbatim>\<open>value == 1\<close> for a value that is not a \<^verbatim>\<open>bool\<close>; a float may be equal too.\<close>

fun equals_one :: "json \<Rightarrow> bool" where
  "equals_one (JInt i) = (i = 1)"
| "equals_one (JFloat (Finite neg q)) = (\<not> neg \<and> q = 1)"
| "equals_one _ = False"

section \<open>Scanning\<close>

definition json_ws :: "nat \<Rightarrow> bool" where
  "json_ws c \<longleftrightarrow> c = 32 \<or> c = 9 \<or> c = 10 \<or> c = 13"

definition skip_ws :: "pystr \<Rightarrow> pystr" where
  "skip_ws s = dropWhile json_ws s"

definition hex_val :: "nat \<Rightarrow> nat option" where
  "hex_val c =
     (if 48 \<le> c \<and> c \<le> 57 then Some (c - 48)
      else if 97 \<le> c \<and> c \<le> 102 then Some (c - 87)
      else if 65 \<le> c \<and> c \<le> 70 then Some (c - 55)
      else None)"

fun hex4 :: "pystr \<Rightarrow> nat option" where
  "hex4 (a # b # c # d # _) =
     (case (hex_val a, hex_val b, hex_val c, hex_val d) of
        (Some w, Some x, Some y, Some z) \<Rightarrow> Some (((w * 16 + x) * 16 + y) * 16 + z)
      | _ \<Rightarrow> None)"
| "hex4 _ = None"

definition simple_escape :: "nat \<Rightarrow> nat option" where
  "simple_escape c =
     (if c = 34 \<or> c = 92 \<or> c = 47 then Some c
      else if c = 98 then Some 8
      else if c = 102 then Some 12
      else if c = 110 then Some 10
      else if c = 114 then Some 13
      else if c = 116 then Some 9
      else None)"

definition high_surrogate :: "nat \<Rightarrow> bool" where
  "high_surrogate c \<longleftrightarrow> 55296 \<le> c \<and> c \<le> 56319"

definition low_surrogate :: "nat \<Rightarrow> bool" where
  "low_surrogate c \<longleftrightarrow> 56320 \<le> c \<and> c \<le> 57343"

text \<open>The low half that an escaped high surrogate is joined with, if it follows at once.\<close>

definition low_half :: "nat \<Rightarrow> pystr \<Rightarrow> nat option" where
  "low_half u s =
     (if high_surrogate u \<and> prefix [92, 117] s then
        (case hex4 (drop 2 s) of
           Some v \<Rightarrow> if low_surrogate v then Some v else None
         | None \<Rightarrow> None)
      else None)"

definition join_surrogates :: "nat \<Rightarrow> nat \<Rightarrow> nat" where
  "join_surrogates u v = 65536 + (u - 55296) * 1024 + (v - 56320)"

text \<open>The rest of a string literal, after its opening quotation mark.\<close>

fun scan_string :: "pystr \<Rightarrow> (pystr \<times> pystr) option" where
  "scan_string [] = None"
| "scan_string (c # cs) =
     (if c = 34 then Some ([], cs)
      else if c < 32 then None
      else if c \<noteq> 92 then cons_dec c (scan_string cs)
      else (case cs of
          [] \<Rightarrow> None
        | e # r \<Rightarrow>
            if e \<noteq> 117 then
              (case simple_escape e of None \<Rightarrow> None | Some x \<Rightarrow> cons_dec x (scan_string r))
            else
              (case hex4 r of
                 None \<Rightarrow> None
               | Some u \<Rightarrow>
                   (case low_half u (drop 4 r) of
                      Some v \<Rightarrow> cons_dec (join_surrogates u v) (scan_string (drop 10 r))
                    | None \<Rightarrow> cons_dec u (scan_string (drop 4 r))))))"

declare scan_string.simps(2) [simp del]

text \<open>Longest prefix of digits, and the rest.\<close>

definition digit_run :: "pystr \<Rightarrow> nat list \<times> pystr" where
  "digit_run s = (map (\<lambda>c. c - 48) (takeWhile ascii_digit s), dropWhile ascii_digit s)"

definition scan_fraction :: "pystr \<Rightarrow> nat list \<times> pystr" where
  "scan_fraction s =
     (if s \<noteq> [] \<and> hd s = 46 \<and> fst (digit_run (tl s)) \<noteq> [] then digit_run (tl s) else ([], s))"

definition scan_exponent :: "pystr \<Rightarrow> int option \<times> pystr" where
  "scan_exponent s =
     (if s \<noteq> [] \<and> (hd s = 101 \<or> hd s = 69) then
        let r = tl s;
            neg = (r \<noteq> [] \<and> hd r = 45);
            r1 = (if r \<noteq> [] \<and> (hd r = 45 \<or> hd r = 43) then tl r else r);
            (ds, r2) = digit_run r1
        in if ds = [] then (None, s)
           else (Some (if neg then - int (of_digits ds) else int (of_digits ds)), r2)
      else (None, s))"

text \<open>CPython refuses to convert more than this many decimal digits to an integer.\<close>

definition int_max_str_digits :: nat where
  "int_max_str_digits = 4300"

definition scan_number :: "pystr \<Rightarrow> json scan" where
  "scan_number s =
     (let neg = (s \<noteq> [] \<and> hd s = 45);
          r = (if neg then tl s else s)
      in if r = [] \<or> \<not> ascii_digit (hd r) then Inl DecodeError
         else
           let (ds, r1) = (if hd r = 48 then ([0], tl r) else digit_run r);
               (fs, r2) = scan_fraction r1;
               (ex, r3) = scan_exponent r2
           in if fs = [] \<and> ex = None then
                (if int_max_str_digits < length ds then Inl ValueError
                 else Inr (JInt (if neg then - int (of_digits ds) else int (of_digits ds)), r3))
              else
                Inr (JFloat (to_double neg
                  (of_nat (of_digits (ds @ fs)) *
                     power_int_rat 10 ((case ex of None \<Rightarrow> 0 | Some e \<Rightarrow> e) - int (length fs)))), r3))"

record hooks =
  pairs_hook :: "(pystr \<times> json) list \<Rightarrow> code + json"
  const_hook :: "pyfloat \<Rightarrow> code + json"

definition raised :: "code + 'a \<Rightarrow> json_exn + 'a" where
  "raised r = (case r of Inl c \<Rightarrow> Inl (Raised c) | Inr x \<Rightarrow> Inr x)"

fun scan_value :: "hooks \<Rightarrow> nat \<Rightarrow> nat \<Rightarrow> pystr \<Rightarrow> json scan"
  and scan_items :: "hooks \<Rightarrow> nat \<Rightarrow> nat \<Rightarrow> json list \<Rightarrow> pystr \<Rightarrow> json scan"
  and scan_members :: "hooks \<Rightarrow> nat \<Rightarrow> nat \<Rightarrow> (pystr \<times> json) list \<Rightarrow> pystr \<Rightarrow> json scan" where
  "scan_value h 0 d s = Inl OutOfFuel"
| "scan_value h (Suc f) d s =
     (if s = [] then Inl DecodeError
      else if hd s = 34 then
        (case scan_string (tl s) of None \<Rightarrow> Inl DecodeError | Some (t, r) \<Rightarrow> Inr (JStr t, r))
      else if hd s = 123 then
        (if d = 0 then Inl RecursionError
         else if prefix [125] (skip_ws (tl s)) then
           bind_res (raised (pairs_hook h [])) (\<lambda>v. Inr (v, tl (skip_ws (tl s))))
         else scan_members h f (d - 1) [] (skip_ws (tl s)))
      else if hd s = 91 then
        (if d = 0 then Inl RecursionError
         else if prefix [93] (skip_ws (tl s)) then Inr (JList [], tl (skip_ws (tl s)))
         else scan_items h f (d - 1) [] (skip_ws (tl s)))
      else if prefix (lit ''null'') s then Inr (JNull, drop 4 s)
      else if prefix (lit ''true'') s then Inr (JBool True, drop 4 s)
      else if prefix (lit ''false'') s then Inr (JBool False, drop 5 s)
      else if prefix (lit ''NaN'') s then
        bind_res (raised (const_hook h NaN)) (\<lambda>v. Inr (v, drop 3 s))
      else if prefix (lit ''Infinity'') s then
        bind_res (raised (const_hook h (Infinite False))) (\<lambda>v. Inr (v, drop 8 s))
      else if prefix (lit ''-Infinity'') s then
        bind_res (raised (const_hook h (Infinite True))) (\<lambda>v. Inr (v, drop 9 s))
      else scan_number s)"
| "scan_items h 0 d acc s = Inl OutOfFuel"
| "scan_items h (Suc f) d acc s =
     bind_res (scan_value h f d s) (\<lambda>(v, r).
       let r1 = skip_ws r in
       if prefix [93] r1 then Inr (JList (rev (v # acc)), tl r1)
       else if prefix [44] r1 then scan_items h f d (v # acc) (skip_ws (tl r1))
       else Inl DecodeError)"
| "scan_members h 0 d acc s = Inl OutOfFuel"
| "scan_members h (Suc f) d acc s =
     (if \<not> prefix [34] s then Inl DecodeError
      else
        (case scan_string (tl s) of
           None \<Rightarrow> Inl DecodeError
         | Some (k, r) \<Rightarrow>
             if \<not> prefix [58] (skip_ws r) then Inl DecodeError
             else
               bind_res (scan_value h f d (skip_ws (tl (skip_ws r)))) (\<lambda>(v, r').
                 let r1 = skip_ws r' in
                 if prefix [125] r1 then
                   bind_res (raised (pairs_hook h (rev ((k, v) # acc)))) (\<lambda>x. Inr (x, tl r1))
                 else if prefix [44] r1 then
                   scan_members h f d ((k, v) # acc) (skip_ws (tl r1))
                 else Inl DecodeError)))"

text \<open>\<open>limit\<close> is the interpreter's recursion allowance for nested containers.\<close>

definition loads :: "hooks \<Rightarrow> nat \<Rightarrow> pystr \<Rightarrow> json_exn + json" where
  "loads h limit s =
     (if prefix [65279] s then Inl DecodeError
      else bind_res (scan_value h (2 * length s + 1) limit (skip_ws s)) (\<lambda>(v, r).
        if skip_ws r = [] then Inr v else Inl DecodeError))"

text \<open>Without hooks: a later duplicate replaces the value of an earlier key.\<close>

fun dict_put :: "(pystr \<times> 'a) list \<Rightarrow> pystr \<Rightarrow> 'a \<Rightarrow> (pystr \<times> 'a) list" where
  "dict_put [] k v = [(k, v)]"
| "dict_put ((k', v') # kvs) k v =
     (if k' = k then (k, v) # kvs else (k', v') # dict_put kvs k v)"

definition dict_of :: "(pystr \<times> 'a) list \<Rightarrow> (pystr \<times> 'a) list" where
  "dict_of pairs = foldl (\<lambda>d (k, v). dict_put d k v) [] pairs"

definition plain_hooks :: hooks where
  "plain_hooks = \<lparr>pairs_hook = (\<lambda>ps. Inr (JDict (dict_of ps))), const_hook = (\<lambda>c. Inr (JFloat c))\<rparr>"

section \<open>Printing\<close>

definition str_int :: "int \<Rightarrow> pystr" where
  "str_int i = (if i < 0 then 45 # str_nat (nat (- i)) else str_nat (nat i))"

text \<open>Shortest decimal \<open>d * 10 ^ k\<close> that reads back as the given double.\<close>

definition ilog10 :: "rat \<Rightarrow> int" where
  "ilog10 q = (if 1 \<le> q then int (length (digits_of (nat \<lfloor>q\<rfloor>))) - 1
               else - int (length (digits_of (nat (\<lceil>1 / q\<rceil> - 1)))))"

definition round_digits :: "rat \<Rightarrow> nat \<Rightarrow> nat \<times> int" where
  "round_digits q n =
     (let k = ilog10 q + 1 - int n in (nat (half_even (q / power_int_rat 10 k)), k))"

definition reads_back :: "rat \<Rightarrow> nat \<Rightarrow> bool" where
  "reads_back q n =
     (case round_digits q n of (d, k) \<Rightarrow>
        to_double False (of_nat d * power_int_rat 10 k) = Finite False q)"

definition shortest :: "rat \<Rightarrow> nat \<times> int" where
  "shortest q =
     (case find (reads_back q) [1..<18] of
        Some n \<Rightarrow> round_digits q n
      | None \<Rightarrow> round_digits q 17)"

definition float_magnitude :: "rat \<Rightarrow> pystr" where
  "float_magnitude q =
     (if q = 0 then lit ''0.0''
      else
        let (d, k) = shortest q;
            ds = rev (dropWhile (\<lambda>x. x = 48) (rev (str_nat d)));
            point = int (length (str_nat d)) + k
        in if - 4 < point \<and> point \<le> 16 then
             (if point \<le> 0 then lit ''0.'' @ replicate (nat (- point)) 48 @ ds
              else if int (length ds) \<le> point then
                ds @ replicate (nat point - length ds) 48 @ lit ''.0''
              else take (nat point) ds @ [46] @ drop (nat point) ds)
           else
             (let x = point - 1; ex = str_nat (nat \<bar>x\<bar>) in
              (if length ds = 1 then ds else take 1 ds @ [46] @ drop 1 ds)
              @ lit ''e'' @ (if x < 0 then [45] else [43])
              @ (if length ex < 2 then 48 # ex else ex)))"

fun float_repr :: "pyfloat \<Rightarrow> pystr" where
  "float_repr NaN = lit ''NaN''"
| "float_repr (Infinite neg) = (if neg then lit ''-Infinity'' else lit ''Infinity'')"
| "float_repr (Finite neg q) = (if neg then [45] else []) @ float_magnitude q"

definition hex_digit :: "nat \<Rightarrow> nat" where
  "hex_digit n = (if n < 10 then 48 + n else 87 + n)"

definition u_escape :: "nat \<Rightarrow> pystr" where
  "u_escape c =
     [92, 117, hex_digit (c div 4096 mod 16), hex_digit (c div 256 mod 16),
      hex_digit (c div 16 mod 16), hex_digit (c mod 16)]"

text \<open>String contents with \<^verbatim>\<open>ensure_ascii=False\<close>.\<close>

definition esc_char :: "nat \<Rightarrow> pystr" where
  "esc_char c =
     (if c = 34 \<or> c = 92 then [92, c]
      else if c = 10 then [92, 110]
      else if c = 13 then [92, 114]
      else if c = 9 then [92, 116]
      else if c = 12 then [92, 102]
      else if c = 8 then [92, 98]
      else if c < 32 then u_escape c
      else [c])"

definition esc :: "pystr \<Rightarrow> pystr" where
  "esc s = concat (map esc_char s)"

text \<open>\<^verbatim>\<open>json.dumps(v, separators=(",", ":"))\<close> for a string encoder.\<close>

fun dump :: "(pystr \<Rightarrow> pystr) \<Rightarrow> json \<Rightarrow> pystr" where
  "dump e JNull = lit ''null''"
| "dump e (JBool b) = (if b then lit ''true'' else lit ''false'')"
| "dump e (JInt i) = str_int i"
| "dump e (JFloat f) = float_repr f"
| "dump e (JStr s) = 34 # e s @ [34]"
| "dump e (JList vs) = 91 # join [44] (map (dump e) vs) @ [93]"
| "dump e (JDict kvs) =
     123 # join [44] (map (\<lambda>(k, v). 34 # e k @ [34, 58] @ dump e v) kvs) @ [125]"

text \<open>\<^verbatim>\<open>sort_keys=True\<close>: every object's members in code point order of their keys.\<close>

fun sort_keys :: "json \<Rightarrow> json" where
  "sort_keys (JList vs) = JList (map sort_keys vs)"
| "sort_keys (JDict kvs) = JDict (sort_key fst (map (\<lambda>(k, v). (k, sort_keys v)) kvs))"
| "sort_keys v = v"

text \<open>Does any string or key hold a surrogate (so that UTF-8 encoding would fail)?\<close>

fun has_surrogate :: "json \<Rightarrow> bool" where
  "has_surrogate (JStr s) = (\<exists>c\<in>set s. surrogate c)"
| "has_surrogate (JList vs) = (\<exists>v\<in>set vs. has_surrogate v)"
| "has_surrogate (JDict kvs) =
     (\<exists>kv\<in>set kvs. (\<exists>c\<in>set (fst kv). surrogate c) \<or> has_surrogate (snd kv))"
| "has_surrogate _ = False"

fun json_depth :: "json \<Rightarrow> nat" where
  "json_depth (JList vs) = Suc (fold max (map json_depth vs) 0)"
| "json_depth (JDict kvs) = Suc (fold max (map (\<lambda>kv. json_depth (snd kv)) kvs) 0)"
| "json_depth _ = 0"

section \<open>The scanner consumes input\<close>

lemma skip_ws_le: "length (skip_ws s) \<le> length s"
  by (simp add: skip_ws_def length_dropWhile_le)

lemma skip_ws_prefix_lt: "prefix [c] (skip_ws s) \<Longrightarrow> length (tl (skip_ws s)) < length s"
  using skip_ws_le [of s] by (cases "skip_ws s") auto

lemma scan_string_shorter: "scan_string s = Some (t, r) \<Longrightarrow> length r < length s"
proof (induction s arbitrary: t r rule: length_induct)
  case (1 s)
  then have IH: "\<And>ys t r. scan_string ys = Some (t, r) \<Longrightarrow> length ys < length s \<Longrightarrow> length r < length ys"
    by blast
  from "1.prems" show ?case
    by (cases s)
      (auto simp: scan_string.simps(2) split: if_splits list.splits option.splits dest!: IH)
qed

lemma digit_run_le: "digit_run s = (ds, r) \<Longrightarrow> length r \<le> length s"
  by (auto simp: digit_run_def length_dropWhile_le)

lemma digit_run_lt: "digit_run s = (ds, r) \<Longrightarrow> s \<noteq> [] \<Longrightarrow> ascii_digit (hd s) \<Longrightarrow> length r < length s"
  by (cases s) (auto simp: digit_run_def less_Suc_eq_le length_dropWhile_le)

lemma scan_fraction_le: "scan_fraction s = (ds, r) \<Longrightarrow> length r \<le> length s"
  by (cases s) (auto simp: scan_fraction_def split: if_splits dest: digit_run_le)

lemma scan_exponent_le: "scan_exponent s = (e, r) \<Longrightarrow> length r \<le> length s"
proof (cases s)
  case (Cons c cs)
  assume "scan_exponent s = (e, r)"
  moreover have "length (snd (digit_run (tl cs))) \<le> length cs" "length (snd (digit_run cs)) \<le> length cs"
    using digit_run_le [of "tl cs"] digit_run_le [of cs]
    by (metis diff_le_self le_trans length_tl prod.collapse)+
  ultimately show ?thesis
    using Cons by (auto simp: scan_exponent_def Let_def split: if_splits prod.splits)
qed (auto simp: scan_exponent_def)

lemma scan_number_shorter:
  assumes "scan_number s = Inr (v, r)"
  shows "length r < length s"
proof -
  define rest where "rest = (if s \<noteq> [] \<and> hd s = 45 then tl s else s)"
  obtain ds r1 where d: "(if hd rest = 48 then ([0], tl rest) else digit_run rest) = (ds, r1)"
    by fastforce
  obtain fs r2 where f: "scan_fraction r1 = (fs, r2)" by fastforce
  obtain ex r3 where x: "scan_exponent r2 = (ex, r3)" by fastforce
  from assms d f x have ok: "rest \<noteq> []" "ascii_digit (hd rest)" and r: "r = r3"
    by (auto simp: scan_number_def rest_def [symmetric] Let_def split: if_splits)
  have "length r1 < length rest"
    using d ok by (auto split: if_splits dest: digit_run_lt)
  moreover have "length rest \<le> length s" by (simp add: rest_def)
  ultimately show ?thesis
    using scan_fraction_le [OF f] scan_exponent_le [OF x] unfolding r by linarith
qed

lemma raised_simps [simp]: "raised (Inl c) = Inl (Raised c)" "raised (Inr x) = Inr x"
  by (simp_all add: raised_def)

lemma raised_not_fuel [simp]: "raised x \<noteq> Inl OutOfFuel"
  by (cases x) auto

lemma scan_number_not_fuel [simp]: "scan_number s \<noteq> Inl OutOfFuel"
  by (simp add: scan_number_def Let_def split: prod.split)

lemma scan_shorter_all:
  "(\<forall>d s v r. scan_value h f d s = Inr (v, r) \<longrightarrow> length r < length s) \<and>
   (\<forall>d acc s v r. scan_items h f d acc s = Inr (v, r) \<longrightarrow> length r < length s) \<and>
   (\<forall>d acc s v r. scan_members h f d acc s = Inr (v, r) \<longrightarrow> length r < length s)"
proof (induction f)
  case 0
  show ?case by simp
next
  case (Suc f)
  then have IHv: "\<And>d s v r. scan_value h f d s = Inr (v, r) \<Longrightarrow> length r < length s"
    and IHi: "\<And>d acc s v r. scan_items h f d acc s = Inr (v, r) \<Longrightarrow> length r < length s"
    and IHm: "\<And>d acc s v r. scan_members h f d acc s = Inr (v, r) \<Longrightarrow> length r < length s"
    by blast+
  have "length r < length s" if "scan_value h (Suc f) d s = Inr (v, r)" for d s v r
  proof -
    have drop: "prefix p s \<Longrightarrow> p \<noteq> [] \<Longrightarrow> length (drop (length p) s) < length s" for p
      by (auto simp: prefix_def)
    have tl: "s \<noteq> [] \<Longrightarrow> length (skip_ws (tl s)) < length s"
      using skip_ws_le [of "tl s"] by (cases s) auto
    from that show ?thesis
      using drop [of "lit ''null''"] drop [of "lit ''true''"] drop [of "lit ''false''"]
        drop [of "lit ''NaN''"] drop [of "lit ''Infinity''"] drop [of "lit ''-Infinity''"] tl
        skip_ws_prefix_lt [of 125 "tl s"] skip_ws_prefix_lt [of 93 "tl s"]
      by (auto simp: res_simps split: if_splits option.splits
          dest!: scan_string_shorter scan_number_shorter IHi IHm)
  qed
  moreover have "length r < length s" if "scan_items h (Suc f) d acc s = Inr (v, r)" for d acc s v r
    using that
    by (auto simp: res_simps Let_def split: if_splits dest!: IHv IHi skip_ws_prefix_lt
        intro: less_le_trans [OF _ skip_ws_le] dest: less_le_trans [OF _ skip_ws_le])
  moreover have "length r < length s" if "scan_members h (Suc f) d acc s = Inr (v, r)" for d acc s v r
  proof -
    from that obtain k r0 v' r' where
      k: "scan_string (tl s) = Some (k, r0)" and c: "prefix [58] (skip_ws r0)" and
      v: "scan_value h f d (skip_ws (tl (skip_ws r0))) = Inr (v', r')" and
      e: "(prefix [125] (skip_ws r') \<and> r = tl (skip_ws r')) \<or>
        (prefix [44] (skip_ws r') \<and> scan_members h f d ((k, v') # acc) (skip_ws (tl (skip_ws r'))) = Inr (v, r))"
      by (auto simp: res_simps Let_def split: if_splits option.splits)
    have "length r < length r'"
      using e skip_ws_le [of "tl (skip_ws r')"] by (auto dest!: skip_ws_prefix_lt IHm)
    then show ?thesis
      using scan_string_shorter [OF k] skip_ws_prefix_lt [OF c] IHv [OF v] skip_ws_le [of "tl (skip_ws r0)"]
      by simp
  qed
  ultimately show ?case by blast
qed

lemmas scan_value_shorter = scan_shorter_all [THEN conjunct1, rule_format]
  and scan_items_shorter = scan_shorter_all [THEN conjunct2, THEN conjunct1, rule_format]
  and scan_members_shorter = scan_shorter_all [THEN conjunct2, THEN conjunct2, rule_format]

lemma scan_never_starves_all:
  "(\<forall>d s. 2 * length s < f \<longrightarrow> scan_value h f d s \<noteq> Inl OutOfFuel) \<and>
   (\<forall>d acc s. 2 * length s + 1 < f \<longrightarrow> scan_items h f d acc s \<noteq> Inl OutOfFuel) \<and>
   (\<forall>d acc s. 2 * length s + 1 < f \<longrightarrow> scan_members h f d acc s \<noteq> Inl OutOfFuel)"
proof (induction f)
  case 0
  show ?case by simp
next
  case (Suc f)
  then have IHv: "\<And>d s. 2 * length s < f \<Longrightarrow> scan_value h f d s \<noteq> Inl OutOfFuel"
    and IHi: "\<And>d acc s. 2 * length s + 1 < f \<Longrightarrow> scan_items h f d acc s \<noteq> Inl OutOfFuel"
    and IHm: "\<And>d acc s. 2 * length s + 1 < f \<Longrightarrow> scan_members h f d acc s \<noteq> Inl OutOfFuel"
    by blast+
  have "scan_value h (Suc f) d s \<noteq> Inl OutOfFuel" if "2 * length s < Suc f" for d s
  proof (cases "s = []")
    case False
    then have "2 * length (skip_ws (tl s)) + 1 < f"
      using that skip_ws_le [of "tl s"] by (cases s) auto
    then show ?thesis
      by (auto simp: res_simps IHi IHm split: option.split)
  qed simp
  moreover have "scan_items h (Suc f) d acc s \<noteq> Inl OutOfFuel" if "2 * length s + 1 < Suc f" for d acc s
  proof -
    have "2 * length (skip_ws (tl (skip_ws r))) + 1 < f"
      if "scan_value h f d s = Inr (v, r)" "prefix [44] (skip_ws r)" for v r
      using scan_value_shorter [OF that(1)] skip_ws_prefix_lt [OF that(2)]
        skip_ws_le [of "tl (skip_ws r)"] \<open>2 * length s + 1 < Suc f\<close> by linarith
    with IHv [of s d] that show ?thesis
      by (auto simp: res_simps Let_def IHi)
  qed
  moreover have "scan_members h (Suc f) d acc s \<noteq> Inl OutOfFuel" if "2 * length s + 1 < Suc f" for d acc s
  proof -
    have "2 * length (skip_ws (tl (skip_ws r0))) < f"
      if "scan_string (tl s) = Some (k, r0)" "prefix [58] (skip_ws r0)" for k r0
      using scan_string_shorter [OF that(1)] skip_ws_prefix_lt [OF that(2)]
        skip_ws_le [of "tl (skip_ws r0)"] \<open>2 * length s + 1 < Suc f\<close> by simp
    moreover have "2 * length (skip_ws (tl (skip_ws r))) + 1 < f"
      if "scan_string (tl s) = Some (k, r0)" "prefix [58] (skip_ws r0)"
        "scan_value h f d (skip_ws (tl (skip_ws r0))) = Inr (v, r)" "prefix [44] (skip_ws r)" for k r0 v r
      using scan_string_shorter [OF that(1)] skip_ws_prefix_lt [OF that(2)]
        skip_ws_le [of "tl (skip_ws r0)"] scan_value_shorter [OF that(3)]
        skip_ws_prefix_lt [OF that(4)] skip_ws_le [of "tl (skip_ws r)"]
        \<open>2 * length s + 1 < Suc f\<close> by simp
    ultimately show ?thesis
      by (auto simp: res_simps Let_def IHm IHv split: option.split)
  qed
  ultimately show ?case by blast
qed

lemma loads_never_starves: "loads h limit s \<noteq> Inl OutOfFuel"
proof -
  have "2 * length (skip_ws s) < 2 * length s + 1"
    using skip_ws_le [of s] by simp
  then have "scan_value h (2 * length s + 1) limit (skip_ws s) \<noteq> Inl OutOfFuel"
    using scan_never_starves_all [of "2 * length s + 1" h] by blast
  then show ?thesis
    by (auto simp: loads_def bind_res_eq_Inl simp del: scan_value.simps)
qed

text \<open>More fuel never changes an answer.\<close>

lemma scan_mono_all:
  "(\<forall>d s. scan_value h f d s \<noteq> Inl OutOfFuel \<longrightarrow> scan_value h (Suc f) d s = scan_value h f d s) \<and>
   (\<forall>d acc s. scan_items h f d acc s \<noteq> Inl OutOfFuel \<longrightarrow>
      scan_items h (Suc f) d acc s = scan_items h f d acc s) \<and>
   (\<forall>d acc s. scan_members h f d acc s \<noteq> Inl OutOfFuel \<longrightarrow>
      scan_members h (Suc f) d acc s = scan_members h f d acc s)"
proof (induction f)
  case 0
  show ?case by simp
next
  case (Suc f)
  then have IHv: "\<And>d s. scan_value h f d s \<noteq> Inl OutOfFuel \<Longrightarrow>
      scan_value h (Suc f) d s = scan_value h f d s"
    and IHi: "\<And>d acc s. scan_items h f d acc s \<noteq> Inl OutOfFuel \<Longrightarrow>
      scan_items h (Suc f) d acc s = scan_items h f d acc s"
    and IHm: "\<And>d acc s. scan_members h f d acc s \<noteq> Inl OutOfFuel \<Longrightarrow>
      scan_members h (Suc f) d acc s = scan_members h f d acc s"
    by blast+
  have "scan_value h (Suc (Suc f)) d s = scan_value h (Suc f) d s"
    if "scan_value h (Suc f) d s \<noteq> Inl OutOfFuel" for d s
    using that
    by (simp only: scan_value.simps(2) [of h "Suc f" d s] scan_value.simps(2) [of h f d s])
      (auto simp del: scan_items.simps scan_members.simps simp: IHi IHm)
  moreover have "scan_items h (Suc (Suc f)) d acc s = scan_items h (Suc f) d acc s"
    if "scan_items h (Suc f) d acc s \<noteq> Inl OutOfFuel" for d acc s
    using that
    by (simp only: scan_items.simps(2) [of h "Suc f" d acc s] scan_items.simps(2) [of h f d acc s])
      (cases "scan_value h f d s",
       auto simp del: scan_items.simps scan_value.simps simp: IHv IHi Let_def)
  moreover have "scan_members h (Suc (Suc f)) d acc s = scan_members h (Suc f) d acc s"
    if "scan_members h (Suc f) d acc s \<noteq> Inl OutOfFuel" for d acc s
  proof (cases "scan_string (tl s)")
    case (Some kr)
    then show ?thesis
      using that
      by (simp only: scan_members.simps(2) [of h "Suc f" d acc s] scan_members.simps(2) [of h f d acc s])
        (cases kr; cases "scan_value h f d (skip_ws (tl (skip_ws (snd kr))))",
         auto simp del: scan_members.simps scan_value.simps simp: IHv IHm Let_def)
  qed simp
  ultimately show ?case by blast
qed

lemma scan_items_fuel:
  assumes "scan_items h f d acc s = Inr x" and "f \<le> f'"
  shows "scan_items h f' d acc s = Inr x"
  using assms(2,1)
  by (induction rule: dec_induct) (use scan_mono_all in auto)

lemma scan_members_fuel:
  assumes "scan_members h f d acc s = Inr x" and "f \<le> f'"
  shows "scan_members h f' d acc s = Inr x"
  using assms(2,1)
  by (induction rule: dec_induct) (use scan_mono_all in auto)

lemma scan_value_stable:
  assumes "scan_value h f d s \<noteq> Inl OutOfFuel" and "f \<le> f'"
  shows "scan_value h f' d s = scan_value h f d s"
  using assms(2,1)
  by (induction rule: dec_induct) (use scan_mono_all in auto)

lemma scan_value_fuel:
  assumes "scan_value h f d s = Inr x" and "f \<le> f'"
  shows "scan_value h f' d s = Inr x"
  using assms(2,1)
  by (induction rule: dec_induct) (use scan_mono_all in auto)


section \<open>What is printed reads back\<close>

text \<open>Values whose printed form reads back: distinct keys, no floats, integers within the
  interpreter's digit limit, nesting within the recursion limit.\<close>

fun json_ok :: "nat \<Rightarrow> json \<Rightarrow> bool" where
  "json_ok d (JInt i) = (\<bar>i\<bar> < 10 ^ int_max_str_digits)"
| "json_ok d (JFloat f) = False"
| "json_ok d (JList vs) = (0 < d \<and> (\<forall>v\<in>set vs. json_ok (d - 1) v))"
| "json_ok d (JDict kvs) =
     (0 < d \<and> distinct (map fst kvs) \<and> (\<forall>kv\<in>set kvs. json_ok (d - 1) (snd kv)))"
| "json_ok d v = True"

definition stops :: "pystr \<Rightarrow> bool" where
  "stops r \<longleftrightarrow> r = [] \<or> hd r = 44 \<or> hd r = 93 \<or> hd r = 125"

lemma stops_simps [simp]: "stops []" "stops (44 # r)" "stops (93 # r)" "stops (125 # r)"
  by (simp_all add: stops_def)

lemma digit_run_str_nat:
  assumes "stops r"
  shows "digit_run (str_nat n @ r) = (digits_of n, r)"
proof -
  have "takeWhile ascii_digit r = []" "dropWhile ascii_digit r = r"
    using assms by (cases r; auto simp: stops_def ascii_digit_def)+
  moreover have "\<forall>c\<in>set (str_nat n). ascii_digit c" by (simp add: str_nat_digits)
  moreover have "map (\<lambda>c. c - 48) (str_nat n) = digits_of n"
    by (simp add: str_nat_def o_def)
  ultimately show ?thesis by (simp add: digit_run_def)
qed

lemma stops_no_tail: "stops r \<Longrightarrow> scan_fraction r = ([], r)" "stops r \<Longrightarrow> scan_exponent r = (None, r)"
  by (auto simp: stops_def scan_fraction_def scan_exponent_def)

lemma hd_str_nat: "hd (str_nat n) = 48 \<longleftrightarrow> n = 0" "ascii_digit (hd (str_nat n))" "hd (str_nat n) \<noteq> 45"
proof -
  show *: "ascii_digit (hd (str_nat n))"
    using str_nat_digits hd_in_set str_nat_nonempty by blast
  then show "hd (str_nat n) \<noteq> 45" by (auto simp: ascii_digit_def)
  show "hd (str_nat n) = 48 \<longleftrightarrow> n = 0"
    using digits_of_hd [of n] by (cases "n = 0") (auto simp: str_nat_def hd_map digits_of.simps [of 0])
qed

lemma str_nat_0: "str_nat 0 = [48]"
  by (simp add: str_nat_def digits_of.simps)

lemma int_max_str_digits_pos [simp]: "0 < int_max_str_digits" "\<not> int_max_str_digits < Suc 0"
  by (simp_all add: int_max_str_digits_def)

lemma scan_number_nat:
  assumes "stops r" "n < 10 ^ int_max_str_digits"
  shows "scan_number (str_nat n @ r) = Inr (JInt (int n), r)"
proof -
  have len: "length (digits_of n) \<le> int_max_str_digits"
    by (rule length_digits_of_le [OF assms(2)]) simp
  show ?thesis
  proof (cases "n = 0")
    case True
    then show ?thesis
      using assms(1) by (simp add: scan_number_def str_nat_0 stops_no_tail ascii_digit_def of_digits_def)
  next
    case False
    then show ?thesis
      using assms len hd_str_nat [of n]
      by (simp add: scan_number_def stops_no_tail digit_run_str_nat)
  qed
qed

lemma scan_number_neg:
  assumes "stops r" "n < 10 ^ int_max_str_digits" "0 < n"
  shows "scan_number (45 # str_nat n @ r) = Inr (JInt (- int n), r)"
proof -
  have len: "length (digits_of n) \<le> int_max_str_digits"
    by (rule length_digits_of_le [OF assms(2)]) simp
  show ?thesis
    using assms len hd_str_nat [of n]
    by (simp add: scan_number_def stops_no_tail digit_run_str_nat)
qed

lemma scan_number_str_int:
  assumes "stops r" "\<bar>i\<bar> < 10 ^ int_max_str_digits"
  shows "scan_number (str_int i @ r) = Inr (JInt i, r)"
proof -
  have "nat \<bar>i\<bar> < 10 ^ int_max_str_digits"
    using assms(2) by (metis nat_less_iff abs_ge_zero of_nat_numeral of_nat_power)
  then show ?thesis
    using scan_number_nat [OF assms(1), of "nat i"] scan_number_neg [OF assms(1), of "nat (- i)"]
    by (auto simp: str_int_def abs_if split: if_splits)
qed

definition accepts_pairs :: "hooks \<Rightarrow> bool" where
  "accepts_pairs h \<longleftrightarrow> (\<forall>ps. distinct (map fst ps) \<longrightarrow> pairs_hook h ps = Inr (JDict ps))"

text \<open>The first character of a printed value.\<close>

definition value_start :: "nat \<Rightarrow> bool" where
  "value_start c \<longleftrightarrow> c = 34 \<or> c = 91 \<or> c = 123 \<or> c = 110 \<or> c = 116 \<or> c = 102 \<or> c = 45 \<or> ascii_digit c"

lemma dump_start:
  assumes "json_ok d v"
  shows "\<exists>c cs. dump e v = c # cs \<and> value_start c"
proof (cases v)
  case (JInt i)
  have "\<exists>c cs. str_nat n = c # cs \<and> ascii_digit c" for n
    using hd_str_nat(2) [of n] by (metis list.collapse str_nat_nonempty)
  from this [of "nat i"] JInt show ?thesis by (auto simp: str_int_def value_start_def)
qed (use assms in \<open>auto simp: lit_def value_start_def\<close>)

lemma value_start_plain: "value_start c \<Longrightarrow> \<not> json_ws c \<and> c \<noteq> 93 \<and> c \<noteq> 125 \<and> c \<noteq> 65279"
  by (auto simp: value_start_def json_ws_def ascii_digit_def)

lemma skip_ws_dump: "json_ok d v \<Longrightarrow> skip_ws (dump e v @ r) = dump e v @ r"
  using dump_start [of d v e] value_start_plain by (auto simp: skip_ws_def)

lemma skip_ws_stops: "stops r \<Longrightarrow> skip_ws r = r"
  by (cases r) (auto simp: stops_def skip_ws_def json_ws_def)

lemma prefix_lit_hd: "prefix (lit (x # xs)) (c # cs) \<Longrightarrow> c = of_char x"
  by (auto simp: lit_def)

lemma scan_value_int:
  assumes "json_ok d (JInt i)" "stops r"
  shows "scan_value h (Suc 0) d (str_int i @ r) = Inr (JInt i, r)"
proof -
  obtain c cs where c: "str_int i = c # cs" "c = 45 \<or> ascii_digit c"
    using hd_str_nat(2) by (metis list.collapse str_int_def str_nat_nonempty)
  have neg: "\<not> prefix (lit ''-Infinity'') (str_int i @ r)"
  proof (cases "i < 0")
    case True
    then have "str_int i = 45 # str_nat (nat (- i))" by (simp add: str_int_def)
    moreover obtain x xs where "str_nat (nat (- i)) = x # xs" "ascii_digit x"
      using hd_str_nat(2) by (metis list.collapse str_nat_nonempty)
    ultimately show ?thesis by (auto simp: lit_def ascii_digit_def)
  next
    case False
    then have "c \<noteq> 45" using c(1) hd_str_nat(3) [of "nat i"] by (auto simp: str_int_def)
    then show ?thesis using c(1) by (auto dest: prefix_lit_hd)
  qed
  have ne: "c \<noteq> 34" "c \<noteq> 123" "c \<noteq> 91" "c \<noteq> 110" "c \<noteq> 116" "c \<noteq> 102" "c \<noteq> 78" "c \<noteq> 73"
    using c(2) by (auto simp: ascii_digit_def)
  have pre: "\<not> prefix (lit (x # xs)) (str_int i @ r)" if "of_char x \<noteq> c" for x xs
    using that c(1) by (auto dest: prefix_lit_hd)
  have "scan_value h (Suc 0) d (str_int i @ r) = scan_number (str_int i @ r)"
    using ne neg pre [of "CHR ''n''"] pre [of "CHR ''t''"] pre [of "CHR ''f''"] pre [of "CHR ''N''"]
      pre [of "CHR ''I''"]
    by (simp add: c(1))
  then show ?thesis
    using scan_number_str_int [of r i] assms by simp
qed

locale string_codec =
  fixes enc :: "pystr \<Rightarrow> pystr"
  assumes scan_enc: "scan_string (enc s @ 34 # r) = Some (s, r)"
begin

lemma scan_items_dump:
  assumes "\<And>v r. v \<in> set vs \<Longrightarrow> stops r \<Longrightarrow> \<exists>f. scan_value h f d (dump enc v @ r) = Inr (v, r)"
    and "\<And>v. v \<in> set vs \<Longrightarrow> json_ok d v" and "vs \<noteq> []"
  shows "\<exists>f. scan_items h f d acc (join [44] (map (dump enc) vs) @ 93 # r)
    = Inr (JList (rev acc @ vs), r)"
  using assms
proof (induction vs arbitrary: acc)
  case Nil
  then show ?case by simp
next
  case (Cons v vs)
  show ?case
  proof (cases vs)
    case Nil
    from Cons.prems(1) [of v "93 # r"] obtain f where
      "scan_value h f d (dump enc v @ 93 # r) = Inr (v, 93 # r)" by auto
    with Nil show ?thesis by (intro exI [of _ "Suc f"]) (simp add: skip_ws_stops)
  next
    case (Cons w ws)
    let ?rest = "join [44] (map (dump enc) vs) @ 93 # r"
    from Cons.prems(1) [of v "44 # ?rest"] obtain f1 where
      v: "scan_value h f1 d (dump enc v @ 44 # ?rest) = Inr (v, 44 # ?rest)" by auto
    obtain f2 where
      vs: "scan_items h f2 d (v # acc) ?rest = Inr (JList (rev (v # acc) @ vs), r)"
      using Cons.IH [of "v # acc"] Cons.prems Cons by auto
    define f where "f = max f1 f2"
    have "scan_value h f d (dump enc v @ 44 # ?rest) = Inr (v, 44 # ?rest)"
      by (rule scan_value_fuel [OF v]) (simp add: f_def)
    moreover have "scan_items h f d (v # acc) ?rest = Inr (JList (rev (v # acc) @ vs), r)"
      by (rule scan_items_fuel [OF vs]) (simp add: f_def)
    moreover have "skip_ws ?rest = ?rest"
      using Cons Cons.prems(2) [of w] skip_ws_dump [of d w enc] by (cases ws) auto
    ultimately show ?thesis
      using Cons by (intro exI [of _ "Suc f"]) (simp add: skip_ws_stops)
  qed
qed

lemma scan_members_dump:
  assumes "\<And>k v r. (k, v) \<in> set kvs \<Longrightarrow> stops r \<Longrightarrow> \<exists>f. scan_value h f d (dump enc v @ r) = Inr (v, r)"
    and "\<And>k v. (k, v) \<in> set kvs \<Longrightarrow> json_ok d v" and "kvs \<noteq> []"
    and "accepts_pairs h" and "distinct (map fst (rev acc @ kvs))"
  shows "\<exists>f. scan_members h f d acc
      (join [44] (map (\<lambda>(k, v). 34 # enc k @ [34, 58] @ dump enc v) kvs) @ 125 # r)
    = Inr (JDict (rev acc @ kvs), r)"
  using assms
proof (induction kvs arbitrary: acc)
  case Nil
  then show ?case by simp
next
  case (Cons kv kvs)
  obtain k v where kv: "kv = (k, v)" by fastforce
  have ok: "skip_ws (dump enc v @ x) = dump enc v @ x" for x
    using Cons.prems(2) [of k v] kv skip_ws_dump by simp
  have key: "scan_string (enc k @ 34 # 58 # x) = Some (k, 58 # x)" for x
    by (rule scan_enc)
  have colon: "skip_ws (58 # x) = 58 # x" for x by (simp add: skip_ws_def json_ws_def)
  show ?case
  proof (cases kvs)
    case Nil
    from Cons.prems(1) [of k v "125 # r"] kv obtain f where
      "scan_value h f d (dump enc v @ 125 # r) = Inr (v, 125 # r)" by auto
    moreover have "pairs_hook h (rev acc @ [(k, v)]) = Inr (JDict (rev acc @ [(k, v)]))"
      using Cons.prems(4,5) kv Nil unfolding accepts_pairs_def by simp
    ultimately show ?thesis
      using Nil kv by (intro exI [of _ "Suc f"]) (simp add: skip_ws_stops key ok colon)
  next
    case (Cons kw kws)
    let ?m = "\<lambda>(k, v). 34 # enc k @ [34, 58] @ dump enc v"
    let ?rest = "join [44] (map ?m kvs) @ 125 # r"
    from Cons.prems(1) [of k v "44 # ?rest"] kv obtain f1 where
      v: "scan_value h f1 d (dump enc v @ 44 # ?rest) = Inr (v, 44 # ?rest)" by auto
    have "\<exists>f. scan_members h f d ((k, v) # acc) ?rest = Inr (JDict (rev ((k, v) # acc) @ kvs), r)"
    proof (rule Cons.IH)
      show "\<exists>f. scan_value h f d (dump enc v @ r) = Inr (v, r)"
        if "(k, v) \<in> set kvs" "stops r" for k v r
        using Cons.prems(1) [of k v r] that by simp
      show "json_ok d v" if "(k, v) \<in> set kvs" for k v
        using Cons.prems(2) [of k v] that by simp
    qed (use Cons.prems(4,5) Cons kv in auto)
    then obtain f2 where
      vs: "scan_members h f2 d ((k, v) # acc) ?rest = Inr (JDict (rev ((k, v) # acc) @ kvs), r)"
      by blast
    define f where "f = max f1 f2"
    have "scan_value h f d (dump enc v @ 44 # ?rest) = Inr (v, 44 # ?rest)"
      by (rule scan_value_fuel [OF v]) (simp add: f_def)
    moreover have "scan_members h f d ((k, v) # acc) ?rest = Inr (JDict (rev ((k, v) # acc) @ kvs), r)"
      by (rule scan_members_fuel [OF vs]) (simp add: f_def)
    moreover have "skip_ws ?rest = ?rest"
      using Cons by (cases kw; cases kws) (auto simp: skip_ws_def json_ws_def)
    ultimately show ?thesis
      using Cons kv by (intro exI [of _ "Suc f"]) (simp add: skip_ws_stops key ok colon)
  qed
qed

lemma scan_dump:
  assumes "json_ok d v" and "accepts_pairs h" and "stops r"
  shows "\<exists>f. scan_value h f d (dump enc v @ r) = Inr (v, r)"
  using assms(1,3)
proof (induction v arbitrary: d r)
  case JNull
  then show ?case by (intro exI [of _ "Suc 0"]) (simp add: lit_def)
next
  case (JBool b)
  then show ?case by (intro exI [of _ "Suc 0"]) (simp add: lit_def)
next
  case (JInt i)
  then show ?case using scan_value_int [of d i r h] by (intro exI [of _ "Suc 0"]) (simp only: dump.simps)
next
  case (JFloat f)
  then show ?case by simp
next
  case (JStr s)
  then show ?case by (intro exI [of _ "Suc 0"]) (simp add: scan_enc)
next
  case (JList vs)
  show ?case
  proof (cases vs)
    case Nil
    with JList.prems show ?thesis
      by (intro exI [of _ "Suc 0"]) (simp add: skip_ws_stops)
  next
    case (Cons w ws)
    have "\<exists>f. scan_items h f (d - 1) [] (join [44] (map (dump enc) vs) @ 93 # r)
        = Inr (JList (rev [] @ vs), r)"
      by (rule scan_items_dump) (use JList Cons in auto)
    then obtain f where
      "scan_items h f (d - 1) [] (join [44] (map (dump enc) vs) @ 93 # r) = Inr (JList vs, r)"
      by auto
    moreover obtain c cs where "dump enc w = c # cs" "value_start c"
      using dump_start [of "d - 1" w enc] JList.prems Cons by auto
    then have "skip_ws (join [44] (map (dump enc) vs) @ 93 # r) = join [44] (map (dump enc) vs) @ 93 # r"
      "\<not> prefix [93] (join [44] (map (dump enc) vs) @ 93 # r)"
      using Cons value_start_plain [of c] by (cases ws; auto simp: skip_ws_def)+
    ultimately show ?thesis
      using JList.prems by (intro exI [of _ "Suc f"]) simp
  qed
next
  case (JDict kvs)
  let ?m = "\<lambda>(k, v). 34 # enc k @ [34, 58] @ dump enc v"
  show ?case
  proof (cases kvs)
    case Nil
    with JDict.prems assms(2) show ?thesis
      by (intro exI [of _ "Suc 0"]) (simp add: skip_ws_stops accepts_pairs_def)
  next
    case (Cons kw kws)
    have "\<exists>f. scan_members h f (d - 1) [] (join [44] (map ?m kvs) @ 125 # r) = Inr (JDict (rev [] @ kvs), r)"
    proof (rule scan_members_dump)
      show "\<exists>f. scan_value h f (d - 1) (dump enc v @ r) = Inr (v, r)"
        if "(k, v) \<in> set kvs" "stops r" for k v r
        using JDict.IH [of "(k, v)" v "d - 1" r] JDict.prems that by auto
    qed (use JDict.prems Cons assms(2) in auto)
    then obtain f where
      "scan_members h f (d - 1) [] (join [44] (map ?m kvs) @ 125 # r) = Inr (JDict kvs, r)" by auto
    moreover have "skip_ws (join [44] (map ?m kvs) @ 125 # r) = join [44] (map ?m kvs) @ 125 # r"
      "\<not> prefix [125] (join [44] (map ?m kvs) @ 125 # r)"
      using Cons by (cases kw; cases kws; auto simp: skip_ws_def json_ws_def)+
    ultimately show ?thesis
      using JDict.prems by (intro exI [of _ "Suc f"]) simp
  qed
qed

lemma loads_dump:
  assumes "json_ok limit v" and "accepts_pairs h"
  shows "loads h limit (dump enc v) = Inr v"
proof -
  let ?s = "dump enc v"
  obtain f where f: "scan_value h f limit ?s = Inr (v, [])"
    using scan_dump [OF assms, of "[]"] by auto
  have "scan_value h (2 * length ?s + 1) limit ?s = Inr (v, [])"
  proof (cases "f \<le> 2 * length ?s + 1")
    case True
    then show ?thesis by (rule scan_value_fuel [OF f])
  next
    case False
    have "scan_value h (2 * length ?s + 1) limit ?s \<noteq> Inl OutOfFuel"
      using scan_never_starves_all [of "2 * length ?s + 1" h] by simp
    then have "scan_value h f limit ?s = scan_value h (2 * length ?s + 1) limit ?s"
      using scan_value_stable [of h "2 * length ?s + 1" limit ?s f] False by simp
    with f show ?thesis by simp
  qed
  moreover have "skip_ws ?s = ?s" using skip_ws_dump [OF assms(1), of enc "[]"] by simp
  moreover have "\<not> prefix [65279] ?s"
    using dump_start [OF assms(1), of enc] value_start_plain by auto
  ultimately show ?thesis by (simp add: loads_def skip_ws_def)
qed

end

section \<open>The encoders\<close>

lemma hex_val_digit: "n < 16 \<Longrightarrow> hex_val (hex_digit n) = Some n"
  by (auto simp: hex_val_def hex_digit_def)

lemma hex4_u_escape:
  assumes "c < 65536"
  shows "hex4 (drop 2 (u_escape c) @ r) = Some c"
proof -
  have m: "c div 4096 mod 16 = c div 4096" using assms by simp
  have "((c div 4096 mod 16 * 16 + c div 256 mod 16) * 16 + c div 16 mod 16) * 16 + c mod 16 = c"
  proof -
    have "c div 4096 * 16 + c div 256 mod 16 = c div 256"
      using div_mult_mod_eq [of "c div 256" 16] by (simp flip: div_mult2_eq)
    moreover have "c div 256 * 16 + c div 16 mod 16 = c div 16"
      using div_mult_mod_eq [of "c div 16" 16] by (simp flip: div_mult2_eq)
    ultimately show ?thesis using div_mult_mod_eq [of c 16] m by simp
  qed
  moreover have "c div 4096 < 16" using assms by simp
  ultimately show ?thesis by (simp add: u_escape_def hex_val_digit m)
qed

lemma scan_string_u_escape:
  assumes "c < 55296"
  shows "scan_string (u_escape c @ s) = cons_dec c (scan_string s)"
proof -
  obtain w x y z where u: "u_escape c = [92, 117, w, x, y, z]" by (simp add: u_escape_def)
  have "hex4 ([w, x, y, z] @ s) = Some c"
    using hex4_u_escape [of c s] assms by (simp add: u)
  moreover have "low_half c s = None" using assms by (simp add: low_half_def high_surrogate_def)
  ultimately show ?thesis by (simp add: u scan_string.simps(2))
qed

lemma scan_string_esc_char: "scan_string (esc_char c @ s) = cons_dec c (scan_string s)"
proof (cases "c < 32 \<and> c \<notin> {8, 9, 10, 12, 13}")
  case True
  then have "esc_char c = u_escape c" by (auto simp: esc_char_def)
  with True show ?thesis by (simp add: scan_string_u_escape)
next
  case False
  then show ?thesis
    by (auto simp: esc_char_def scan_string.simps(2) simple_escape_def)
qed

text \<open>An encoder that works character by character is a codec if every piece scans back.\<close>

lemma charwise_codec:
  assumes "\<And>c s. scan_string (f c @ s) = cons_dec c (scan_string s)"
  shows "scan_string (concat (map f s) @ 34 # r) = Some (s, r)"
  by (induction s) (simp_all add: assms cons_dec_def scan_string.simps(2))

interpretation plain_codec: string_codec esc
  by unfold_locales (simp add: esc_def charwise_codec scan_string_esc_char)


end
