(* ===== verification/Protocol.thy ===== *)
theory Protocol
  imports Json
begin

text \<open>
  \<^verbatim>\<open>src/oveo/protocol.py\<close>: the typed NDJSON response protocol.  The first sections are the
  data types and validators, then comes \<^verbatim>\<open>ProtocolDecoder\<close> as a record with one function
  per method.  An exception is the \<open>Inl\<close> branch; the decoder object is discarded by every
  caller after an exception, so the failing branch carries no state.
\<close>

section \<open>Data types\<close>

datatype block_type = Conversation | Deliverable | Advice

record content_block =
  block_type :: block_type
  block_text :: pystr

datatype append_separator = SepNone | SepSpace | SepLine | SepParagraph

record docx_block_replacement =
  repl_id :: pystr
  repl_text :: pystr

datatype exact_replacement =
    SourceOutputReplacement
      (source_anchor: pystr) (source_replacement: pystr) (output_anchor: pystr) (output_replacement: pystr)
  | OutputReplacement (output_anchor: pystr) (output_replacement: pystr)

type_synonym brief = "(pystr \<times> json) list"

datatype state_operation =
    NoState
  | EstablishState (est_brief: brief) (est_source: "pystr option")
      (est_docx: "docx_block_replacement list option")
  | AppendState (app_base: int) (source_addition: pystr) (source_separator: append_separator)
      (output_separator: append_separator) (output_addition: "pystr option") (app_brief: "brief option")
  | ReplaceState (rep_base: int) (replacements: "exact_replacement list") (rep_brief: "brief option")
      (rep_docx: "docx_block_replacement list option")
  | FullState (full_base: int) (full_source: "pystr option") (full_brief: "brief option")
      (full_docx: "docx_block_replacement list option")

record protocol_document =
  doc_blocks :: "content_block list"
  doc_state :: state_operation

datatype protocol_event =
    ResponseStart
  | BlockStart pystr block_type
  | BlockDelta pystr block_type pystr
  | BlockEnd pystr
  | StateEvent state_operation
  | ResponseEnd

text \<open>The strings of the two closed enumerations.\<close>

fun type_name :: "block_type \<Rightarrow> pystr" where
  "type_name Conversation = lit ''conversation''"
| "type_name Deliverable = lit ''deliverable''"
| "type_name Advice = lit ''advice''"

definition block_type_of :: "pystr \<Rightarrow> block_type option" where
  "block_type_of s =
     (if s = lit ''conversation'' then Some Conversation
      else if s = lit ''deliverable'' then Some Deliverable
      else if s = lit ''advice'' then Some Advice
      else None)"

definition separator_of :: "pystr \<Rightarrow> append_separator option" where
  "separator_of s =
     (if s = lit ''none'' then Some SepNone
      else if s = lit ''space'' then Some SepSpace
      else if s = lit ''line'' then Some SepLine
      else if s = lit ''paragraph'' then Some SepParagraph
      else None)"

text \<open>\<^verbatim>\<open>ProtocolDocument.to_storage\<close>\<close>

definition to_storage :: "protocol_document \<Rightarrow> (pystr \<times> json) list" where
  "to_storage d =
     [(lit ''version'', JInt 1),
      (lit ''blocks'', JList (map (\<lambda>b. JDict [(lit ''type'', JStr (type_name (block_type b))),
                                              (lit ''text'', JStr (block_text b))]) (doc_blocks d)))]"

section \<open>Limits of one decoder\<close>

text \<open>The constructor's keyword arguments, and the interpreter's recursion allowances for
  reading and writing nested JSON, which bound how deep a line can nest.\<close>

record limits =
  max_line_bytes :: nat
  max_blocks :: nat
  max_text_chars :: nat
  max_state_text_chars :: nat
  max_brief_bytes :: nat
  max_replacements :: nat
  max_docx_blocks :: nat
  loads_limit :: nat
  dumps_limit :: nat

definition default_limits :: "nat \<Rightarrow> nat \<Rightarrow> limits" where
  "default_limits rl wl =
     \<lparr>max_line_bytes = 16777216, max_blocks = 16, max_text_chars = 2000000,
      max_state_text_chars = 4000000, max_brief_bytes = 65536, max_replacements = 64,
      max_docx_blocks = 10000, loads_limit = rl, dumps_limit = wl\<rparr>"

section \<open>Reading one line\<close>

text \<open>\<^verbatim>\<open>_object_without_duplicate_keys\<close> and \<^verbatim>\<open>_reject_constant\<close>\<close>

fun object_without_duplicate_keys ::
    "(pystr \<times> json) list \<Rightarrow> (pystr \<times> json) list \<Rightarrow> (pystr \<times> json) list res" where
  "object_without_duplicate_keys output [] = Inr output"
| "object_without_duplicate_keys output ((key, value) # pairs) =
     (if key \<in> fst ` set output then Inl ''duplicate_json_key''
      else object_without_duplicate_keys (output @ [(key, value)]) pairs)"

definition strict_hooks :: hooks where
  "strict_hooks =
     \<lparr>pairs_hook = (\<lambda>ps. bind_res (object_without_duplicate_keys [] ps) (\<lambda>d. Inr (JDict d))),
      const_hook = (\<lambda>_. Inl ''invalid_json_number'')\<rparr>"

text \<open>\<^verbatim>\<open>_load_object\<close>; the text \<^verbatim>\<open>\u\<close> is the code points 92 and 117.\<close>

definition load_object :: "limits \<Rightarrow> pystr \<Rightarrow> (pystr \<times> json) list res" where
  "load_object lm line =
     (case loads strict_hooks (loads_limit lm) line of
        Inl (Raised c) \<Rightarrow> Inl c
      | Inl _ \<Rightarrow> Inl ''invalid_json''
      | Inr value \<Rightarrow>
          (case value of
             JDict kvs \<Rightarrow>
               if contains line [92, 117] \<and> (has_surrogate value \<or> dumps_limit lm < json_depth value)
               then Inl ''invalid_unicode'' else Inr kvs
           | _ \<Rightarrow> Inl ''event_not_object''))"

definition get :: "(pystr \<times> json) list \<Rightarrow> string \<Rightarrow> json option" where
  "get kvs k = map_of kvs (lit k)"

definition require_exact_keys :: "(pystr \<times> json) list \<Rightarrow> string list \<Rightarrow> unit res" where
  "require_exact_keys event expected =
     require (fst ` set event = lit ` set expected) ''invalid_event_fields''"

definition require_keys :: "(pystr \<times> json) list \<Rightarrow> string list \<Rightarrow> string list \<Rightarrow> unit res" where
  "require_keys event required optional =
     require (lit ` set required \<subseteq> fst ` set event \<and>
              fst ` set event \<subseteq> lit ` set required \<union> lit ` set optional) ''invalid_event_fields''"

section \<open>Validators\<close>

definition validated_base_version :: "json option \<Rightarrow> int res" where
  "validated_base_version v =
     (case v of
        Some (JInt i) \<Rightarrow> if 1 \<le> i \<and> i \<le> 2147483647 then Inr i else Inl ''invalid_base_version''
      | _ \<Rightarrow> Inl ''invalid_base_version'')"

definition validated_text :: "bool \<Rightarrow> bool \<Rightarrow> json option \<Rightarrow> pystr res" where
  "validated_text allow_empty whole v =
     (case v of
        Some (JStr s) \<Rightarrow>
          if (\<not> allow_empty \<and> s = []) \<or> (whole \<and> blank s) then Inl ''invalid_state_text'' else Inr s
      | _ \<Rightarrow> Inl ''invalid_state_text'')"

text \<open>\<^verbatim>\<open>_validate_json_value\<close>: the shared counter \<^verbatim>\<open>nodes[0]\<close> is threaded through the walk.\<close>

fun validate_json_value :: "nat \<Rightarrow> nat \<Rightarrow> json \<Rightarrow> nat res"
  and validate_items :: "nat \<Rightarrow> nat \<Rightarrow> json list \<Rightarrow> nat res"
  and validate_members :: "nat \<Rightarrow> nat \<Rightarrow> (pystr \<times> json) list \<Rightarrow> nat res" where
  "validate_json_value depth nodes v =
     (if 12 < depth \<or> 4096 < nodes + 1 then Inl ''invalid_state_brief''
      else
        (case v of
           JFloat f \<Rightarrow> if is_finite f then Inr (nodes + 1) else Inl ''invalid_state_brief''
         | JList vs \<Rightarrow> validate_items (depth + 1) (nodes + 1) vs
         | JDict kvs \<Rightarrow> validate_members (depth + 1) (nodes + 1) kvs
         | _ \<Rightarrow> Inr (nodes + 1)))"
| "validate_items depth nodes [] = Inr nodes"
| "validate_items depth nodes (v # vs) =
     bind_res (validate_json_value depth nodes v) (\<lambda>n. validate_items depth n vs)"
| "validate_members depth nodes [] = Inr nodes"
| "validate_members depth nodes ((k, v) # kvs) =
     bind_res (validate_json_value depth nodes v) (\<lambda>n. validate_members depth n kvs)"

text \<open>What \<^verbatim>\<open>json.dumps(..., allow_nan=False)\<close> and the UTF-8 encoding refuse.\<close>

fun printable :: "json \<Rightarrow> bool" where
  "printable (JInt i) = (length (str_nat (nat \<bar>i\<bar>)) \<le> int_max_str_digits)"
| "printable (JFloat f) = is_finite f"
| "printable (JList vs) = (\<forall>v\<in>set vs. printable v)"
| "printable (JDict kvs) = (\<forall>kv\<in>set kvs. printable (snd kv))"
| "printable _ = True"

definition validated_brief :: "nat \<Rightarrow> json option \<Rightarrow> brief res" where
  "validated_brief max_bytes v =
     (case v of
        Some (JDict kvs) \<Rightarrow>
          if kvs = [] then Inl ''invalid_state_brief''
          else bind_res (validate_json_value 0 0 (JDict kvs)) (\<lambda>_.
            if \<not> printable (JDict kvs) \<or> has_surrogate (JDict kvs) then Inl ''invalid_state_brief''
            else if max_bytes < utf8_len (dump esc (JDict kvs)) then Inl ''state_brief_too_large''
            else Inr kvs)
      | _ \<Rightarrow> Inl ''invalid_state_brief'')"

section \<open>Visible blocks\<close>

datatype candidate = Block content_block | Mapping "(pystr \<times> json) list"

text \<open>Testing \<^verbatim>\<open>block_type not in _BLOCK_TYPES\<close> hashes the value first, so a list or an object
  as the type of a mapping raises \<^verbatim>\<open>TypeError\<close> before the string test.\<close>

definition candidate_block :: "candidate \<Rightarrow> content_block res" where
  "candidate_block c =
     (case c of
        Block b \<Rightarrow> Inr b
      | Mapping m \<Rightarrow>
          bind_res (require_exact_keys m [''type'', ''text'']) (\<lambda>_.
            case get m ''type'' of
              Some (JStr t) \<Rightarrow>
                (case block_type_of t of
                   None \<Rightarrow> Inl ''invalid_block_type''
                 | Some bt \<Rightarrow>
                     (case get m ''text'' of
                        Some (JStr s) \<Rightarrow>
                          if blank s then Inl ''empty_block''
                          else Inr \<lparr>block_type = bt, block_text = s\<rparr>
                      | _ \<Rightarrow> Inl ''empty_block''))
            | Some (JList _) \<Rightarrow> Inl ''TypeError''
            | Some (JDict _) \<Rightarrow> Inl ''TypeError''
            | _ \<Rightarrow> Inl ''invalid_block_type''))"

fun collect_blocks :: "nat \<Rightarrow> nat \<Rightarrow> candidate list \<Rightarrow> content_block list res" where
  "collect_blocks limit chars [] = Inr []"
| "collect_blocks limit chars (c # cs) =
     bind_res (candidate_block c) (\<lambda>b.
       if blank (block_text b) then Inl ''empty_block''
       else if limit < chars + length (block_text b) then Inl ''response_too_large''
       else bind_res (collect_blocks limit (chars + length (block_text b)) cs) (\<lambda>bs. Inr (b # bs)))"

fun block_order :: "bool \<Rightarrow> block_type list \<Rightarrow> bool" where
  "block_order advice_seen [] = True"
| "block_order advice_seen (t # ts) =
     (case t of
        Conversation \<Rightarrow> False
      | Advice \<Rightarrow> \<not> advice_seen \<and> block_order True ts
      | Deliverable \<Rightarrow> \<not> advice_seen \<and> block_order advice_seen ts)"

definition validate_content_blocks :: "nat \<Rightarrow> nat \<Rightarrow> candidate list \<Rightarrow> content_block list res" where
  "validate_content_blocks max_b max_chars cs =
     (if cs = [] \<or> max_b < length cs then Inl ''invalid_block_count''
      else bind_res (collect_blocks max_chars 0 cs) (\<lambda>bs.
        let types = map block_type bs in
        if types = [Conversation] then Inr bs
        else if hd types \<noteq> Deliverable then Inl ''invalid_block_order''
        else if \<not> block_order False types then Inl ''invalid_block_order''
        else Inr bs))"

definition validate_stored_document :: "(pystr \<times> json) list \<Rightarrow> protocol_document res" where
  "validate_stored_document value =
     bind_res (require_exact_keys value [''version'', ''blocks'']) (\<lambda>_.
       case get value ''version'' of
         Some v \<Rightarrow>
           if \<not> equals_one v then Inl ''unsupported_version''
           else
             (case get value ''blocks'' of
                Some (JList raw) \<Rightarrow>
                  bind_res (map_res (\<lambda>b. case b of JDict m \<Rightarrow> Inr (Mapping m) | _ \<Rightarrow> Inl ''invalid_blocks'') raw)
                    (\<lambda>ms. bind_res (validate_content_blocks 16 2000000 ms)
                       (\<lambda>bs. Inr \<lparr>doc_blocks = bs, doc_state = NoState\<rparr>))
              | _ \<Rightarrow> Inl ''invalid_blocks'')
       | None \<Rightarrow> Inl ''unsupported_version'')"

section \<open>State operations\<close>

definition optional :: "(pystr \<times> json) list \<Rightarrow> string \<Rightarrow> (json option \<Rightarrow> 'a res) \<Rightarrow> 'a option res" where
  "optional payload k parse =
     (if lit k \<in> fst ` set payload then bind_res (parse (get payload k)) (\<lambda>x. Inr (Some x))
      else Inr None)"

definition validate_state_size :: "limits \<Rightarrow> pystr list \<Rightarrow> unit res" where
  "validate_state_size lm values =
     require (sum_list (map length values) \<le> max_state_text_chars lm) ''state_too_large''"

definition docx_block_id :: "nat \<Rightarrow> pystr" where
  "docx_block_id n = lit ''p'' @ pad6 n"

fun docx_candidates :: "nat \<Rightarrow> json list \<Rightarrow> docx_block_replacement list res" where
  "docx_candidates index [] = Inr []"
| "docx_candidates index (c # cs) =
     (case c of
        JDict m \<Rightarrow>
          bind_res (require_exact_keys m [''id'', ''text'']) (\<lambda>_.
            case (get m ''id'', get m ''text'') of
              (Some (JStr i), Some (JStr t)) \<Rightarrow>
                if i = docx_block_id index then
                  bind_res (docx_candidates (index + 1) cs) (\<lambda>bs. Inr (\<lparr>repl_id = i, repl_text = t\<rparr> # bs))
                else Inl ''invalid_docx_blocks''
            | _ \<Rightarrow> Inl ''invalid_docx_blocks'')
      | _ \<Rightarrow> Inl ''invalid_docx_blocks'')"

definition validated_docx_blocks :: "limits \<Rightarrow> json option \<Rightarrow> docx_block_replacement list res" where
  "validated_docx_blocks lm v =
     (case v of
        Some (JList cs) \<Rightarrow>
          if cs = [] \<or> max_docx_blocks lm < length cs then Inl ''invalid_docx_blocks''
          else docx_candidates 1 cs
      | _ \<Rightarrow> Inl ''invalid_docx_blocks'')"

definition validated_append_separator :: "json option \<Rightarrow> append_separator res" where
  "validated_append_separator v =
     (case v of
        Some (JStr s) \<Rightarrow>
          (case separator_of s of Some x \<Rightarrow> Inr x | None \<Rightarrow> Inl ''invalid_append_separator'')
      | _ \<Rightarrow> Inl ''invalid_append_separator'')"

definition docx_texts :: "docx_block_replacement list option \<Rightarrow> pystr list" where
  "docx_texts d = (case d of None \<Rightarrow> [] | Some bs \<Rightarrow> map repl_text bs)"

definition given :: "'a option \<Rightarrow> 'a list" where
  "given x = (case x of None \<Rightarrow> [] | Some y \<Rightarrow> [y])"

definition decode_establish :: "limits \<Rightarrow> (pystr \<times> json) list \<Rightarrow> state_operation res" where
  "decode_establish lm payload =
     bind_res (require_keys payload [''v'', ''event'', ''operation'', ''brief''] [''source'', ''docx_blocks'']) (\<lambda>_.
     bind_res (optional payload ''source'' (validated_text False True)) (\<lambda>source.
     bind_res (validated_brief (max_brief_bytes lm) (get payload ''brief'')) (\<lambda>brief.
     bind_res (optional payload ''docx_blocks'' (validated_docx_blocks lm)) (\<lambda>docx.
     bind_res (validate_state_size lm (given source @ docx_texts docx)) (\<lambda>_.
       Inr (EstablishState brief source docx))))))"

definition decode_append :: "limits \<Rightarrow> (pystr \<times> json) list \<Rightarrow> state_operation res" where
  "decode_append lm payload =
     bind_res (require_keys payload
       [''v'', ''event'', ''operation'', ''base_version'', ''source_addition'', ''source_separator'',
        ''output_separator''] [''output_addition'', ''brief'']) (\<lambda>_.
     bind_res (validated_base_version (get payload ''base_version'')) (\<lambda>base.
     bind_res (validated_text False True (get payload ''source_addition'')) (\<lambda>src.
     bind_res (optional payload ''output_addition'' (validated_text False True)) (\<lambda>out.
     bind_res (validated_append_separator (get payload ''source_separator'')) (\<lambda>ssep.
     bind_res (validated_append_separator (get payload ''output_separator'')) (\<lambda>osep.
     bind_res (optional payload ''brief'' (validated_brief (max_brief_bytes lm))) (\<lambda>brief.
     bind_res (validate_state_size lm (src # given out)) (\<lambda>_.
       Inr (AppendState base src ssep osep out brief)))))))))"

definition output_keys :: "pystr set" where
  "output_keys = {lit ''output_anchor'', lit ''output_replacement''}"

definition paired_keys :: "pystr set" where
  "paired_keys = output_keys \<union> {lit ''source_anchor'', lit ''source_replacement''}"

text \<open>The loop over raw replacements; the sets of seen anchors are its accumulators, and the
  texts counted toward the state size are returned beside the replacements.\<close>

fun decode_replacements ::
    "pystr set \<Rightarrow> pystr set \<Rightarrow> json list \<Rightarrow> (exact_replacement list \<times> pystr list) res" where
  "decode_replacements seen_source seen_output [] = Inr ([], [])"
| "decode_replacements seen_source seen_output (raw # raws) =
     (case raw of
        JDict m \<Rightarrow>
          if fst ` set m \<noteq> output_keys \<and> fst ` set m \<noteq> paired_keys
          then Inl ''invalid_replacement_fields''
          else
            bind_res (validated_text False False (get m ''output_anchor'')) (\<lambda>oa.
            bind_res (validated_text True False (get m ''output_replacement'')) (\<lambda>orp.
              if oa \<in> seen_output then Inl ''duplicate_replacement_anchor''
              else if fst ` set m = output_keys then
                bind_res (decode_replacements seen_source (insert oa seen_output) raws) (\<lambda>rest.
                  Inr (OutputReplacement oa orp # fst rest, oa # orp # snd rest))
              else
                bind_res (validated_text False False (get m ''source_anchor'')) (\<lambda>sa.
                bind_res (validated_text True False (get m ''source_replacement'')) (\<lambda>sr.
                  if sa \<in> seen_source then Inl ''duplicate_replacement_anchor''
                  else
                    bind_res (decode_replacements (insert sa seen_source) (insert oa seen_output) raws)
                      (\<lambda>rest. Inr (SourceOutputReplacement sa sr oa orp # fst rest,
                                    oa # orp # sa # sr # snd rest))))))
      | _ \<Rightarrow> Inl ''invalid_replacement'')"

definition decode_replace :: "limits \<Rightarrow> (pystr \<times> json) list \<Rightarrow> state_operation res" where
  "decode_replace lm payload =
     bind_res (require_keys payload [''v'', ''event'', ''operation'', ''base_version'', ''replacements'']
       [''brief'', ''docx_blocks'']) (\<lambda>_.
     bind_res (validated_base_version (get payload ''base_version'')) (\<lambda>base.
       case get payload ''replacements'' of
         Some (JList raws) \<Rightarrow>
           if raws = [] \<or> max_replacements lm < length raws then Inl ''invalid_replacement_count''
           else
             bind_res (decode_replacements {} {} raws) (\<lambda>(rs, texts).
             bind_res (optional payload ''brief'' (validated_brief (max_brief_bytes lm))) (\<lambda>brief.
             bind_res (optional payload ''docx_blocks'' (validated_docx_blocks lm)) (\<lambda>docx.
             bind_res (validate_state_size lm (texts @ docx_texts docx)) (\<lambda>_.
               Inr (ReplaceState base rs brief docx)))))
       | _ \<Rightarrow> Inl ''invalid_replacement_count''))"

definition decode_full :: "limits \<Rightarrow> (pystr \<times> json) list \<Rightarrow> state_operation res" where
  "decode_full lm payload =
     bind_res (require_keys payload [''v'', ''event'', ''operation'', ''base_version'']
       [''source'', ''brief'', ''docx_blocks'']) (\<lambda>_.
     bind_res (validated_base_version (get payload ''base_version'')) (\<lambda>base.
     bind_res (optional payload ''source'' (validated_text False True)) (\<lambda>source.
     bind_res (optional payload ''brief'' (validated_brief (max_brief_bytes lm))) (\<lambda>brief.
     bind_res (optional payload ''docx_blocks'' (validated_docx_blocks lm)) (\<lambda>docx.
     bind_res (validate_state_size lm (given source @ docx_texts docx)) (\<lambda>_.
       Inr (FullState base source brief docx)))))))"

definition decode_state :: "limits \<Rightarrow> (pystr \<times> json) list \<Rightarrow> state_operation res" where
  "decode_state lm payload =
     (case get payload ''operation'' of
        Some (JStr op) \<Rightarrow>
          if op = lit ''none'' then
            bind_res (require_exact_keys payload [''v'', ''event'', ''operation'']) (\<lambda>_. Inr NoState)
          else if op = lit ''establish'' then decode_establish lm payload
          else if op = lit ''append'' then decode_append lm payload
          else if op = lit ''replace'' then decode_replace lm payload
          else if op = lit ''full'' then decode_full lm payload
          else Inl ''invalid_state_operation''
      | _ \<Rightarrow> Inl ''invalid_state_operation'')"

section \<open>The decoder\<close>

record decoder =
  lims :: limits
  utf8_buffer :: bytes
  pending :: "pystr list"
  pending_bytes :: nat
  started :: bool
  completed :: bool
  state_seen :: bool
  state :: "state_operation option"
  active_id :: "pystr option"
  active_type :: "block_type option"
  active_parts :: "pystr list"
  active_delta_count :: nat
  blocks :: "content_block list"
  total_chars :: nat

text \<open>\<^verbatim>\<open>ProtocolDecoder.__init__\<close>: every limit must be positive.\<close>

definition new_decoder :: "limits \<Rightarrow> decoder option" where
  "new_decoder lm =
     (if max_line_bytes lm < 1 \<or> max_blocks lm < 1 \<or> max_text_chars lm < 1
         \<or> max_state_text_chars lm < 1 \<or> max_brief_bytes lm < 1 \<or> max_replacements lm < 1
         \<or> max_docx_blocks lm < 1
      then None
      else Some \<lparr>lims = lm, utf8_buffer = [], pending = [], pending_bytes = 0, started = False,
             completed = False, state_seen = False, state = None, active_id = None,
             active_type = None, active_parts = [], active_delta_count = 0, blocks = [],
             total_chars = 0\<rparr>)"

definition expected_block_id :: "nat \<Rightarrow> pystr" where
  "expected_block_id n = lit ''b'' @ str_nat n"

text \<open>The regular expression \<^verbatim>\<open>b[1-9][0-9]*\Z\<close>\<close>

definition block_id_syntax :: "pystr \<Rightarrow> bool" where
  "block_id_syntax s \<longleftrightarrow>
     (\<exists>c d ds. s = c # d # ds \<and> [c] = lit ''b'' \<and> 49 \<le> d \<and> d \<le> 57 \<and> (\<forall>x\<in>set ds. ascii_digit x))"

definition visible_blocks :: "decoder \<Rightarrow> content_block list res" where
  "visible_blocks dec =
     validate_content_blocks (max_blocks (lims dec)) (max_text_chars (lims dec)) (map Block (blocks dec))"

definition on_response_start :: "decoder \<Rightarrow> (pystr \<times> json) list \<Rightarrow> (decoder \<times> protocol_event) res" where
  "on_response_start dec payload =
     bind_res (require_exact_keys payload [''v'', ''event'']) (\<lambda>_.
       if started dec then Inl ''duplicate_response_start''
       else Inr (dec\<lparr>started := True\<rparr>, ResponseStart))"

definition on_block_start :: "decoder \<Rightarrow> (pystr \<times> json) list \<Rightarrow> (decoder \<times> protocol_event) res" where
  "on_block_start dec payload =
     bind_res (require_exact_keys payload [''v'', ''event'', ''id'', ''type'']) (\<lambda>_.
       if active_id dec \<noteq> None then Inl ''interleaved_blocks''
       else if max_blocks (lims dec) \<le> length (blocks dec) then Inl ''invalid_block_count''
       else
         (case get payload ''id'' of
            Some (JStr i) \<Rightarrow>
              if \<not> block_id_syntax i \<or> i \<noteq> expected_block_id (length (blocks dec) + 1)
              then Inl ''invalid_block_id''
              else
                (case get payload ''type'' of
                   Some (JStr t) \<Rightarrow>
                     (case block_type_of t of
                        None \<Rightarrow> Inl ''invalid_block_type''
                      | Some bt \<Rightarrow>
                          Inr (dec\<lparr>active_id := Some i, active_type := Some bt, active_parts := [],
                                   active_delta_count := 0\<rparr>, BlockStart i bt))
                 | _ \<Rightarrow> Inl ''invalid_block_type'')
          | _ \<Rightarrow> Inl ''invalid_block_id''))"

definition on_block_delta :: "decoder \<Rightarrow> (pystr \<times> json) list \<Rightarrow> (decoder \<times> protocol_event) res" where
  "on_block_delta dec payload =
     bind_res (require_exact_keys payload [''v'', ''event'', ''id'', ''text'']) (\<lambda>_.
       case (active_id dec, active_type dec) of
         (Some i, Some bt) \<Rightarrow>
           if get payload ''id'' \<noteq> Some (JStr i) then Inl ''delta_without_active_block''
           else
             (case get payload ''text'' of
                Some (JStr t) \<Rightarrow>
                  if t = [] then Inl ''empty_delta''
                  else if max_text_chars (lims dec) < total_chars dec + length t
                  then Inl ''response_too_large''
                  else
                    Inr (dec\<lparr>total_chars := total_chars dec + length t,
                             active_parts := active_parts dec @ [t],
                             active_delta_count := active_delta_count dec + 1\<rparr>, BlockDelta i bt t)
              | _ \<Rightarrow> Inl ''empty_delta'')
       | _ \<Rightarrow> Inl ''delta_without_active_block'')"

definition on_block_end :: "decoder \<Rightarrow> (pystr \<times> json) list \<Rightarrow> (decoder \<times> protocol_event) res" where
  "on_block_end dec payload =
     bind_res (require_exact_keys payload [''v'', ''event'', ''id'']) (\<lambda>_.
       case active_id dec of
         None \<Rightarrow> Inl ''end_without_active_block''
       | Some i \<Rightarrow>
           if get payload ''id'' \<noteq> Some (JStr i) then Inl ''end_without_active_block''
           else
             (case active_type dec of
                None \<Rightarrow> Inl ''empty_block''
              | Some bt \<Rightarrow>
                  if active_delta_count dec = 0 \<or> blank (concat (active_parts dec))
                  then Inl ''empty_block''
                  else
                    Inr (dec\<lparr>blocks := blocks dec @
                               [\<lparr>block_type = bt, block_text = concat (active_parts dec)\<rparr>],
                             active_id := None, active_type := None, active_parts := [],
                             active_delta_count := 0\<rparr>, BlockEnd i)))"

definition on_state :: "decoder \<Rightarrow> (pystr \<times> json) list \<Rightarrow> (decoder \<times> protocol_event) res" where
  "on_state dec payload =
     (if active_id dec \<noteq> None then Inl ''state_with_open_block''
      else
        bind_res (visible_blocks dec) (\<lambda>bs.
        bind_res (decode_state (lims dec) payload) (\<lambda>st.
          if block_type (hd bs) = Conversation \<and> st \<noteq> NoState
          then Inl ''invalid_state_for_conversation''
          else Inr (dec\<lparr>state := Some st, state_seen := True\<rparr>, StateEvent st))))"

definition on_response_end :: "decoder \<Rightarrow> (pystr \<times> json) list \<Rightarrow> (decoder \<times> protocol_event) res" where
  "on_response_end dec payload =
     bind_res (require_exact_keys payload [''v'', ''event'']) (\<lambda>_.
       if active_id dec \<noteq> None then Inl ''response_ended_with_open_block''
       else if \<not> state_seen dec then Inl ''missing_state''
       else bind_res (visible_blocks dec) (\<lambda>_. Inr (dec\<lparr>completed := True\<rparr>, ResponseEnd)))"

definition dispatch :: "decoder \<Rightarrow> pystr \<Rightarrow> (pystr \<times> json) list \<Rightarrow> (decoder \<times> protocol_event) res" where
  "dispatch dec event_name payload =
     (if state_seen dec \<and> event_name \<noteq> lit ''response_end'' then
        (if event_name = lit ''state'' then Inl ''duplicate_state'' else Inl ''event_after_state'')
      else if event_name = lit ''response_start'' then on_response_start dec payload
      else if \<not> started dec then Inl ''missing_response_start''
      else if event_name = lit ''block_start'' then on_block_start dec payload
      else if event_name = lit ''block_delta'' then on_block_delta dec payload
      else if event_name = lit ''block_end'' then on_block_end dec payload
      else if event_name = lit ''state'' then on_state dec payload
      else if event_name = lit ''response_end'' then on_response_end dec payload
      else Inl ''unknown_event'')"

definition consume_line :: "decoder \<Rightarrow> pystr \<Rightarrow> (decoder \<times> protocol_event) res" where
  "consume_line dec line =
     (if line = [] then Inl ''blank_line''
      else if max_line_bytes (lims dec) < utf8_len line then Inl ''event_too_large''
      else if completed dec then Inl ''data_after_response_end''
      else
        bind_res (load_object (lims dec) line) (\<lambda>payload.
          case get payload ''v'' of
            None \<Rightarrow> Inl ''unsupported_version''
          | Some v \<Rightarrow>
              if \<not> equals_one v then Inl ''unsupported_version''
              else
                (case get payload ''event'' of
                   Some (JStr event_name) \<Rightarrow> dispatch dec event_name payload
                 | _ \<Rightarrow> Inl ''invalid_event'')))"

text \<open>\<^verbatim>\<open>_take_pending\<close>: the pieces of the unfinished line, and the decoder without them.\<close>

definition take_pending :: "decoder \<Rightarrow> pystr \<times> decoder" where
  "take_pending dec = (concat (pending dec), dec\<lparr>pending := [], pending_bytes := 0\<rparr>)"

function drain_complete_lines :: "decoder \<Rightarrow> pystr \<Rightarrow> (decoder \<times> protocol_event list) res" where
  "drain_complete_lines dec text =
     (if 10 \<in> set text then
        (case take_pending (dec\<lparr>pending := pending dec @ [takeWhile (\<lambda>c. c \<noteq> 10) text]\<rparr>) of
           (line, dec') \<Rightarrow>
             bind_res (consume_line dec' (removesuffix1 13 line)) (\<lambda>(dec'', ev).
             bind_res (drain_complete_lines dec'' (tl (dropWhile (\<lambda>c. c \<noteq> 10) text))) (\<lambda>(dec3, evs).
               Inr (dec3, ev # evs))))
      else if text \<noteq> [] then
        let dec' = dec\<lparr>pending := pending dec @ [text],
                       pending_bytes := pending_bytes dec + utf8_len text\<rparr>
        in if max_line_bytes (lims dec) < pending_bytes dec' then Inl ''event_too_large''
           else Inr (dec', [])
      else Inr (dec, []))"
  by pat_completeness auto
termination
proof (relation "measure (\<lambda>(dec, text). length text)", goal_cases)
  case (2 dec s)
  then have "dropWhile (\<lambda>c. c \<noteq> 10) s \<noteq> []" by (simp add: dropWhile_eq_Nil_conv)
  moreover have "length (dropWhile (\<lambda>c. c \<noteq> 10) s) \<le> length s"
    by (rule length_dropWhile_le)
  ultimately show ?case
    by (cases "dropWhile (\<lambda>c. c \<noteq> 10) s") auto
qed simp

declare drain_complete_lines.simps [simp del]

definition feed :: "decoder \<Rightarrow> bytes \<Rightarrow> (decoder \<times> protocol_event list) res" where
  "feed dec chunk =
     (if completed dec \<and> chunk \<noteq> [] then Inl ''data_after_response_end''
      else
        (case utf8_feed (utf8_buffer dec) chunk of
           None \<Rightarrow> Inl ''invalid_utf8''
         | Some (text, buf) \<Rightarrow> drain_complete_lines (dec\<lparr>utf8_buffer := buf\<rparr>) text))"

definition finish :: "decoder \<Rightarrow> protocol_document res" where
  "finish dec =
     (if utf8_buffer dec \<noteq> [] then Inl ''invalid_utf8''
      else
        bind_res
          (if pending dec \<noteq> [] then
             (case take_pending dec of
                (line, dec') \<Rightarrow>
                  bind_res (consume_line dec' (removesuffix1 13 line)) (\<lambda>(dec'', _). Inr dec''))
           else Inr dec)
          (\<lambda>d. if \<not> completed d then Inl ''incomplete_response''
               else
                 (case state d of
                    None \<Rightarrow> Inl ''missing_state''
                  | Some st \<Rightarrow>
                      bind_res (visible_blocks d) (\<lambda>bs. Inr \<lparr>doc_blocks = bs, doc_state = st\<rparr>))))"

text \<open>A whole response: the chunks in order, then \<^verbatim>\<open>finish\<close>.\<close>

fun feed_all :: "decoder \<Rightarrow> bytes list \<Rightarrow> (decoder \<times> protocol_event list) res" where
  "feed_all dec [] = Inr (dec, [])"
| "feed_all dec (c # cs) =
     bind_res (feed dec c) (\<lambda>(dec', evs).
     bind_res (feed_all dec' cs) (\<lambda>(dec'', evs'). Inr (dec'', evs @ evs')))"

definition decode_response :: "limits \<Rightarrow> bytes list \<Rightarrow> protocol_document res" where
  "decode_response lm chunks =
     (case new_decoder lm of
        None \<Rightarrow> Inl ''ValueError''
      | Some dec \<Rightarrow> bind_res (feed_all dec chunks) (\<lambda>(dec', _). finish dec'))"

end
