(* ===== verification/Provider_Data.thy ===== *)
theory Provider_Data
  imports Protocol
begin

text \<open>
  The values of the provider client (\<^verbatim>\<open>src/oveo/provider.py\<close>): numbers in text, charges, usage,
  errors and surrogate halves.  Python's \<^verbatim>\<open>Decimal\<close> and \<^verbatim>\<open>float\<close> are written out as the
  module calls them: a decimal is exact (its exponent is kept within the C library's limits), its
  products are rounded to the 28 digits of the default context.
\<close>

section \<open>Numbers in text\<close>

text \<open>The digit zero of every decimal digit script, and the further characters for which
  \<^verbatim>\<open>str.isdigit\<close> is true although \<^verbatim>\<open>int\<close> refuses them.\<close>

definition decimal_zeros :: "nat list" where
  "decimal_zeros =
     [48, 1632, 1776, 1984, 2406, 2534, 2662, 2790, 2918, 3046, 3174, 3302, 3430, 3558, 3664,
      3792, 3872, 4160, 4240, 6112, 6160, 6470, 6608, 6784, 6800, 6992, 7088, 7232, 7248, 42528,
      43216, 43264, 43472, 43504, 43600, 44016, 65296, 66720, 68912, 69734, 69872, 69942, 70096,
      70384, 70736, 70864, 71248, 71360, 71472, 71904, 72016, 72784, 73040, 73120, 73552, 92768,
      92864, 93008, 120782, 120792, 120802, 120812, 120822, 123200, 123632, 124144, 125264, 130032]"

definition other_digits :: "(nat \<times> nat) list" where
  "other_digits =
     [(178, 179), (185, 185), (4969, 4977), (6618, 6618), (8304, 8304), (8308, 8313),
      (8320, 8329), (9312, 9320), (9332, 9340), (9352, 9360), (9450, 9450), (9461, 9469),
      (9471, 9471), (10102, 10110), (10112, 10120), (10122, 10130), (68160, 68163),
      (69216, 69224), (69714, 69722), (127232, 127242)]"

definition digit_value :: "nat \<Rightarrow> nat option" where
  "digit_value c = map_option (\<lambda>z. c - z) (find (\<lambda>z. z \<le> c \<and> c \<le> z + 9) decimal_zeros)"

definition py_isdigit :: "pystr \<Rightarrow> bool" where
  "py_isdigit s \<longleftrightarrow> s \<noteq> [] \<and>
     list_all (\<lambda>c. digit_value c \<noteq> None \<or> list_ex (\<lambda>(a, b). a \<le> c \<and> c \<le> b) other_digits) s"

definition ascii_digits :: "pystr \<Rightarrow> pystr" where
  "ascii_digits s = map (\<lambda>c. case digit_value c of Some d \<Rightarrow> 48 + d | None \<Rightarrow> c) s"

definition ascii_lower :: "pystr \<Rightarrow> pystr" where
  "ascii_lower s = map (\<lambda>c. if 65 \<le> c \<and> c \<le> 90 then c + 32 else c) s"

definition split_sign :: "pystr \<Rightarrow> bool \<times> pystr" where
  "split_sign s =
     (if prefix [45] s then (True, drop 1 s) else if prefix [43] s then (False, drop 1 s)
      else (False, s))"

text \<open>Digits, an optional point with digits, an optional exponent: the integer digits, the
  fraction digits and the exponent.\<close>

definition read_number :: "pystr \<Rightarrow> (nat list \<times> nat list \<times> int) option" where
  "read_number s =
     (let (is, r) = digit_run s;
          (fs, r1) = (if prefix [46] r then digit_run (drop 1 r) else ([], r));
          (ex, r2) = scan_exponent r1
      in if (is = [] \<and> fs = []) \<or> r2 \<noteq> [] then None
         else Some (is, fs, case ex of None \<Rightarrow> 0 | Some e \<Rightarrow> e))"

text \<open>\<^verbatim>\<open>int(code)\<close> for a text of digits; more than the interpreter's limit raises.\<close>

definition int_of_digits :: "pystr \<Rightarrow> int option" where
  "int_of_digits s =
     (if list_all (\<lambda>c. digit_value c \<noteq> None) s \<and> length s \<le> int_max_str_digits then
        Some (int (of_digits (fst (digit_run (ascii_digits s)))))
      else None)"

text \<open>\<^verbatim>\<open>decimal.Decimal(text)\<close>: exact, within the exponent limits of the C library.\<close>

datatype decimal = DecNum rat | DecInf bool | DecNaN

definition decimal_of :: "pystr \<Rightarrow> decimal option" where
  "decimal_of s =
     (let (neg, r) = split_sign (filter (\<lambda>c. c \<noteq> 95) (ascii_digits (strip s)));
          l = ascii_lower r
      in if l = lit ''inf'' \<or> l = lit ''infinity'' then Some (DecInf neg)
         else if prefix (lit ''nan'') l \<and> list_all ascii_digit (drop 3 l) then Some DecNaN
         else if prefix (lit ''snan'') l \<and> list_all ascii_digit (drop 4 l) then Some DecNaN
         else (case read_number r of
            None \<Rightarrow> None
          | Some (is, fs, ex) \<Rightarrow>
              let c = of_digits (is @ fs); e = ex - int (length fs)
              in if 999999999999999999 < e + int (length (digits_of c)) - 1
                    \<or> e < - 1999999999999999997 then None
                 else Some (DecNum ((if neg then - 1 else 1) * of_nat c * power_int_rat 10 e))))"

text \<open>\<^verbatim>\<open>float(text)\<close>: underscores only between digits, then the nearest double.\<close>

fun drop_underscores :: "nat \<Rightarrow> pystr \<Rightarrow> pystr option" where
  "drop_underscores p [] = Some []"
| "drop_underscores p (c # s) =
     (if c = 95 then
        (if ascii_digit p \<and> s \<noteq> [] \<and> ascii_digit (hd s) then drop_underscores c s else None)
      else map_option ((#) c) (drop_underscores c s))"

definition float_of :: "pystr \<Rightarrow> pyfloat option" where
  "float_of s =
     (case drop_underscores 0 (ascii_digits (strip s)) of
        None \<Rightarrow> None
      | Some t \<Rightarrow>
          let (neg, r) = split_sign t; l = ascii_lower r
          in if l = lit ''inf'' \<or> l = lit ''infinity'' then Some (Infinite neg)
             else if l = lit ''nan'' then Some NaN
             else (case read_number r of
                None \<Rightarrow> None
              | Some (is, fs, ex) \<Rightarrow>
                  Some (to_double neg (of_nat (of_digits (is @ fs)) *
                    power_int_rat 10 (ex - int (length fs))))))"

section \<open>Charges and usage\<close>

record provider_usage =
  input_tokens :: "int option"
  output_tokens :: "int option"
  total_tokens :: "int option"
  cost_usd :: "rat option"
  cost_microusd :: "int option"
  reasoning_tokens :: "int option"

definition safe_string :: "json \<Rightarrow> pystr option" where
  "safe_string v = (case v of JStr s \<Rightarrow> if s = [] then None else Some s | _ \<Rightarrow> None)"

definition nonnegative_int :: "json \<Rightarrow> int option" where
  "nonnegative_int v = (case v of JInt i \<Rightarrow> if i < 0 then None else Some i | _ \<Rightarrow> None)"

text \<open>\<^verbatim>\<open>str(value)\<close> for the values \<open>cost\<close> accepts; a huge integer cannot be printed.\<close>

fun float_str :: "pyfloat \<Rightarrow> pystr" where
  "float_str NaN = lit ''nan''"
| "float_str (Infinite neg) = (if neg then lit ''-inf'' else lit ''inf'')"
| "float_str (Finite neg q) = (if neg then [45] else []) @ float_magnitude q"

fun number_text :: "json \<Rightarrow> pystr option" where
  "number_text (JStr s) = Some s"
| "number_text (JInt i) =
     (if int_max_str_digits < length (digits_of (nat \<bar>i\<bar>)) then None else Some (str_int i))"
| "number_text (JFloat f) = Some (float_str f)"
| "number_text _ = None"

definition max_cost_usd :: rat where
  "max_cost_usd = 1000000"

text \<open>The default decimal context rounds a product to 28 significant digits, half to even;
  \<open>microusd\<close> then rounds to an integer, half up.\<close>

definition context_round :: "rat \<Rightarrow> rat" where
  "context_round q =
     (if q = 0 then 0
      else let k = ilog10 q - 27 in of_int (half_even (q / power_int_rat 10 k)) * power_int_rat 10 k)"

definition microusd :: "rat \<Rightarrow> int" where
  "microusd dollars = \<lfloor>context_round (dollars * 1000000) + 1 / 2\<rfloor>"

definition cost :: "json \<Rightarrow> rat option \<times> int option" where
  "cost v =
     (case number_text v of
        None \<Rightarrow> (None, None)
      | Some t \<Rightarrow>
          (case decimal_of t of
             Some (DecNum dollars) \<Rightarrow>
               if dollars < 0 \<or> max_cost_usd < dollars then (None, None)
               else (Some dollars, Some (microusd dollars))
           | _ \<Rightarrow> (None, None)))"

text \<open>\<^verbatim>\<open>mapping.get(key)\<close>: an absent key and \<^verbatim>\<open>null\<close> are both \<open>JNull\<close>.\<close>

definition payload_field :: "(pystr \<times> json) list \<Rightarrow> string \<Rightarrow> json" where
  "payload_field kvs k = (case get kvs k of None \<Rightarrow> JNull | Some v \<Rightarrow> v)"

definition parse_usage :: "json \<Rightarrow> provider_usage option" where
  "parse_usage v =
     (case v of
        JDict kvs \<Rightarrow>
          let (usd, micro) = cost (payload_field kvs ''cost'');
              u = \<lparr>input_tokens = nonnegative_int (payload_field kvs ''prompt_tokens''),
                   output_tokens = nonnegative_int (payload_field kvs ''completion_tokens''),
                   total_tokens = nonnegative_int (payload_field kvs ''total_tokens''),
                   cost_usd = usd, cost_microusd = micro,
                   reasoning_tokens =
                     (case payload_field kvs ''completion_tokens_details'' of
                        JDict details \<Rightarrow> nonnegative_int (payload_field details ''reasoning_tokens'')
                      | _ \<Rightarrow> None)\<rparr>
          in if input_tokens u = None \<and> output_tokens u = None \<and> total_tokens u = None
                \<and> cost_usd u = None then None
             else Some u
      | _ \<Rightarrow> None)"

section \<open>Errors\<close>

record provider_error =
  pe_code :: code
  pe_retryable :: bool
  pe_status :: "int option"
  pe_partial :: bool
  pe_request :: "pystr option"
  pe_generation :: "pystr option"
  pe_provider :: "pystr option"
  pe_usage :: "provider_usage option"
  pe_retry_after :: "pyfloat option"

text \<open>What the transport raises, and any other exception (a cancellation, an error of the
  caller's callback), which nothing here handles.\<close>

datatype transport = TimedOut | Misconfigured | RequestFailed | Interrupted code

datatype failure = ProviderFailure provider_error | Transport transport

definition plain_error :: "code \<Rightarrow> bool \<Rightarrow> provider_error" where
  "plain_error c retryable =
     \<lparr>pe_code = c, pe_retryable = retryable, pe_status = None, pe_partial = False,
      pe_request = None, pe_generation = None, pe_provider = None, pe_usage = None,
      pe_retry_after = None\<rparr>"

text \<open>\<^verbatim>\<open>_error_code\<close> and \<^verbatim>\<open>_is_transient_code\<close>.  The membership test hashes the code, so an
  array or an object raises \<^verbatim>\<open>TypeError\<close>; a digit string that \<^verbatim>\<open>int\<close> refuses raises
  \<^verbatim>\<open>ValueError\<close>.\<close>

definition error_code :: "json \<Rightarrow> json" where
  "error_code v = (case v of JDict kvs \<Rightarrow> payload_field kvs ''code'' | _ \<Rightarrow> JNull)"

definition transient_status :: "int \<Rightarrow> bool" where
  "transient_status i \<longleftrightarrow> i \<in> {408, 409, 425, 429} \<or> 500 \<le> i"

definition transient_names :: "pystr list" where
  "transient_names = map lit [''request_timeout'', ''rate_limit_exceeded'', ''server_error'',
     ''provider_unavailable'', ''overloaded_error'']"

fun is_transient_code :: "json \<Rightarrow> failure + bool" where
  "is_transient_code (JStr s) =
     (if py_isdigit s then
        (case int_of_digits s of
           None \<Rightarrow> Inl (Transport (Interrupted ''ValueError''))
         | Some i \<Rightarrow> Inr (transient_status i))
      else Inr (s \<in> set transient_names))"
| "is_transient_code (JInt i) = Inr (transient_status i)"
| "is_transient_code (JList _) = Inl (Transport (Interrupted ''TypeError''))"
| "is_transient_code (JDict _) = Inl (Transport (Interrupted ''TypeError''))"
| "is_transient_code _ = Inr False"

text \<open>\<^verbatim>\<open>_retry_after_seconds\<close>: a finite, non-negative number of seconds.\<close>

definition retry_after_seconds :: "pystr option \<Rightarrow> pyfloat option" where
  "retry_after_seconds v =
     (case v of
        None \<Rightarrow> None
      | Some s \<Rightarrow>
          (case float_of (strip s) of
             Some (Finite neg q) \<Rightarrow> if neg \<and> q \<noteq> 0 then None else Some (Finite neg q)
           | _ \<Rightarrow> None))"

definition http_error :: "int \<Rightarrow> pystr option \<Rightarrow> pystr option \<Rightarrow> provider_error" where
  "http_error status request retry_after =
     (let retryable = transient_status status in
      plain_error (if retryable then ''provider_transient'' else ''provider_rejected'') retryable
        \<lparr>pe_status := Some status, pe_request := request,
         pe_retry_after := (if retryable then retry_after_seconds retry_after else None)\<rparr>)"

section \<open>Surrogate halves\<close>

definition split_trailing_surrogate :: "pystr \<Rightarrow> pystr \<times> pystr" where
  "split_trailing_surrogate s =
     (if s \<noteq> [] \<and> high_surrogate (last s) then (butlast s, [last s]) else (s, []))"

text \<open>A UTF-16 round trip: pairs are joined, a lone half is an error.\<close>

fun join_pairs :: "pystr \<Rightarrow> pystr option" where
  "join_pairs [] = Some []"
| "join_pairs (c # s) =
     (if high_surrogate c then
        (case s of
           [] \<Rightarrow> None
         | l # r \<Rightarrow>
             if low_surrogate l then map_option ((#) (join_surrogates c l)) (join_pairs r) else None)
      else if low_surrogate c then None
      else map_option ((#) c) (join_pairs s))"

definition joined_surrogates :: "pystr \<Rightarrow> failure + pystr" where
  "joined_surrogates s =
     (if \<not> list_ex surrogate s then Inr s
      else
        (case join_pairs s of
           Some t \<Rightarrow> Inr t
         | None \<Rightarrow> Inl (ProviderFailure (plain_error ''provider_malformed_stream'' False))))"

end
