(* ===== verification/Provider_Client.thy ===== *)
theory Provider_Client
  imports Provider_Data
begin

text \<open>
  The provider client (\<^verbatim>\<open>src/oveo/provider.py\<close>): the lines of a server-sent event stream, the token
  estimate and its cache, the request, one streaming attempt, the retries and the charge asked for
  later.  The HTTP client's answers are the data of an \<open>exchange\<close>; the caller's callbacks, the
  digest and the tokenizer are parameters.
\<close>

section \<open>Server-sent event lines\<close>

text \<open>\<^verbatim>\<open>_SSE_LINE_BREAK.split\<close>: all pieces between CRLF, CR and LF, the unterminated last one
  included.\<close>

fun break_lines :: "pystr \<Rightarrow> pystr list" where
  "break_lines [] = [[]]"
| "break_lines (c # s) =
     (if c = 13 \<and> prefix [10] s then [] # break_lines (drop 1 s)
      else if c = 13 \<or> c = 10 then [] # break_lines s
      else (c # hd (break_lines s)) # tl (break_lines s))"

definition ends_cr :: "pystr \<Rightarrow> bool" where
  "ends_cr s \<longleftrightarrow> s \<noteq> [] \<and> last s = 13"

text \<open>One turn of the loop of \<^verbatim>\<open>_sse_lines\<close>: the lines it yields and the new tail.\<close>

definition sse_feed :: "pystr \<Rightarrow> pystr \<Rightarrow> pystr list \<times> pystr" where
  "sse_feed tail chunk =
     (if chunk = [] then ([], tail)
      else
        let s = tail @ chunk;
            held = (if ends_cr s then [13] else []);
            lines = break_lines (take (length s - length held) s)
        in (butlast lines, last lines @ held))"

text \<open>What the loop leaves to yield when the chunks are used up.\<close>

definition sse_end :: "pystr \<Rightarrow> pystr list" where
  "sse_end tail = (if ends_cr tail then [butlast tail] else [])"

fun sse_lines_from :: "pystr \<Rightarrow> pystr list \<Rightarrow> pystr list" where
  "sse_lines_from tail [] = sse_end tail"
| "sse_lines_from tail (chunk # chunks) =
     (case sse_feed tail chunk of (ls, tail') \<Rightarrow> ls @ sse_lines_from tail' chunks)"

definition sse_lines :: "pystr list \<Rightarrow> pystr list" where
  "sse_lines chunks = sse_lines_from [] chunks"

text \<open>The lines of a whole stream: every piece that a line break ends.\<close>

definition stream_lines :: "pystr \<Rightarrow> pystr list" where
  "stream_lines s = butlast (break_lines s)"

lemma break_lines_nonempty [simp]: "break_lines s \<noteq> []"
  by (cases s) auto

lemma break_lines_free:
  "l \<in> set (break_lines s) \<Longrightarrow> 13 \<notin> set l \<and> 10 \<notin> set l"
proof (induction s arbitrary: l rule: break_lines.induct)
  case 1
  then show ?case by simp
next
  case (2 c s)
  have "hd (break_lines s) \<in> set (break_lines s)" by simp
  moreover have "set (tl (break_lines s)) \<subseteq> set (break_lines s)"
    by (meson list.set_sel(2) subsetI break_lines_nonempty)
  ultimately show ?case using 2 by (auto split: if_splits)
qed

lemma break_lines_plain: "13 \<notin> set s \<Longrightarrow> 10 \<notin> set s \<Longrightarrow> break_lines s = [s]"
  by (induction s) auto

text \<open>Splitting resumes at the last piece, unless the cut falls after a CR.\<close>

lemma break_lines_append:
  assumes "\<not> (ends_cr a \<and> prefix [10] b)"
  shows "break_lines (a @ b) = butlast (break_lines a) @ break_lines (last (break_lines a) @ b)"
  using assms
proof (induction a rule: break_lines.induct)
  case 1
  then show ?case by simp
next
  case (2 c s)
  have e: "\<not> (ends_cr s \<and> prefix [10] b)"
    using "2.prems" by (auto simp: ends_cr_def split: if_splits)
  consider (crlf) "c = 13" "prefix [10] s" | (cr) "c = 13" "\<not> prefix [10] s" | (lf) "c = 10"
    | (char) "c \<noteq> 13" "c \<noteq> 10" by blast
  then show ?case
  proof cases
    case crlf
    then obtain t where t: "s = 10 # t" by (auto simp: prefix_def)
    with e have "\<not> (ends_cr (drop 1 s) \<and> prefix [10] b)" by (auto simp: ends_cr_def)
    from "2.IH"(1) [OF _ this] crlf t show ?thesis by simp
  next
    case cr
    with "2.prems" have "\<not> prefix [10] (s @ b)" by (cases s) (auto simp: ends_cr_def)
    with "2.IH"(2) [OF _ _ e] cr show ?thesis by simp
  next
    case lf
    with "2.IH"(2) [OF _ _ e] show ?thesis by simp
  next
    case char
    with "2.IH"(3) [OF _ _ e]
    have IH: "break_lines (s @ b) = butlast (break_lines s) @ break_lines (last (break_lines s) @ b)"
      by simp
    obtain x xs where L: "break_lines s = x # xs" by (cases "break_lines s") simp_all
    with IH char show ?thesis by (cases xs) simp_all
  qed
qed

lemma ends_cr_snoc [simp]: "ends_cr (s @ [c]) \<longleftrightarrow> c = 13"
  by (simp add: ends_cr_def)

lemma break_lines_cr: "13 \<notin> set s \<Longrightarrow> 10 \<notin> set s \<Longrightarrow> break_lines (s @ [13]) = [s, []]"
  by (induction s) auto

lemma break_lines_lf: "13 \<notin> set s \<Longrightarrow> 10 \<notin> set s \<Longrightarrow> break_lines (s @ [10]) = [s, []]"
  by (induction s) auto

text \<open>What is known of the tail between two chunks.\<close>

definition tail_ok :: "pystr \<Rightarrow> bool" where
  "tail_ok t \<longleftrightarrow> (\<exists>l held. t = l @ held \<and> 13 \<notin> set l \<and> 10 \<notin> set l \<and> (held = [] \<or> held = [13]))"

lemma sse_feed_spec:
  assumes "tail_ok tail" "sse_feed tail chunk = (ls, tail')"
  shows "tail_ok tail' \<and> break_lines (tail @ chunk @ rest) = ls @ break_lines (tail' @ rest)"
proof (cases "chunk = []")
  case True
  with assms show ?thesis by (simp add: sse_feed_def)
next
  case False
  define s where "s = tail @ chunk"
  define held where "held = (if ends_cr s then [13] else [] :: pystr)"
  define body where "body = take (length s - length held) s"
  have s: "s = body @ held"
  proof (cases "ends_cr s")
    case True
    then have "s = butlast s @ [13]" by (metis append_butlast_last_id ends_cr_def)
    with True show ?thesis by (simp add: body_def held_def butlast_conv_take)
  qed (simp add: body_def held_def)
  have out: "ls = butlast (break_lines body)" "tail' = last (break_lines body) @ held"
    using assms(2) False by (auto simp: sse_feed_def Let_def s_def held_def body_def)
  have "last (break_lines body) \<in> set (break_lines body)" by simp
  from break_lines_free [OF this] have "tail_ok tail'"
    unfolding tail_ok_def out held_def by (intro exI conjI) auto
  moreover have "\<not> (ends_cr body \<and> prefix [10] (held @ rest))"
    using s by (auto simp: held_def)
  then have "break_lines (s @ rest) = ls @ break_lines (tail' @ rest)"
    using break_lines_append [of body "held @ rest"] by (simp add: s out)
  ultimately show ?thesis by (simp add: s_def)
qed


lemma not_ends_cr: "13 \<notin> set s \<Longrightarrow> \<not> ends_cr s"
  by (metis ends_cr_def last_in_set)

lemma sse_end_spec: "tail_ok tail \<Longrightarrow> sse_end tail = butlast (break_lines tail)"
  by (auto simp: tail_ok_def sse_end_def break_lines_plain break_lines_cr dest: not_ends_cr)

lemma sse_lines_from_spec:
  "tail_ok tail \<Longrightarrow> sse_lines_from tail chunks = butlast (break_lines (tail @ concat chunks))"
proof (induction chunks arbitrary: tail)
  case Nil
  then show ?case by (simp add: sse_end_spec)
next
  case (Cons chunk chunks)
  obtain ls tail' where f: "sse_feed tail chunk = (ls, tail')" by fastforce
  with sse_feed_spec [OF Cons.prems f, of "concat chunks"] Cons.IH [of tail'] show ?case
    by (simp add: butlast_append)
qed


section \<open>Token estimates\<close>

record provider_message =
  pm_role :: pystr
  pm_content :: pystr

text \<open>\<^verbatim>\<open>_token_cache\<close>, oldest entry first.  \<open>digest\<close> is SHA-256 and \<open>encode_len\<close> the length of
  tiktoken's encoding: parameters.\<close>

type_synonym token_cache = "(bytes \<times> nat) list"

definition token_cache_size :: nat where
  "token_cache_size = 64"

definition move_to_end :: "bytes \<Rightarrow> nat \<Rightarrow> token_cache \<Rightarrow> token_cache" where
  "move_to_end d n cache = filter (\<lambda>e. fst e \<noteq> d) cache @ [(d, n)]"

definition cache_put :: "bytes \<Rightarrow> nat \<Rightarrow> token_cache \<Rightarrow> token_cache" where
  "cache_put d n cache =
     (let c = move_to_end d n cache in drop (length c - token_cache_size) c)"

definition count_text_tokens ::
  "(bytes \<Rightarrow> bytes) \<Rightarrow> (pystr \<Rightarrow> nat) \<Rightarrow> token_cache \<Rightarrow> pystr \<Rightarrow> nat \<times> token_cache" where
  "count_text_tokens digest encode_len cache s =
     (let d = digest (utf8_encode s) in
      case map_of cache d of
        Some n \<Rightarrow> (n, move_to_end d n cache)
      | None \<Rightarrow> (encode_len s, cache_put d (encode_len s) cache))"

fun count_messages ::
  "(bytes \<Rightarrow> bytes) \<Rightarrow> (pystr \<Rightarrow> nat) \<Rightarrow> nat \<Rightarrow> token_cache \<Rightarrow> provider_message list \<Rightarrow>
     nat \<times> token_cache" where
  "count_messages digest encode_len acc cache [] = (acc, cache)"
| "count_messages digest encode_len acc cache (m # ms) =
     (case count_text_tokens digest encode_len cache (pm_role m) of (r, c1) \<Rightarrow>
      case count_text_tokens digest encode_len c1 (pm_content m) of (n, c2) \<Rightarrow>
        count_messages digest encode_len (acc + 4 + r + n) c2 ms)"

definition count_input_tokens ::
  "(bytes \<Rightarrow> bytes) \<Rightarrow> (pystr \<Rightarrow> nat) \<Rightarrow> token_cache \<Rightarrow> provider_message list \<Rightarrow>
     nat \<times> token_cache" where
  "count_input_tokens digest encode_len cache ms = count_messages digest encode_len 3 cache ms"

definition input_tokens_upper_bound :: "provider_message list \<Rightarrow> nat" where
  "input_tokens_upper_bound ms =
     3 + sum_list (map (\<lambda>m. 4 + utf8_len (pm_role m) + utf8_len (pm_content m)) ms)"

section \<open>The request\<close>

definition provider_roles :: "pystr list" where
  "provider_roles = map lit [''system'', ''user'', ''assistant'']"

definition reasoning_efforts :: "pystr list" where
  "reasoning_efforts = map lit [''max'', ''xhigh'', ''high'', ''medium'', ''low'', ''none'']"

definition serialized_message :: "provider_message \<Rightarrow> json res" where
  "serialized_message m =
     (if pm_role m \<notin> set provider_roles then Inl ''ValueError''
      else if pm_content m = [] then Inl ''ValueError''
      else Inr (JDict [(lit ''role'', JStr (pm_role m)), (lit ''content'', JStr (pm_content m))]))"

definition provider_routing :: json where
  "provider_routing =
     JDict [(lit ''order'', JList [JStr (lit ''azure/eu'')]), (lit ''allow_fallbacks'', JBool True),
       (lit ''data_collection'', JStr (lit ''deny'')), (lit ''zdr'', JBool True)]"

definition build_request_body :: "provider_message list \<Rightarrow> int \<Rightarrow> pystr \<Rightarrow> json res" where
  "build_request_body ms max_tokens effort =
     (if ms = [] then Inl ''ValueError''
      else if max_tokens < 1 then Inl ''ValueError''
      else if effort \<notin> set reasoning_efforts then Inl ''ValueError''
      else bind_res (map_res serialized_message ms) (\<lambda>serialized.
        Inr (JDict
          [(lit ''model'', JStr (lit ''openai/gpt-5.6-luna'')),
           (lit ''messages'', JList serialized),
           (lit ''stream'', JBool True),
           (lit ''stream_options'', JDict [(lit ''include_usage'', JBool True)]),
           (lit ''max_completion_tokens'', JInt max_tokens),
           (lit ''reasoning_effort'', JStr effort),
           (lit ''provider'', provider_routing)])))"

section \<open>One attempt\<close>

text \<open>What the attempt knows so far; \<open>at_sink\<close> is the state of the caller's callbacks.\<close>

record 's attempt =
  at_emitted :: bool
  at_parts :: "pystr list"
  at_request :: "pystr option"
  at_generation :: "pystr option"
  at_provider :: "pystr option"
  at_usage :: "provider_usage option"
  at_finish :: "pystr option"
  at_done :: bool
  at_held :: pystr
  at_sink :: 's

definition new_attempt :: "'s \<Rightarrow> 's attempt" where
  "new_attempt sink =
     \<lparr>at_emitted = False, at_parts = [], at_request = None, at_generation = None,
      at_provider = None, at_usage = None, at_finish = None, at_done = False, at_held = [],
      at_sink = sink\<rparr>"

record 's callbacks =
  on_delta :: "'s \<Rightarrow> pystr \<Rightarrow> 's \<times> failure option"
  on_ids :: "('s \<Rightarrow> pystr option \<Rightarrow> pystr \<Rightarrow> 's \<times> failure option) option"

datatype flow = Go | Break | Raise failure

record provider_completion =
  co_text :: pystr
  co_request :: "pystr option"
  co_generation :: "pystr option"
  co_provider :: "pystr option"
  co_usage :: "provider_usage option"

definition or_known :: "'a option \<Rightarrow> 'a option \<Rightarrow> 'a option" where
  "or_known a b = (case a of None \<Rightarrow> b | Some _ \<Rightarrow> a)"

text \<open>The inner function \<^verbatim>\<open>failure\<close> and \<^verbatim>\<open>ProviderError.in_attempt\<close>.\<close>

definition failure_of :: "'s attempt \<Rightarrow> code \<Rightarrow> bool \<Rightarrow> provider_error" where
  "failure_of a c retryable =
     (plain_error c retryable)
       \<lparr>pe_partial := at_emitted a, pe_request := at_request a, pe_generation := at_generation a,
        pe_provider := at_provider a, pe_usage := at_usage a\<rparr>"

definition in_attempt :: "provider_error \<Rightarrow> 's attempt \<Rightarrow> provider_error" where
  "in_attempt e a =
     e\<lparr>pe_partial := pe_partial e \<or> at_emitted a,
       pe_request := or_known (pe_request e) (at_request a),
       pe_generation := or_known (pe_generation e) (at_generation a),
       pe_provider := or_known (pe_provider e) (at_provider a),
       pe_usage := or_known (pe_usage e) (at_usage a)\<rparr>"

definition malformed :: failure where
  "malformed = ProviderFailure (plain_error ''provider_malformed_stream'' False)"

text \<open>\<open>limit\<close> is the interpreter's recursion allowance; its error is not caught.\<close>

definition decode_stream_payload :: "nat \<Rightarrow> pystr \<Rightarrow> failure + (pystr \<times> json) list" where
  "decode_stream_payload limit data =
     (case loads plain_hooks limit data of
        Inl RecursionError \<Rightarrow> Inl (Transport (Interrupted ''RecursionError''))
      | Inl _ \<Rightarrow> Inl malformed
      | Inr (JDict kvs) \<Rightarrow> Inr kvs
      | Inr _ \<Rightarrow> Inl malformed)"

fun first_reason :: "json list \<Rightarrow> pystr option" where
  "first_reason [] = None"
| "first_reason (choice # cs) =
     (case choice of
        JDict kvs \<Rightarrow>
          (case safe_string (payload_field kvs ''finish_reason'') of
             Some r \<Rightarrow> Some r
           | None \<Rightarrow> first_reason cs)
      | _ \<Rightarrow> first_reason cs)"

definition finish_reason :: "(pystr \<times> json) list \<Rightarrow> pystr option" where
  "finish_reason payload =
     (case payload_field payload ''choices'' of JList cs \<Rightarrow> first_reason cs | _ \<Rightarrow> None)"

fun choice_deltas :: "json list \<Rightarrow> failure + pystr list" where
  "choice_deltas [] = Inr []"
| "choice_deltas (choice # cs) =
     (case choice of
        JDict kvs \<Rightarrow>
          (case payload_field kvs ''delta'' of
             JNull \<Rightarrow> choice_deltas cs
           | JDict delta \<Rightarrow>
               (case payload_field delta ''content'' of
                  JNull \<Rightarrow> choice_deltas cs
                | JStr s \<Rightarrow>
                    bind_res (choice_deltas cs) (\<lambda>ds. Inr (if s = [] then ds else s # ds))
                | _ \<Rightarrow> Inl malformed)
           | _ \<Rightarrow> Inl malformed)
      | _ \<Rightarrow> Inl malformed)"

definition content_deltas :: "(pystr \<times> json) list \<Rightarrow> failure + pystr list" where
  "content_deltas payload =
     (case payload_field payload ''choices'' of
        JNull \<Rightarrow> Inr []
      | JList cs \<Rightarrow> choice_deltas cs
      | _ \<Rightarrow> Inl malformed)"

text \<open>The loop over one payload's contents.\<close>

fun deliver :: "'s callbacks \<Rightarrow> pystr list \<Rightarrow> 's attempt \<Rightarrow> 's attempt \<times> flow" where
  "deliver cb [] a = (a, Go)"
| "deliver cb (content # contents) a =
     (let (raw, held) = split_trailing_surrogate (at_held a @ content);
          a1 = a\<lparr>at_held := held\<rparr>
      in case joined_surrogates raw of
           Inl f \<Rightarrow> (a1, Raise f)
         | Inr delta \<Rightarrow>
             if delta = [] then deliver cb contents a1
             else
               let (sink, err) = on_delta cb (at_sink a1) delta;
                   a2 = a1\<lparr>at_parts := at_parts a1 @ [delta], at_emitted := True, at_sink := sink\<rparr>
               in case err of Some f \<Rightarrow> (a2, Raise f) | None \<Rightarrow> deliver cb contents a2)"

definition announce_ids ::
  "'s callbacks \<Rightarrow> bool \<Rightarrow> 's attempt \<Rightarrow> 's attempt \<times> failure option" where
  "announce_ids cb first a =
     (case (first, at_generation a, on_ids cb) of
        (True, Some g, Some ids) \<Rightarrow>
          (case ids (at_sink a) (at_request a) g of (sink, err) \<Rightarrow> (a\<lparr>at_sink := sink\<rparr>, err))
      | _ \<Rightarrow> (a, None))"

definition on_payload ::
  "'s callbacks \<Rightarrow> (pystr \<times> json) list \<Rightarrow> 's attempt \<Rightarrow> 's attempt \<times> flow" where
  "on_payload cb payload a =
     (let first = (at_generation a = None);
          a1 = a\<lparr>at_generation := or_known (safe_string (payload_field payload ''id'')) (at_generation a)\<rparr>;
          (a2, err) = announce_ids cb first a1
      in case err of
           Some f \<Rightarrow> (a2, Raise f)
         | None \<Rightarrow>
             let a3 = a2\<lparr>at_provider := or_known (safe_string (payload_field payload ''provider'')) (at_provider a2),
                         at_usage := or_known (parse_usage (payload_field payload ''usage'')) (at_usage a2)\<rparr>
             in if payload_field payload ''error'' \<noteq> JNull then
                  (case is_transient_code (error_code (payload_field payload ''error'')) of
                     Inl f \<Rightarrow> (a3, Raise f)
                   | Inr transient \<Rightarrow>
                       (a3, Raise (ProviderFailure (failure_of a3
                          (if transient then ''provider_transient'' else ''provider_rejected'')
                          transient))))
                else
                  let a4 = a3\<lparr>at_finish := or_known (finish_reason payload) (at_finish a3)\<rparr>
                  in case content_deltas payload of
                       Inl f \<Rightarrow> (a4, Raise f)
                     | Inr contents \<Rightarrow> deliver cb contents a4)"

definition on_line :: "'s callbacks \<Rightarrow> nat \<Rightarrow> pystr \<Rightarrow> 's attempt \<Rightarrow> 's attempt \<times> flow" where
  "on_line cb limit line a =
     (if line = [] \<or> prefix (lit '':'') line then (a, Go)
      else if \<not> prefix (lit ''data:'') line then (a, Go)
      else
        let data = dropWhile py_space (drop 5 line)
        in if data = lit ''[DONE]'' then (a\<lparr>at_done := True\<rparr>, Break)
           else (case decode_stream_payload limit data of
                   Inl f \<Rightarrow> (a, Raise f)
                 | Inr payload \<Rightarrow> on_payload cb payload a))"

definition continue_with ::
  "'s attempt \<times> flow \<Rightarrow> ('s attempt \<Rightarrow> 's attempt \<times> flow) \<Rightarrow> 's attempt \<times> flow" where
  "continue_with r f = (if snd r = Go then f (fst r) else r)"

lemma continue_with_simps [simp]:
  "continue_with (a, Go) f = f a" "continue_with (a, Break) f = (a, Break)"
  "continue_with (a, Raise x) f = (a, Raise x)"
  by (simp_all add: continue_with_def)

lemma continue_with_cong [fundef_cong]:
  "r = r' \<Longrightarrow> (\<And>a. r' = (a, Go) \<Longrightarrow> f a = g a) \<Longrightarrow> continue_with r f = continue_with r' g"
  by (cases r') (simp add: continue_with_def)

fun on_lines :: "'s callbacks \<Rightarrow> nat \<Rightarrow> pystr list \<Rightarrow> 's attempt \<Rightarrow> 's attempt \<times> flow" where
  "on_lines cb limit [] a = (a, Go)"
| "on_lines cb limit (l # ls) a =
     continue_with (on_line cb limit l a) (on_lines cb limit ls)"

text \<open>The answer of the HTTP client: no response, or a status, the two headers read, the text
  chunks of the body and the exception that ends it, if any.\<close>

datatype exchange =
    NoResponse transport
  | Response int "pystr option" "pystr option" "pystr list" "transport option"

fun read_body ::
  "'s callbacks \<Rightarrow> nat \<Rightarrow> pystr \<Rightarrow> pystr list \<Rightarrow> transport option \<Rightarrow> 's attempt \<Rightarrow>
     's attempt \<times> flow" where
  "read_body cb limit tail [] ending a =
     (case ending of
        Some t \<Rightarrow> (a, Raise (Transport t))
      | None \<Rightarrow> on_lines cb limit (sse_end tail) a)"
| "read_body cb limit tail (chunk # chunks) ending a =
     (case sse_feed tail chunk of (ls, tail') \<Rightarrow>
        continue_with (on_lines cb limit ls a) (read_body cb limit tail' chunks ending))"

definition header_string :: "pystr option \<Rightarrow> pystr option" where
  "header_string h = (case h of Some s \<Rightarrow> safe_string (JStr s) | None \<Rightarrow> None)"

text \<open>The body of the \<^verbatim>\<open>try\<close> statement, and its \<^verbatim>\<open>except\<close> clauses.\<close>

definition run_exchange :: "'s callbacks \<Rightarrow> nat \<Rightarrow> exchange \<Rightarrow> 's attempt \<Rightarrow> 's attempt \<times> flow" where
  "run_exchange cb limit x a =
     (case x of
        NoResponse t \<Rightarrow> (a, Raise (Transport t))
      | Response status request retry_after chunks ending \<Rightarrow>
          let a1 = a\<lparr>at_request := header_string request\<rparr>
          in if status < 200 \<or> 300 \<le> status then
               (a1, Raise (ProviderFailure (http_error status (at_request a1) retry_after)))
             else read_body cb limit [] chunks ending a1)"

fun handled :: "'s attempt \<Rightarrow> failure \<Rightarrow> failure" where
  "handled a (ProviderFailure e) = ProviderFailure (in_attempt e a)"
| "handled a (Transport TimedOut) = ProviderFailure (failure_of a ''provider_timeout'' False)"
| "handled a (Transport Misconfigured) =
     ProviderFailure (failure_of a ''provider_misconfigured'' False)"
| "handled a (Transport RequestFailed) = ProviderFailure (failure_of a ''provider_network'' True)"
| "handled a (Transport (Interrupted c)) = Transport (Interrupted c)"

text \<open>What follows the \<^verbatim>\<open>try\<close> statement.\<close>

definition conclude_attempt :: "'s attempt \<Rightarrow> failure + provider_completion" where
  "conclude_attempt a =
     (if at_finish a = Some (lit ''length'') then
        Inl (ProviderFailure (failure_of a ''provider_output_limit'' False))
      else if at_finish a = Some (lit ''content_filter'') then
        Inl (ProviderFailure (failure_of a ''provider_content_filter'' False))
      else if \<not> at_done a then
        Inl (ProviderFailure (failure_of a ''provider_incomplete_stream'' True))
      else if at_held a \<noteq> [] then
        Inl (ProviderFailure (failure_of a ''provider_malformed_stream'' False))
      else Inr \<lparr>co_text = concat (at_parts a), co_request = at_request a,
                co_generation = at_generation a, co_provider = at_provider a,
                co_usage = at_usage a\<rparr>)"

definition stream_once ::
  "'s callbacks \<Rightarrow> nat \<Rightarrow> exchange \<Rightarrow> 's \<Rightarrow> 's \<times> (failure + provider_completion)" where
  "stream_once cb limit x sink =
     (case run_exchange cb limit x (new_attempt sink) of
        (a, Raise f) \<Rightarrow> (at_sink a, Inl (handled a f))
      | (a, _) \<Rightarrow> (at_sink a, conclude_attempt a))"

section \<open>Retries\<close>

definition max_retry_after :: rat where
  "max_retry_after = 30"

definition seconds_of :: "pyfloat option \<Rightarrow> rat" where
  "seconds_of v = (case v of Some (Finite neg q) \<Rightarrow> (if neg then - q else q) | _ \<Rightarrow> 0)"

definition retry_delay :: "nat \<Rightarrow> provider_error \<Rightarrow> rat" where
  "retry_delay k e = max (2 ^ k) (min (seconds_of (pe_retry_after e)) max_retry_after)"

text \<open>The loop over the attempts from number \<open>k\<close>, \<open>n\<close> of them left; \<open>world k\<close> is what the HTTP
  client answers to attempt \<open>k\<close>.  The second component lists the delays slept.\<close>

fun retry_loop ::
  "'s callbacks \<Rightarrow> nat \<Rightarrow> (nat \<Rightarrow> exchange) \<Rightarrow> nat \<Rightarrow> nat \<Rightarrow> nat \<Rightarrow> 's \<Rightarrow>
     's \<times> rat list \<times> (failure + provider_completion)" where
  "retry_loop cb limit world attempts 0 k sink =
     (sink, [], Inl (Transport (Interrupted ''AssertionError'')))"
| "retry_loop cb limit world attempts (Suc n) k sink =
     (case stream_once cb limit (world k) sink of
        (sink', Inl (ProviderFailure e)) \<Rightarrow>
          if \<not> pe_retryable e \<or> pe_partial e \<or> attempts \<le> k + 1 then
            (sink', [], Inl (ProviderFailure e))
          else
            (case retry_loop cb limit world attempts n (Suc k) sink' of
               (s, ds, r) \<Rightarrow> (s, retry_delay k e # ds, r))
      | (sink', r) \<Rightarrow> (sink', [], r))"

definition stream_chat ::
  "'s callbacks \<Rightarrow> nat \<Rightarrow> nat \<Rightarrow> (json \<Rightarrow> nat \<Rightarrow> exchange) \<Rightarrow> provider_message list \<Rightarrow> int \<Rightarrow>
     pystr \<Rightarrow> 's \<Rightarrow> 's \<times> rat list \<times> (failure + provider_completion)" where
  "stream_chat cb limit attempts world ms max_tokens effort sink =
     (case build_request_body ms max_tokens effort of
        Inl c \<Rightarrow> (sink, [], Inl (Transport (Interrupted c)))
      | Inr body \<Rightarrow> retry_loop cb limit (world body) attempts attempts 0 sink)"

section \<open>The eventual charge\<close>

text \<open>The answer to the metadata request; \<open>None\<close> is a body that is not JSON.\<close>

datatype metadata = MetaFailed transport | MetaResponse int "pystr option" "json option"

definition generation_cost :: "pystr \<Rightarrow> (pystr \<Rightarrow> metadata) \<Rightarrow> failure + int option" where
  "generation_cost generation answer =
     (if generation = [] \<or> 255 < length generation then
        Inl (Transport (Interrupted ''ValueError''))
      else
        (case answer generation of
           MetaFailed Misconfigured \<Rightarrow> Inl (ProviderFailure (plain_error ''provider_misconfigured'' False))
         | MetaFailed RequestFailed \<Rightarrow> Inl (ProviderFailure (plain_error ''provider_network'' True))
         | MetaFailed t \<Rightarrow> Inl (Transport t)
         | MetaResponse status request body \<Rightarrow>
             if status = 404 then Inr None
             else if status < 200 \<or> 300 \<le> status then
               Inl (ProviderFailure (http_error status (header_string request) None))
             else
               (case body of
                  Some (JDict payload) \<Rightarrow>
                    (case payload_field payload ''data'' of
                       JDict data \<Rightarrow>
                         (case snd (cost (payload_field data ''total_cost'')) of
                            Some micro \<Rightarrow> Inr (Some micro)
                          | None \<Rightarrow>
                              (case parse_usage (payload_field data ''usage'') of
                                 Some u \<Rightarrow> Inr (cost_microusd u)
                               | None \<Rightarrow> Inr None))
                     | _ \<Rightarrow> Inl (ProviderFailure (plain_error ''provider_malformed_metadata'' True)))
                | _ \<Rightarrow> Inl (ProviderFailure (plain_error ''provider_malformed_metadata'' True)))))"

end
