(* ===== verification/Database.thy ===== *)
theory Database
  imports Protocol
begin

text \<open>
  The tables of \<^verbatim>\<open>src/oveo/models.py\<close> that carry conversations, generations, canonical work and
  the usage ledger.  A row is a record, a table a list of rows in insertion order.  Row identifiers
  are the text of the UUIDs that \<^verbatim>\<open>new_id\<close> draws; operations take the drawn identifiers as
  arguments.  Times are microseconds.  The unique indexes are executable predicates, and an insert
  that would violate one raises \<open>IntegrityError\<close>.
\<close>

section \<open>Rows\<close>

type_synonym row_id = string
type_synonym time = int

datatype thread_mode = Translate | RevisionMode | InternalComms
datatype work_kind = TranslationWork | RevisionWork | DraftWork
datatype message_role = UserRole | AssistantRole
datatype attachment_role = SourceDocument | ReferenceDocument
datatype purpose = Chat | PromptHandoff | TitlePurpose | SummaryPurpose | SmokeTest
datatype status = Queued | Running | Stopping | Completed | Failed | Stopped
datatype event_type = Pending | Charge | Adjustment
datatype operation = Establish | Append | Replace | Full

record thread_row =
  th_id :: row_id
  th_owner :: row_id
  th_mode :: thread_mode
  th_title :: "pystr option"
  th_summary :: "pystr option"
  th_summary_through :: "nat option"
  th_updated :: time

record message_row =
  msg_id :: row_id
  msg_thread :: row_id
  msg_ordinal :: nat
  msg_role :: message_role
  msg_actor :: "row_id option"
  msg_content :: "content_block list"

record attachment_row =
  att_id :: row_id
  att_message :: row_id
  att_storage :: string
  att_name :: pystr
  att_role :: attachment_role
  att_blocks :: json
  att_bytes :: nat
  att_words :: nat
  att_sha256 :: string

record generation_row =
  gen_id :: row_id
  gen_thread :: "row_id option"
  gen_requester :: row_id
  gen_source :: "row_id option"
  gen_result :: "row_id option"
  gen_retry_of :: "row_id option"
  gen_client_request :: string
  gen_purpose :: purpose
  gen_status :: status
  gen_partial :: "content_block list"
  gen_revision :: nat
  gen_provider_request :: "string option"
  gen_provider_generation :: "string option"
  gen_error :: "string option"
  gen_started :: "time option"
  gen_finished :: "time option"
  gen_created :: time

record work_item_row =
  wi_id :: row_id
  wi_thread :: row_id
  wi_kind :: work_kind
  wi_active :: bool

record work_version_row =
  wv_id :: row_id
  wv_item :: row_id
  wv_no :: int
  wv_parent :: "row_id option"
  wv_cause :: "row_id option"
  wv_operation :: operation
  wv_source :: pystr
  wv_output :: pystr
  wv_words :: nat
  wv_brief :: brief
  wv_template :: "row_id option"
  wv_docx_blocks :: "json list option"

record usage_event_row =
  ue_id :: row_id
  ue_thread :: "row_id option"
  ue_generation :: "row_id option"
  ue_requester :: "row_id option"
  ue_provider_request :: "string option"
  ue_provider_generation :: "string option"
  ue_dedupe :: string
  ue_type :: event_type
  ue_purpose :: string
  ue_amount :: "int option"
  ue_created :: time

record database =
  threads :: "thread_row list"
  messages :: "message_row list"
  attachments :: "attachment_row list"
  generations :: "generation_row list"
  work_items :: "work_item_row list"
  work_versions :: "work_version_row list"
  usage_events :: "usage_event_row list"

section \<open>Queries\<close>

text \<open>\<^verbatim>\<open>ORDER BY key DESC LIMIT 1\<close>: the first of the rows with the greatest key.\<close>

fun latest_by :: "('a \<Rightarrow> 'k::linorder) \<Rightarrow> 'a list \<Rightarrow> 'a option" where
  "latest_by key [] = None"
| "latest_by key (r # rs) =
     (case latest_by key rs of
        None \<Rightarrow> Some r
      | Some b \<Rightarrow> if key r < key b then Some b else Some r)"

definition active_statuses :: "status list" where
  "active_statuses = [Queued, Running, Stopping]"

definition is_active :: "status \<Rightarrow> bool" where
  "is_active s \<longleftrightarrow> s \<in> set active_statuses"

definition the_thread :: "database \<Rightarrow> row_id \<Rightarrow> thread_row option" where
  "the_thread db t = find (\<lambda>r. th_id r = t) (threads db)"

definition the_generation :: "database \<Rightarrow> row_id \<Rightarrow> generation_row option" where
  "the_generation db g = find (\<lambda>r. gen_id r = g) (generations db)"

definition the_attachment :: "database \<Rightarrow> row_id \<Rightarrow> attachment_row option" where
  "the_attachment db a = find (\<lambda>r. att_id r = a) (attachments db)"

definition active_item :: "database \<Rightarrow> row_id \<Rightarrow> work_item_row option" where
  "active_item db t = find (\<lambda>i. wi_thread i = t \<and> wi_active i) (work_items db)"

definition item_versions :: "database \<Rightarrow> row_id \<Rightarrow> work_version_row list" where
  "item_versions db i = filter (\<lambda>v. wv_item v = i) (work_versions db)"

definition current_version :: "database \<Rightarrow> row_id \<Rightarrow> work_version_row option" where
  "current_version db i = latest_by wv_no (item_versions db i)"

text \<open>\<^verbatim>\<open>latest_work_version\<close>: the newest version of a conversation's active work items.\<close>

definition latest_work_version :: "database \<Rightarrow> row_id \<Rightarrow> work_version_row option" where
  "latest_work_version db t =
     latest_by wv_no (filter (\<lambda>v. \<exists>i\<in>set (work_items db). wi_id i = wv_item v \<and> wi_thread i = t \<and> wi_active i)
       (work_versions db))"

text \<open>\<^verbatim>\<open>_latest_source_docx\<close> and \<^verbatim>\<open>_own_source_docx\<close>\<close>

definition latest_source_docx :: "database \<Rightarrow> row_id \<Rightarrow> attachment_row option" where
  "latest_source_docx db t =
     map_option fst (latest_by (\<lambda>(a, m). msg_ordinal m)
       (concat (map (\<lambda>a. map (\<lambda>m. (a, m))
           (filter (\<lambda>m. msg_id m = att_message a \<and> msg_thread m = t) (messages db)))
         (filter (\<lambda>a. att_role a = SourceDocument) (attachments db)))))"

definition own_source_docx :: "database \<Rightarrow> generation_row \<Rightarrow> attachment_row option" where
  "own_source_docx db g =
     (case gen_source g of
        None \<Rightarrow> None
      | Some m \<Rightarrow>
          (case find (\<lambda>a. att_message a = m) (attachments db) of
             None \<Rightarrow> None
           | Some a \<Rightarrow> if att_role a = SourceDocument then Some a else None))"

section \<open>Facts about queries\<close>

lemma find_Some_member: "find P xs = Some x \<Longrightarrow> x \<in> set xs \<and> P x"
  by (auto simp: find_Some_iff)

lemma latest_by_None [simp]: "latest_by key rs = None \<longleftrightarrow> rs = []"
  by (cases rs) (auto split: option.splits)

lemma latest_by_Some:
  "latest_by key rs = Some r \<Longrightarrow> r \<in> set rs \<and> (\<forall>x\<in>set rs. key x \<le> key r)"
proof (induction rs arbitrary: r)
  case (Cons a rs)
  then show ?case
    by (cases "latest_by key rs") (force split: if_splits)+
qed simp

lemma latest_by_append:
  assumes "\<forall>x\<in>set rs. key x < key r"
  shows "latest_by key (rs @ [r]) = Some r"
  using assms by (induction rs) auto

end
