(* ===== verification/Text_Edits.thy ===== *)
theory Text_Edits
  imports Prelude "HOL-Library.Multiset"
begin

text \<open>
  Exact replacement in canonical text: \<^verbatim>\<open>_replacement_span\<close> and
  \<^verbatim>\<open>_apply_base_replacements\<close> of \<^verbatim>\<open>src/oveo/generation.py\<close>, and the proof that the
  offset arithmetic implements simultaneous substitution.
\<close>


section \<open>Definitions\<close>

definition replacement_span :: "string \<Rightarrow> pystr \<Rightarrow> pystr \<Rightarrow> (nat \<times> nat) res" where
  "replacement_span label text anchor =
     (case find_sub text anchor of
        None \<Rightarrow> Inl (''state_missing_'' @ label @ ''_anchor'')
      | Some first \<Rightarrow>
          if find_from text anchor (first + 1) \<noteq> None
          then Inl (''state_ambiguous_'' @ label @ ''_anchor'')
          else Inr (first, first + length anchor))"

type_synonym edit = "nat \<times> nat \<times> pystr"

text \<open>\<^verbatim>\<open>any(left[1] > right[0] for left, right in pairwise(ordered))\<close>\<close>

fun some_overlap :: "edit list \<Rightarrow> bool" where
  "some_overlap (l # r # es) \<longleftrightarrow> fst (snd l) > fst r \<or> some_overlap (r # es)"
| "some_overlap _ \<longleftrightarrow> False"

definition apply_edit :: "edit \<Rightarrow> pystr \<Rightarrow> pystr" where
  "apply_edit = (\<lambda>(start, stop, replacement) result. take start result @ replacement @ drop stop result)"

text \<open>The edits are applied from the last to the first, so that earlier offsets stay valid.\<close>

definition apply_base_replacements :: "string \<Rightarrow> pystr \<Rightarrow> (pystr \<times> pystr) list \<Rightarrow> pystr res" where
  "apply_base_replacements label text rs =
     bind_res (map_res (\<lambda>(anchor, replacement).
         bind_res (replacement_span label text anchor) (\<lambda>(start, stop). Inr (start, stop, replacement)))
       rs) (\<lambda>edits.
     let ordered = sort_key fst edits in
     if some_overlap ordered then Inl (''state_overlapping_'' @ label @ ''_anchors'')
     else Inr (fold apply_edit (rev ordered) text))"

section \<open>Anchors\<close>

definition unique_anchor :: "pystr \<Rightarrow> pystr \<Rightarrow> bool" where
  "unique_anchor text a \<longleftrightarrow> (\<exists>!i. occurs_at text a i)"

lemma replacement_span_Inr:
  "replacement_span label text a = Inr p \<longleftrightarrow>
     unique_anchor text a \<and> find_sub text a = Some (fst p) \<and> snd p = fst p + length a"
proof (cases "find_sub text a")
  case None
  then show ?thesis by (simp add: replacement_span_def)
next
  case (Some i)
  then have occ: "occurs_at text a i" "\<forall>j<i. \<not> occurs_at text a j"
    by (simp_all add: find_sub_Some)
  then have "find_from text a (i + 1) = None \<longleftrightarrow> unique_anchor text a"
    unfolding find_from_None unique_anchor_def by (metis Suc_eq_plus1 less_Suc_eq_le not_less nat_neq_iff)
  with Some show ?thesis by (cases p) (auto simp: replacement_span_def)
qed

definition edit_of :: "pystr \<Rightarrow> pystr \<times> pystr \<Rightarrow> edit" where
  "edit_of text = (\<lambda>(a, r). (the (find_sub text a), the (find_sub text a) + length a, r))"

lemma unique_anchor_find: "unique_anchor text a \<Longrightarrow> occurs_at text a i \<Longrightarrow> find_sub text a = Some i"
  by (metis find_sub_None find_sub_Some option.exhaust unique_anchor_def)

lemma edits_Inr:
  "map_res (\<lambda>(anchor, replacement).
      bind_res (replacement_span label text anchor) (\<lambda>(start, stop). Inr (start, stop, replacement))) rs = Inr es
   \<longleftrightarrow> (\<forall>(a, r)\<in>set rs. unique_anchor text a) \<and> es = map (edit_of text) rs"
proof (induction rs arbitrary: es)
  case (Cons x rs)
  obtain a r where x: "x = (a, r)" by (cases x)
  have "find_sub text a \<noteq> None" if "unique_anchor text a"
    using that unique_anchor_find by (metis option.distinct(1) unique_anchor_def)
  then show ?case
    by (cases "find_sub text a")
      (auto simp: x res_simps Cons replacement_span_Inr edit_of_def)
qed auto

section \<open>Weaving anchors into gaps\<close>

fun weave :: "pystr list \<Rightarrow> pystr list \<Rightarrow> pystr" where
  "weave [] _ = []"
| "weave (g # gs) [] = g"
| "weave (g # gs) (a # as) = g @ a @ weave gs as"

text \<open>Edits that follow each other without overlap, from a position on.\<close>

fun chain :: "nat \<Rightarrow> edit list \<Rightarrow> bool" where
  "chain pos [] \<longleftrightarrow> True"
| "chain pos (e # es) \<longleftrightarrow> pos \<le> fst e \<and> fst e < fst (snd e) \<and> chain (fst (snd e)) es"

lemma chain_sorted: "chain pos es \<Longrightarrow> sorted (map fst es) \<and> distinct (map fst es) \<and> (\<forall>e\<in>set es. pos \<le> fst e)"
  by (induction pos es rule: chain.induct) fastforce+

lemma chain_no_overlap: "chain pos es \<Longrightarrow> \<not> some_overlap es"
  by (induction es arbitrary: pos rule: some_overlap.induct) auto

lemma no_overlap_chain:
  assumes "\<not> some_overlap es" "sorted (map fst es)" "\<forall>e\<in>set es. fst e < fst (snd e)" "es \<noteq> [] \<longrightarrow> pos \<le> fst (hd es)"
  shows "chain pos es"
  using assms by (induction es arbitrary: pos rule: some_overlap.induct) auto

lemma weave_chain:
  assumes "text = pre @ weave gs (map fst rs)" "length gs = Suc (length rs)"
    and "\<forall>(a, r)\<in>set rs. unique_anchor text a \<and> a \<noteq> []"
  shows "chain (length pre) (map (edit_of text) rs)
    \<and> fold apply_edit (rev (map (edit_of text) rs)) text = pre @ weave gs (map snd rs)"
  using assms
proof (induction rs arbitrary: pre gs)
  case Nil
  then show ?case by (cases gs) auto
next
  case (Cons x rs)
  obtain a r where x: "x = (a, r)" by (cases x)
  obtain g gs' where gs: "gs = g # gs'" using Cons.prems(2) by (cases gs) auto
  have t: "text = (pre @ g @ a) @ weave gs' (map fst rs)" using Cons.prems(1) gs x by simp
  have "occurs_at text a (length (pre @ g))" unfolding occurs_at_split
    using t by (intro exI [of _ "pre @ g"] exI [of _ "weave gs' (map fst rs)"]) simp
  then have f: "find_sub text a = Some (length (pre @ g))"
    using Cons.prems(3) x by (intro unique_anchor_find) auto
  have "length gs' = Suc (length rs)" "\<forall>(a, r)\<in>set rs. unique_anchor text a \<and> a \<noteq> []"
    using Cons.prems(2,3) gs by auto
  from Cons.IH [OF t this] have
    IH: "chain (length (pre @ g @ a)) (map (edit_of text) rs)"
    "fold apply_edit (rev (map (edit_of text) rs)) text = (pre @ g @ a) @ weave gs' (map snd rs)"
    by auto
  with f Cons.prems(3) x gs show ?case
    by (simp add: edit_of_def apply_edit_def add.assoc)
qed

lemma chain_weave:
  assumes "chain pos (map (edit_of text) rs)" "\<forall>(a, r)\<in>set rs. unique_anchor text a"
  shows "\<exists>gs. length gs = Suc (length rs) \<and> drop pos text = weave gs (map fst rs)"
  using assms
proof (induction rs arbitrary: pos)
  case Nil
  then show ?case by (auto intro: exI [of _ "[drop pos text]"])
next
  case (Cons x rs)
  obtain a r where x: "x = (a, r)" by (cases x)
  obtain i where i: "find_sub text a = Some i" "occurs_at text a i"
  proof -
    have u: "unique_anchor text a" using Cons.prems(2) x by simp
    then obtain i where "occurs_at text a i" by (auto simp: unique_anchor_def)
    with unique_anchor_find [OF u this] that show thesis by blast
  qed
  with Cons.prems x have c: "pos \<le> i" "chain (i + length a) (map (edit_of text) rs)"
    by (auto simp: edit_of_def)
  from Cons.IH [OF c(2)] Cons.prems obtain gs where
    gs: "length gs = Suc (length rs)" "drop (i + length a) text = weave gs (map fst rs)" by auto
  have "drop i text = a @ drop (i + length a) text"
    using i(2) unfolding occurs_at_def by (metis append_take_drop_id drop_drop add.commute)
  moreover have "drop pos text = take (i - pos) (drop pos text) @ drop i text"
    using append_take_drop_id [of "i - pos" "drop pos text"] c(1) by simp
  ultimately have "drop pos text = take (i - pos) (drop pos text) @ a @ drop (i + length a) text"
    by metis
  with gs x show ?case by (auto intro!: exI [of _ "take (i - pos) (drop pos text) # gs"])
qed

lemma insort_key_map: "map f (insort_key (\<lambda>x. g (f x)) x xs) = insort_key g (f x) (map f xs)"
  by (induction xs) auto

lemma sort_key_map: "map f (sort_key (\<lambda>x. g (f x)) xs) = sort_key g (map f xs)"
  by (induction xs) (simp_all add: insort_key_map)


section \<open>Simultaneous substitution\<close>

lemma apply_base_replacements_Inr:
  assumes nonempty: "[] \<notin> fst ` set rs"
  shows "apply_base_replacements label text rs = Inr out \<longleftrightarrow>
    (\<forall>(a, r)\<in>set rs. unique_anchor text a) \<and>
    (\<exists>es gs. mset es = mset rs \<and> length gs = Suc (length es)
       \<and> text = weave gs (map fst es) \<and> out = weave gs (map snd es))"
    (is "?L \<longleftrightarrow> ?U \<and> ?R")
proof -
  have L: "?L \<longleftrightarrow> ?U \<and> \<not> some_overlap (sort_key fst (map (edit_of text) rs))
      \<and> out = fold apply_edit (rev (sort_key fst (map (edit_of text) rs))) text"
    unfolding apply_base_replacements_def bind_res_eq_Inr edits_Inr by (auto simp: Let_def)
  have "\<not> some_overlap (sort_key fst (map (edit_of text) rs))
      \<and> out = fold apply_edit (rev (sort_key fst (map (edit_of text) rs))) text \<longleftrightarrow> ?R" if u: ?U
  proof
    let ?es = "sort_key (\<lambda>x. fst (edit_of text x)) rs"
    assume a: "\<not> some_overlap (sort_key fst (map (edit_of text) rs))
      \<and> out = fold apply_edit (rev (sort_key fst (map (edit_of text) rs))) text"
    have es: "sort_key fst (map (edit_of text) rs) = map (edit_of text) ?es"
      by (simp add: sort_key_map)
    have ne: "\<forall>(a, r)\<in>set ?es. unique_anchor text a \<and> a \<noteq> []" using u nonempty by force
    have "chain 0 (map (edit_of text) ?es)"
    proof (rule no_overlap_chain)
      show "\<not> some_overlap (map (edit_of text) ?es)" using a es by simp
      show "sorted (map fst (map (edit_of text) ?es))" by (metis es sorted_sort_key)
      show "\<forall>e\<in>set (map (edit_of text) ?es). fst e < fst (snd e)" using ne by (auto simp: edit_of_def)
    qed simp
    from chain_weave [OF this] ne obtain gs where
      gs: "length gs = Suc (length ?es)" "text = weave gs (map fst ?es)" by auto
    with weave_chain [of "text" "[]" gs ?es] ne a es have "out = weave gs (map snd ?es)" by simp
    with gs show ?R by (metis mset_sort)
  next
    assume ?R
    then obtain es gs where es: "mset es = mset rs" "length gs = Suc (length es)"
      "text = weave gs (map fst es)" "out = weave gs (map snd es)" by blast
    have st: "set es = set rs" using es(1) by (metis set_mset_mset)
    have ne: "\<forall>(a, r)\<in>set es. unique_anchor text a \<and> a \<noteq> []" using u nonempty st by force
    from weave_chain [of "text" "[]" gs es] es ne have
      c: "chain 0 (map (edit_of text) es)"
      "fold apply_edit (rev (map (edit_of text) es)) text = out" by simp_all
    have "sort_key fst (map (edit_of text) rs) = map (edit_of text) es"
    proof (rule map_sorted_distinct_set_unique [where f = fst])
      let ?o = "sort_key fst (map (edit_of text) rs)" and ?e = "map (edit_of text) es"
      have m: "mset ?o = mset ?e" using es(1) by simp
      have "sorted (map fst ?e) \<and> distinct (map fst ?e)" using chain_sorted [OF c(1)] by blast
      then show e: "sorted (map fst ?e)" "distinct (map fst ?e)" by blast+
      show s: "set ?o = set ?e" using m by (metis set_mset_mset)
      show "inj_on fst (set ?o \<union> set ?e)" unfolding s Un_absorb using e(2) by (metis distinct_map)
      show "sorted (map fst ?o)" by simp
      have "mset (map fst ?o) = mset (map fst ?e)" using m by (metis mset_map)
      then show "distinct (map fst ?o)" using e(2) by (metis mset_eq_imp_distinct_iff)
    qed
    with c chain_no_overlap [OF c(1)] show "\<not> some_overlap (sort_key fst (map (edit_of text) rs))
      \<and> out = fold apply_edit (rev (sort_key fst (map (edit_of text) rs))) text" by simp
  qed
  with L show ?thesis by blast
qed


text \<open>C16: exact replacement is simultaneous substitution.  It succeeds exactly when every anchor
  occurs once in the base text and the base can be read as gaps with the anchors woven in between;
  the result is the same gaps with the replacements in place of the anchors, so everything outside
  the anchors is untouched.\<close>

theorem apply_base_replacements_spec:
  assumes "[] \<notin> fst ` set rs"
  shows "apply_base_replacements label base rs = Inr out \<longleftrightarrow>
    (\<forall>(a, r)\<in>set rs. \<exists>!i. occurs_at base a i) \<and>
    (\<exists>es gs. mset es = mset rs \<and> length gs = Suc (length es)
       \<and> base = weave gs (map fst es) \<and> out = weave gs (map snd es))"
  using apply_base_replacements_Inr [OF assms, of label base out] by (simp add: unique_anchor_def)

theorem apply_base_replacements_spec_witness:
  "\<exists>es gs. mset es = mset [(lit ''b'', lit ''XY''), (lit ''a'', [])] \<and> length gs = Suc (length es)
       \<and> lit ''a-b'' = weave gs (map fst es) \<and> lit ''-XY'' = weave gs (map snd es)"
proof -
  have "apply_base_replacements ''output'' (lit ''a-b'') [(lit ''b'', lit ''XY''), (lit ''a'', [])] = Inr (lit ''-XY'')"
    by (simp add: apply_base_replacements_def replacement_span_def find_from_def lit_def apply_edit_def)
  moreover have "[] \<notin> fst ` set [(lit ''b'', lit ''XY''), (lit ''a'', [])]" by (simp add: lit_def)
  ultimately show ?thesis using apply_base_replacements_spec by blast
qed

text \<open>the order in which the model lists its replacements does not matter.\<close>

theorem apply_base_replacements_order:
  assumes "apply_base_replacements label base rs = Inr out" "[] \<notin> fst ` set rs" "mset rs' = mset rs"
  shows "apply_base_replacements label base rs' = Inr out"
proof -
  have "set rs' = set rs" using assms(3) by (metis set_mset_mset)
  with assms show ?thesis
    using apply_base_replacements_Inr [of rs label base out] apply_base_replacements_Inr [of rs' label base out]
    by simp
qed

theorem apply_base_replacements_order_witness:
  "apply_base_replacements ''output'' (lit ''a-b'') [(lit ''a'', []), (lit ''b'', lit ''XY'')] = Inr (lit ''-XY'')"
  by (rule apply_base_replacements_order [of _ _ "[(lit ''b'', lit ''XY''), (lit ''a'', [])]"])
    (simp_all add: apply_base_replacements_def replacement_span_def find_from_def lit_def apply_edit_def)

end
