(* ===== verification/Docx_Blocks.thy ===== *)
theory Docx_Blocks
  imports Protocol
begin

text \<open>
  The block layer of \<^verbatim>\<open>src/oveo/docx.py\<close>: blocks with protected hyperlink tokens, the
  validation of replacement texts, the stored block map, and the plain text that canonical
  state holds.  The package and XML layer below it (\<^verbatim>\<open>zipfile\<close>, \<^verbatim>\<open>lxml\<close>) is library code.
\<close>


section \<open>Blocks\<close>

record docx_block =
  dblock_id :: pystr
  dblock_kind :: pystr
  dblock_text :: pystr

record docx_replacement =
  drepl_id :: pystr
  drepl_text :: pystr

record extracted_docx =
  ext_blocks :: "docx_block list"
  ext_plain_text :: pystr

definition to_model :: "docx_block \<Rightarrow> (pystr \<times> json) list" where
  "to_model b = [(lit ''id'', JStr (dblock_id b)), (lit ''kind'', JStr (dblock_kind b)),
                 (lit ''text'', JStr (dblock_text b))]"

definition replacement_to_storage :: "docx_replacement \<Rightarrow> (pystr \<times> json) list" where
  "replacement_to_storage r = [(lit ''id'', JStr (drepl_id r)), (lit ''text'', JStr (drepl_text r))]"

definition max_docx_blocks_limit :: nat where
  "max_docx_blocks_limit = 10000"

definition docx_uncompressed_limit :: "int \<Rightarrow> int" where
  "docx_uncompressed_limit max_upload_bytes = min 50000000 (max 20000000 (max_upload_bytes * 20))"

definition xml_part_limit :: "int \<Rightarrow> int" where
  "xml_part_limit max_uncompressed_bytes = min 12000000 (max_uncompressed_bytes div 4)"

section \<open>Hyperlink tokens\<close>

definition link_open :: pystr where "link_open = lit ''{{OVEO_LINK_''"
definition link_close :: pystr where "link_close = lit ''{{/OVEO_LINK_''"

definition reserved :: "pystr \<Rightarrow> bool" where
  "reserved s \<longleftrightarrow> contains s link_open \<or> contains s link_close"

text \<open>\<^verbatim>\<open>l[0-9]{6}\<close> and \<^verbatim>\<open>p[0-9]{6}\<close>\<close>

definition numbered_id :: "string \<Rightarrow> pystr \<Rightarrow> bool" where
  "numbered_id c s \<longleftrightarrow> length s = 7 \<and> take 1 s = lit c \<and> list_all ascii_digit (drop 1 s)"

definition open_token :: "pystr \<Rightarrow> pystr" where
  "open_token i = link_open @ i @ lit ''}}''"

definition close_token :: "pystr \<Rightarrow> pystr" where
  "close_token i = link_close @ i @ lit ''}}''"

text \<open>One attempt of the regular expression at the start of a text: the identifier, the
  shortest display text, and what follows the token.\<close>

definition match_token :: "pystr \<Rightarrow> (pystr \<times> pystr \<times> pystr) option" where
  "match_token s =
     (let i = take 7 (drop 12 s); body = drop 21 s in
      if prefix link_open s \<and> numbered_id ''l'' i \<and> prefix (lit ''}}'') (drop 19 s) then
        (case find_sub body (close_token i) of
           Some k \<Rightarrow> Some (i, take k body, drop (k + 22) body)
         | None \<Rightarrow> None)
      else None)"

fun next_token :: "pystr \<Rightarrow> (pystr \<times> pystr \<times> pystr \<times> pystr) option" where
  "next_token [] = None"
| "next_token (c # cs) =
     (case match_token (c # cs) of
        Some (i, display, rest) \<Rightarrow> Some ([], i, display, rest)
      | None \<Rightarrow> map_option (\<lambda>(plain, t). (c # plain, t)) (next_token cs))"

lemma length_link [simp]: "length link_open = 12" "length link_close = 13"
  by (simp_all add: link_open_def link_close_def)

lemma match_token_shorter: "match_token s = Some (i, d, r) \<Longrightarrow> length r < length s"
  by (auto simp: match_token_def Let_def prefix_def split: if_splits option.splits)

lemma next_token_shorter: "next_token s = Some (p, i, d, r) \<Longrightarrow> length r < length s"
  by (induction s arbitrary: p) (auto split: option.splits dest!: match_token_shorter)

function link_parts :: "pystr \<Rightarrow> (pystr list \<times> (pystr \<times> pystr) list) res" where
  "link_parts s =
     (case next_token s of
        None \<Rightarrow> if reserved s then Inl ''invalid_docx_blocks'' else Inr ([s], [])
      | Some (plain, i, display, rest) \<Rightarrow>
          if reserved plain \<or> reserved display then Inl ''invalid_docx_blocks''
          else bind_res (link_parts rest) (\<lambda>(ps, ls). Inr (plain # ps, (i, display) # ls)))"
  by pat_completeness auto
termination by (relation "measure length") (auto dest: next_token_shorter)

declare link_parts.simps [simp del]

section \<open>Validation\<close>

text \<open>The complement of \<^verbatim>\<open>_XML_ILLEGAL_CHARACTER\<close>\<close>

definition xml_legal :: "nat \<Rightarrow> bool" where
  "xml_legal c \<longleftrightarrow> c = 9 \<or> c = 10 \<or> c = 13 \<or> (32 \<le> c \<and> c \<le> 55295) \<or> (57344 \<le> c \<and> c \<le> 65533)
     \<or> (65536 \<le> c \<and> c \<le> 1114111)"

datatype replacement_candidate = Replacement docx_replacement | RawReplacement "(pystr \<times> json) list"

definition replacement_of :: "replacement_candidate \<Rightarrow> docx_replacement res" where
  "replacement_of c =
     (case c of
        Replacement r \<Rightarrow> Inr r
      | RawReplacement m \<Rightarrow>
          if fst ` set m \<noteq> {lit ''id'', lit ''text''} then Inl ''invalid_docx_blocks''
          else
            (case (get m ''id'', get m ''text'') of
               (Some (JStr i), Some (JStr t)) \<Rightarrow> Inr \<lparr>drepl_id = i, drepl_text = t\<rparr>
             | _ \<Rightarrow> Inl ''invalid_docx_blocks''))"

definition validate_replacement :: "docx_block \<Rightarrow> replacement_candidate \<Rightarrow> docx_replacement res" where
  "validate_replacement expected candidate =
     bind_res (replacement_of candidate) (\<lambda>r.
       if \<not> numbered_id ''p'' (drepl_id r) \<or> drepl_id r \<noteq> dblock_id expected then Inl ''invalid_docx_blocks''
       else if \<not> list_all xml_legal (drepl_text r) then Inl ''invalid_docx_text''
       else
         bind_res (link_parts (dblock_text expected)) (\<lambda>(_, expected_links).
         bind_res (link_parts (drepl_text r)) (\<lambda>(_, actual_links).
           if \<not> list_all (numbered_id ''l'') (map fst actual_links)
              \<or> map fst actual_links \<noteq> map fst expected_links
              \<or> \<not> distinct (map fst actual_links)
              \<or> [] \<in> set (map snd actual_links)
           then Inl ''invalid_docx_hyperlinks''
           else Inr r)))"

definition validate_replacements ::
    "docx_block list \<Rightarrow> replacement_candidate list \<Rightarrow> docx_replacement list res" where
  "validate_replacements template_blocks candidates =
     (if length candidates \<noteq> length template_blocks then Inl ''invalid_docx_blocks''
      else map_res (\<lambda>(expected, candidate). validate_replacement expected candidate)
             (zip template_blocks candidates))"

definition link_id :: "nat \<Rightarrow> pystr" where
  "link_id n = lit ''l'' @ pad6 n"

fun check_links :: "nat \<Rightarrow> (pystr \<times> pystr) list \<Rightarrow> nat res" where
  "check_links n [] = Inr n"
| "check_links n ((i, _) # ls) = (if i \<noteq> link_id n then Inl ''invalid_docx_blocks'' else check_links (n + 1) ls)"

fun restore_blocks :: "nat \<Rightarrow> nat \<Rightarrow> json list \<Rightarrow> docx_block list res" where
  "restore_blocks block_number next_link [] = Inr []"
| "restore_blocks block_number next_link (c # cs) =
     (case c of
        JDict m \<Rightarrow>
          if fst ` set m \<noteq> {lit ''id'', lit ''kind'', lit ''text''} then Inl ''invalid_docx_blocks''
          else
            (case (get m ''id'', get m ''kind'', get m ''text'') of
               (Some (JStr i), Some (JStr k), Some (JStr t)) \<Rightarrow>
                 if i \<noteq> docx_block_id block_number \<or> (k \<noteq> lit ''paragraph'' \<and> k \<noteq> lit ''table_cell'') \<or> t = []
                 then Inl ''invalid_docx_blocks''
                 else
                   bind_res (link_parts t) (\<lambda>(_, links).
                   bind_res (check_links next_link links) (\<lambda>n.
                   bind_res (restore_blocks (block_number + 1) n cs) (\<lambda>bs.
                     Inr (\<lparr>dblock_id = i, dblock_kind = k, dblock_text = t\<rparr> # bs))))
             | _ \<Rightarrow> Inl ''invalid_docx_blocks'')
      | _ \<Rightarrow> Inl ''invalid_docx_blocks'')"

definition docx_blocks_from_storage :: "json \<Rightarrow> docx_block list res" where
  "docx_blocks_from_storage v =
     (case v of
        JList cs \<Rightarrow>
          if cs = [] \<or> max_docx_blocks_limit < length cs then Inl ''invalid_docx_blocks''
          else restore_blocks 1 1 cs
      | _ \<Rightarrow> Inl ''invalid_docx_blocks'')"

text \<open>\<^verbatim>\<open>value = plain_parts[0]\<close>, then each display text with the plain part after it\<close>

fun join_parts :: "pystr list \<Rightarrow> (pystr \<times> pystr) list \<Rightarrow> pystr" where
  "join_parts (p # ps) [] = p"
| "join_parts (p # ps) ((_, d) # ls) = p @ d @ join_parts ps ls"
| "join_parts [] _ = []"

definition plain_text_from_validated :: "docx_replacement list \<Rightarrow> pystr res" where
  "plain_text_from_validated rs =
     bind_res (map_res (\<lambda>r. bind_res (link_parts (drepl_text r)) (\<lambda>(ps, ls). Inr (join_parts ps ls))) rs)
       (\<lambda>paragraphs. Inr (join [10, 10] paragraphs))"

definition plain_text_from_replacements :: "docx_block list \<Rightarrow> replacement_candidate list \<Rightarrow> pystr res" where
  "plain_text_from_replacements template_blocks candidates =
     bind_res (validate_replacements template_blocks candidates) plain_text_from_validated"

definition require_matching_blocks :: "docx_block list \<Rightarrow> json \<Rightarrow> unit res" where
  "require_matching_blocks bs stored =
     (if docx_blocks_from_storage stored = Inr bs then Inr () else Inl ''docx_template_outdated'')"

section \<open>Tokens and text\<close>

definition link_token :: "pystr \<times> pystr \<Rightarrow> pystr" where
  "link_token = (\<lambda>(i, d). open_token i @ d @ close_token i)"

fun render_links :: "pystr list \<Rightarrow> (pystr \<times> pystr) list \<Rightarrow> pystr" where
  "render_links (p # ps) [] = p"
| "render_links (p # ps) (l # ls) = p @ link_token l @ render_links ps ls"
| "render_links [] _ = []"

lemma link_open_chars: "link_open = [123, 123, 79, 86, 69, 79, 95, 76, 73, 78, 75, 95]"
  and link_close_chars: "link_close = [123, 123, 47, 79, 86, 69, 79, 95, 76, 73, 78, 75, 95]"
  by (simp_all add: link_open_def link_close_def lit_def)

lemma numbered_id_length: "numbered_id c s \<Longrightarrow> length s = 7"
  by (simp add: numbered_id_def)

text \<open>A pattern without a border cannot start in a text that does not contain it and end in an
  occurrence of itself.\<close>

definition borderless :: "'a list \<Rightarrow> bool" where
  "borderless p \<longleftrightarrow> (\<forall>m\<in>{1..<length p}. drop m p \<noteq> take (length p - m) p)"

lemma borderless_find:
  assumes "borderless p" "p \<noteq> []" "\<not> contains s p"
  shows "find_sub (s @ p @ r) p = Some (length s)"
  unfolding find_sub_Some
proof (intro conjI allI impI notI)
  show "occurs_at (s @ p @ r) p (length s)" by (simp add: occurs_at_def)
next
  fix j assume j: "j < length s" and occ: "occurs_at (s @ p @ r) p j"
  show False
  proof (cases "j + length p \<le> length s")
    case True
    then have "occurs_at s p j" using occ by (simp add: occurs_at_def)
    with assms(3) show False by (auto simp: contains_iff)
  next
    case False
    let ?m = "length s - j"
    have m: "?m \<in> {1..<length p}" using False j by auto
    have "take (length p) (drop j s @ p @ r) = p" using occ j by (simp add: occurs_at_def)
    then have "drop j s @ take (length p - ?m) p = p" using m by simp
    then have "drop (length (drop j s)) p = take (length p - ?m) p"
      by (metis append_eq_conv_conj)
    then have "drop ?m p = take (length p - ?m) p" by simp
    with m assms(1) show False by (auto simp: borderless_def)
  qed
qed


lemma borderless_Cons2:
  assumes "c \<noteq> d" "c \<notin> set xs"
  shows "borderless (c # c # d # xs)"
  unfolding borderless_def
proof
  fix m assume m: "m \<in> {1..<length (c # c # d # xs)}"
  show "drop m (c # c # d # xs) \<noteq> take (length (c # c # d # xs) - m) (c # c # d # xs)"
  proof (cases "m = 1")
    case True
    with assms(1) show ?thesis by (cases xs) auto
  next
    case False
    with m obtain k where k: "m = Suc (Suc k)" "k < Suc (length xs)" by (cases m; cases "m - 1") auto
    then have "c \<notin> set (drop m (c # c # d # xs))" using assms by (auto dest: in_set_dropD)
    moreover have "c \<in> set (take (length (c # c # d # xs) - m) (c # c # d # xs))"
      using k by (simp add: Suc_diff_le)
    ultimately show ?thesis by metis
  qed
qed


lemma borderless_open: "borderless link_open"
  unfolding link_open_chars by (rule borderless_Cons2) simp_all

lemma numbered_id_chars: "numbered_id ''l'' i \<Longrightarrow> 123 \<notin> set i"
  by (cases i) (auto simp: numbered_id_def lit_def list_all_iff ascii_digit_def)

lemma borderless_close:
  assumes "numbered_id ''l'' i"
  shows "borderless (close_token i)"
proof -
  have "close_token i = 123 # 123 # 47 # [79, 86, 69, 79, 95, 76, 73, 78, 75, 95] @ i @ [125, 125]"
    by (simp add: close_token_def link_close_chars lit_def)
  with numbered_id_chars [OF assms] show ?thesis
    by (simp only:) (rule borderless_Cons2, auto)
qed

lemma contains_mono: "contains s p \<Longrightarrow> contains (a @ s @ b) p"
  unfolding contains_sublist by (meson sublist_appendI sublist_order.order.trans)

lemma close_reserved: "contains d (close_token i) \<Longrightarrow> reserved d"
  unfolding reserved_def contains_sublist close_token_def
  by (metis append.assoc prefix_imp_sublist prefixI sublist_order.order.trans)

lemma length_close: "numbered_id c i \<Longrightarrow> length (close_token i) = 22"
  by (simp add: close_token_def numbered_id_length)

lemma match_token_iff:
  "match_token s = Some (i, d, r) \<longleftrightarrow>
     numbered_id ''l'' i \<and> s = link_token (i, d) @ r
     \<and> find_sub (d @ close_token i @ r) (close_token i) = Some (length d)"
proof
  assume m: "match_token s = Some (i, d, r)"
  let ?i = "take 7 (drop 12 s)" and ?b = "drop 21 s"
  from m obtain k where p: "prefix link_open s" "numbered_id ''l'' ?i" "prefix (lit ''}}'') (drop 19 s)"
    and k: "find_sub ?b (close_token ?i) = Some k" and r: "i = ?i" "d = take k ?b" "r = drop (k + 22) ?b"
    by (auto simp: match_token_def Let_def split: if_splits option.splits)
  have occ: "occurs_at ?b (close_token ?i) k" using k by (simp add: find_sub_Some)
  then have b: "?b = d @ close_token i @ r"
    using r length_close [OF p(2)] unfolding occurs_at_def
    by (metis append_take_drop_id drop_drop add.commute)
  have "length d = k" using occ r(2) by (simp add: occurs_at_def)
  moreover have "s = link_open @ drop 12 s" using p(1) by (metis append_eq_conv_conj length_link(1) prefixE)
  moreover have "drop 12 s = ?i @ drop 19 s" using append_take_drop_id [of 7 "drop 12 s"] by (simp only: drop_drop) simp
  moreover have "drop 19 s = lit ''}}'' @ ?b"
  proof -
    obtain z where z: "drop 19 s = lit ''}}'' @ z" using p(3) by (auto simp: prefix_def)
    moreover have "drop 2 (drop 19 s) = drop 21 s" by (simp add: add.commute)
    ultimately show ?thesis by simp
  qed
  ultimately show "numbered_id ''l'' i \<and> s = link_token (i, d) @ r
     \<and> find_sub (d @ close_token i @ r) (close_token i) = Some (length d)"
    using p(2) r(1) k b by (metis (no_types, lifting) append.assoc link_token_def open_token_def prod.case)
next
  assume a: "numbered_id ''l'' i \<and> s = link_token (i, d) @ r
     \<and> find_sub (d @ close_token i @ r) (close_token i) = Some (length d)"
  then have s: "s = link_open @ i @ lit ''}}'' @ d @ close_token i @ r" and li: "length i = 7"
    by (auto simp: link_token_def open_token_def numbered_id_length)
  then have "take 7 (drop 12 s) = i" "drop 21 s = d @ close_token i @ r" "prefix (lit ''}}'') (drop 19 s)" "prefix link_open s"
    by simp_all
  with a show "match_token s = Some (i, d, r)"
    by (simp add: match_token_def Let_def length_close [of "''l''" i])
qed


lemma match_token_link:
  assumes "numbered_id ''l'' i" "\<not> reserved d"
  shows "match_token (link_token (i, d) @ r) = Some (i, d, r)"
proof -
  have "\<not> contains d (close_token i)" using assms(2) close_reserved by blast
  then have "find_sub (d @ close_token i @ r) (close_token i) = Some (length d)"
    by (intro borderless_find borderless_close assms(1)) (simp add: close_token_def link_close_chars)
  with assms(1) show ?thesis by (simp add: match_token_iff)
qed

lemma next_token_Some:
  "next_token s = Some (p, i, d, r) \<Longrightarrow> s = p @ link_token (i, d) @ r \<and> numbered_id ''l'' i"
proof (induction s arbitrary: p)
  case (Cons c s)
  show ?case
  proof (cases "match_token (c # s)")
    case None
    with Cons.prems obtain p' where "next_token s = Some (p', i, d, r)" "p = c # p'" by auto
    with Cons.IH show ?thesis by simp
  next
    case (Some t)
    with Cons.prems have "match_token (c # s) = Some (i, d, r)" "p = []" by (auto split: prod.splits)
    then show ?thesis by (simp add: match_token_iff)
  qed
qed simp

lemma next_token_skip:
  assumes "\<forall>j<length p. match_token (drop j (p @ s)) = None"
  shows "next_token (p @ s) = map_option (\<lambda>(q, t). (p @ q, t)) (next_token s)"
  using assms
proof (induction p)
  case Nil
  then show ?case by (simp add: option.map_ident case_prod_unfold)
next
  case (Cons c p)
  have "match_token (c # p @ s) = None" using Cons.prems [rule_format, of 0] by simp
  moreover have "next_token (p @ s) = map_option (\<lambda>(q, t). (p @ q, t)) (next_token s)"
  proof (rule Cons.IH, intro allI impI)
    fix j assume "j < length p"
    then show "match_token (drop j (p @ s)) = None" using Cons.prems [rule_format, of "Suc j"] by simp
  qed
  ultimately show ?case by (simp add: option.map_comp o_def case_prod_unfold)
qed

lemma match_token_open: "match_token s = Some t \<Longrightarrow> occurs_at s link_open 0"
  by (auto simp: match_token_def Let_def occurs_at_0 split: if_splits)

lemma next_token_link:
  assumes "numbered_id ''l'' i" "\<not> reserved d" "\<not> reserved p"
  shows "next_token (p @ link_token (i, d) @ r) = Some (p, i, d, r)"
proof -
  let ?l = "link_token (i, d) @ r"
  obtain z where z: "?l = link_open @ z" by (simp add: link_token_def open_token_def)
  have f: "find_sub (p @ ?l) link_open = Some (length p)"
    unfolding z using assms(3)
    by (intro borderless_find borderless_open) (auto simp: reserved_def link_open_chars)
  have "next_token (p @ ?l) = map_option (\<lambda>(q, t). (p @ q, t)) (next_token ?l)"
  proof (rule next_token_skip, intro allI impI)
    fix j assume j: "j < length p"
    then have "\<not> occurs_at (p @ ?l) link_open j" using f by (simp add: find_sub_Some)
    then have "\<not> occurs_at (drop j (p @ ?l)) link_open 0"
      using occurs_at_drop [of j "p @ ?l" link_open 0] j by simp
    then show "match_token (drop j (p @ ?l)) = None" using match_token_open by (metis not_None_eq)
  qed
  moreover have "next_token ?l = Some ([], i, d, r)"
  proof -
    have "?l \<noteq> []" by (simp add: z link_open_chars)
    then obtain c cs where "?l = c # cs" by (cases ?l) auto
    with match_token_link [OF assms(1,2), of r] show ?thesis by (simp del: append_assoc)
  qed
  ultimately show ?thesis by simp
qed

lemma next_token_None: "\<not> reserved s \<Longrightarrow> next_token s = None"
proof (induction s)
  case (Cons c s)
  have "\<not> occurs_at (c # s) link_open 0" using Cons.prems by (auto simp: reserved_def contains_iff)
  then have "match_token (c # s) = None" using match_token_open by (metis not_None_eq)
  moreover have "\<not> reserved s" using Cons.prems using contains_mono [of s _ "[c]" "[]"] by (auto simp: reserved_def)
  ultimately show ?case using Cons.IH by simp
qed simp

section \<open>Splitting and rendering are inverse\<close>

definition links_ok :: "pystr list \<Rightarrow> (pystr \<times> pystr) list \<Rightarrow> bool" where
  "links_ok ps ls \<longleftrightarrow> length ps = Suc (length ls) \<and> (\<forall>p\<in>set ps. \<not> reserved p)
     \<and> (\<forall>(i, d)\<in>set ls. numbered_id ''l'' i \<and> \<not> reserved d)"

lemma link_parts_iff: "link_parts s = Inr (ps, ls) \<longleftrightarrow> links_ok ps ls \<and> s = render_links ps ls"
proof
  assume "link_parts s = Inr (ps, ls)"
  then show "links_ok ps ls \<and> s = render_links ps ls"
  proof (induction s arbitrary: ps ls rule: link_parts.induct)
    case (1 s)
    show ?case
    proof (cases "next_token s")
      case None
      with "1.prems" show ?thesis by (auto simp: link_parts.simps [of s] links_ok_def split: if_splits)
    next
      case (Some t)
      then obtain p i d r where t: "next_token s = Some (p, i, d, r)" by (cases t) auto
      with "1.prems" obtain ps' ls' where r: "link_parts r = Inr (ps', ls')" "ps = p # ps'" "ls = (i, d) # ls'"
        "\<not> reserved p" "\<not> reserved d"
        by (auto simp: link_parts.simps [of s] res_simps split: if_splits)
      with "1.IH" [OF t refl refl refl] next_token_Some [OF t] show ?thesis by (auto simp: links_ok_def)
    qed
  qed
next
  assume "links_ok ps ls \<and> s = render_links ps ls"
  then have "links_ok ps ls" "s = render_links ps ls" by auto
  then show "link_parts s = Inr (ps, ls)"
  proof (induction ps ls arbitrary: s rule: render_links.induct)
    case (1 p ps)
    then show ?case by (simp add: link_parts.simps [of p] next_token_None links_ok_def)
  next
    case (2 p ps l ls)
    obtain i d where l: "l = (i, d)" by (cases l)
    with 2 have "next_token s = Some (p, i, d, render_links ps ls)"
      by (auto simp: links_ok_def intro!: next_token_link)
    with 2 l show ?case unfolding link_parts.simps [of s] by (simp add: links_ok_def)
  next
    case (3 ls)
    then show ?case by (simp add: links_ok_def)
  qed
qed


section \<open>What validation guarantees\<close>

text \<open>The replacement text keeps the protected hyperlinks of its block: the same identifiers in the
  same order, each once, none with an empty display text.\<close>

definition keeps_links :: "docx_block \<Rightarrow> docx_replacement \<Rightarrow> bool" where
  "keeps_links b r \<longleftrightarrow> (\<exists>ps ls ps' ls'. links_ok ps ls \<and> dblock_text b = render_links ps ls
     \<and> links_ok ps' ls' \<and> drepl_text r = render_links ps' ls'
     \<and> map fst ls' = map fst ls \<and> distinct (map fst ls') \<and> [] \<notin> set (map snd ls'))"

lemma validate_replacement_Inr:
  assumes "validate_replacement b c = Inr r"
  shows "drepl_id r = dblock_id b \<and> list_all xml_legal (drepl_text r) \<and> keeps_links b r"
  using assms
  by (auto simp: validate_replacement_def res_simps link_parts_iff keeps_links_def split: if_splits)

lemma validate_replacements_Inr:
  assumes "validate_replacements bs cs = Inr rs"
  shows "length rs = length bs \<and> map drepl_id rs = map dblock_id bs
    \<and> list_all2 (\<lambda>b r. list_all xml_legal (drepl_text r) \<and> keeps_links b r) bs rs"
proof -
  from assms have "list_all2 (\<lambda>(b, c) r. validate_replacement b c = Inr r) (zip bs cs) rs" "length cs = length bs"
    by (auto simp: validate_replacements_def map_res_list_all2 case_prod_unfold split: if_splits)
  then have "list_all2 (\<lambda>b r. drepl_id r = dblock_id b \<and> list_all xml_legal (drepl_text r) \<and> keeps_links b r) bs rs"
    by (auto simp: list_all2_conv_all_nth dest!: validate_replacement_Inr)
  then show ?thesis by (auto simp: list_all2_conv_all_nth list_eq_iff_nth_eq)
qed

lemma plain_text_Inr:
  assumes "list_all2 keeps_links bs rs"
  shows "\<exists>t. plain_text_from_validated rs = Inr t"
proof -
  have "\<exists>ts. map_res (\<lambda>r. bind_res (link_parts (drepl_text r)) (\<lambda>(ps, ls). Inr (join_parts ps ls))) rs = Inr ts"
    using assms
  proof (induction rule: list_all2_induct)
    case (Cons b bs r rs)
    then obtain ps ls where "link_parts (drepl_text r) = Inr (ps, ls)"
      by (auto simp: keeps_links_def link_parts_iff)
    with Cons show ?case by auto
  qed simp
  then show ?thesis by (auto simp: plain_text_from_validated_def)
qed

definition block_links :: "docx_block \<Rightarrow> pystr list" where
  "block_links b = (case link_parts (dblock_text b) of Inl _ \<Rightarrow> [] | Inr (_, ls) \<Rightarrow> map fst ls)"

definition stored_block_ok :: "docx_block \<Rightarrow> bool" where
  "stored_block_ok b \<longleftrightarrow> (dblock_kind b = lit ''paragraph'' \<or> dblock_kind b = lit ''table_cell'')
     \<and> dblock_text b \<noteq> [] \<and> is_ok (link_parts (dblock_text b))"

text \<open>A block map as extraction produces it: consecutive block numbers, known kinds, non-empty texts
  with well-formed tokens, and link numbers that count through the whole document.\<close>

definition block_map_ok :: "docx_block list \<Rightarrow> bool" where
  "block_map_ok bs \<longleftrightarrow> bs \<noteq> [] \<and> length bs \<le> max_docx_blocks_limit
     \<and> map dblock_id bs = map docx_block_id [1..<Suc (length bs)]
     \<and> (\<forall>b\<in>set bs. stored_block_ok b)
     \<and> concat (map block_links bs) = map link_id [1..<Suc (length (concat (map block_links bs)))]"

lemma check_links_iff:
  "check_links n ls = Inr m \<longleftrightarrow> m = n + length ls \<and> map fst ls = map link_id [n..<n + length ls]"
  by (induction n ls rule: check_links.induct) (auto simp: upt_conv_Cons simp del: upt_Suc)

lemma upt_append_iff:
  "xs @ ys = map f [l..<l + (length xs + length ys)] \<longleftrightarrow>
     xs = map f [l..<l + length xs] \<and> ys = map f [l + length xs..<l + length xs + length ys]"
proof -
  have "[l..<l + (length xs + length ys)] = [l..<l + length xs] @ [l + length xs..<l + length xs + length ys]"
    using upt_add_eq_append [of l "l + length xs" "length ys"] by (simp add: add.assoc)
  then show ?thesis by (simp add: append_eq_append_conv)
qed

lemma restore_one:
  "restore_blocks n l (JDict m # cs) = Inr r \<longleftrightarrow>
    (\<exists>b bs. r = b # bs \<and> fst ` set m = {lit ''id'', lit ''kind'', lit ''text''}
     \<and> get m ''id'' = Some (JStr (dblock_id b)) \<and> get m ''kind'' = Some (JStr (dblock_kind b))
     \<and> get m ''text'' = Some (JStr (dblock_text b))
     \<and> dblock_id b = docx_block_id n \<and> stored_block_ok b
     \<and> block_links b = map link_id [l..<l + length (block_links b)]
     \<and> restore_blocks (n + 1) (l + length (block_links b)) cs = Inr bs)" (is "?L \<longleftrightarrow> ?R")
proof
  assume ?L
  then obtain i k t ps ls bs where "fst ` set m = {lit ''id'', lit ''kind'', lit ''text''}"
      "get m ''id'' = Some (JStr i)" "get m ''kind'' = Some (JStr k)" "get m ''text'' = Some (JStr t)"
      "i = docx_block_id n" "k = lit ''paragraph'' \<or> k = lit ''table_cell''" "t \<noteq> []"
      "link_parts t = Inr (ps, ls)" "map fst ls = map link_id [l..<l + length ls]"
      "restore_blocks (n + 1) (l + length ls) cs = Inr bs"
      "r = \<lparr>dblock_id = i, dblock_kind = k, dblock_text = t\<rparr> # bs"
    by (auto simp: res_simps check_links_iff split: if_splits option.splits json.splits)
  then show ?R
    by (intro exI [of _ "\<lparr>dblock_id = i, dblock_kind = k, dblock_text = t\<rparr>"] exI [of _ bs])
      (simp add: stored_block_ok_def block_links_def)
next
  assume ?R
  then show ?L
    by (auto simp: stored_block_ok_def block_links_def is_ok_iff res_simps check_links_iff)
qed

lemma restore_blocks_ok:
  assumes "restore_blocks n l cs = Inr bs"
  shows "map dblock_id bs = map docx_block_id [n..<n + length bs] \<and> length bs = length cs
    \<and> (\<forall>b\<in>set bs. stored_block_ok b)
    \<and> concat (map block_links bs) = map link_id [l..<l + length (concat (map block_links bs))]"
  using assms
proof (induction cs arbitrary: n l bs)
  case (Cons c cs)
  then obtain m where c: "c = JDict m" by (auto split: json.splits)
  from Cons.prems obtain b bs' where b: "bs = b # bs'" "dblock_id b = docx_block_id n" "stored_block_ok b"
      "block_links b = map link_id [l..<l + length (block_links b)]"
      "restore_blocks (n + 1) (l + length (block_links b)) cs = Inr bs'"
    unfolding c restore_one by blast
  from Cons.IH [OF b(5)] b(1-4) show ?case
    using upt_append_iff [of "block_links b" "concat (map block_links bs')" link_id l]
    by (simp add: upt_conv_Cons del: upt_Suc)
qed simp

lemma restore_blocks_model:
  assumes "map dblock_id bs = map docx_block_id [n..<n + length bs]" "\<forall>b\<in>set bs. stored_block_ok b"
    and "concat (map block_links bs) = map link_id [l..<l + length (concat (map block_links bs))]"
  shows "restore_blocks n l (map (\<lambda>b. JDict (to_model b)) bs) = Inr bs"
  using assms
proof (induction bs arbitrary: n l)
  case (Cons b bs)
  from Cons.prems have b: "dblock_id b = docx_block_id n" "stored_block_ok b"
      "block_links b = map link_id [l..<l + length (block_links b)]"
    and r: "map dblock_id bs = map docx_block_id [Suc n..<Suc n + length bs]" "\<forall>b\<in>set bs. stored_block_ok b"
      "concat (map block_links bs) = map link_id [l + length (block_links b)..<l + length (block_links b) + length (concat (map block_links bs))]"
    using upt_append_iff [of "block_links b" "concat (map block_links bs)" link_id l]
    by (simp_all add: upt_conv_Cons del: upt_Suc)
  have "restore_blocks n l (JDict (to_model b) # map (\<lambda>b. JDict (to_model b)) bs) = Inr (b # bs)"
    unfolding restore_one using b Cons.IH [OF r]
    by (intro exI [of _ b] exI [of _ bs]) (simp add: to_model_def get_def)
  then show ?case by simp
qed simp

lemma docx_blocks_from_storage_ok: "docx_blocks_from_storage v = Inr bs \<Longrightarrow> block_map_ok bs"
  by (auto simp: docx_blocks_from_storage_def block_map_ok_def split: json.splits if_splits
      dest!: restore_blocks_ok)

lemma docx_blocks_from_storage_model:
  "block_map_ok bs \<Longrightarrow> docx_blocks_from_storage (JList (map (\<lambda>b. JDict (to_model b)) bs)) = Inr bs"
  using restore_blocks_model [of bs 1 1] by (simp add: docx_blocks_from_storage_def block_map_ok_def)


text \<open>C20: splitting a block's text at its hyperlink tokens is the inverse of rendering.  A text is
  accepted exactly when it is the rendering of plain parts and links that are free of reserved
  prefixes, and then the parts and links come back unchanged.\<close>

theorem link_parts_spec: "link_parts s = Inr (ps, ls) \<longleftrightarrow> links_ok ps ls \<and> s = render_links ps ls"
  by (rule link_parts_iff)

text \<open>C21: validated replacements fit their template: one per block with the block's identifier, only
  characters that XML can hold, and every protected hyperlink kept once and in order with a
  visible text; their plain text is then always defined.\<close>

theorem validated_replacements_fit:
  assumes "validate_replacements bs cs = Inr rs"
  shows "map drepl_id rs = map dblock_id bs
    \<and> list_all2 (\<lambda>b r. list_all xml_legal (drepl_text r) \<and> keeps_links b r) bs rs
    \<and> (\<exists>t. plain_text_from_replacements bs cs = Inr t \<and> plain_text_from_validated rs = Inr t)"
proof -
  have "list_all2 keeps_links bs rs"
    using validate_replacements_Inr [OF assms] by (auto intro: list_all2_mono)
  then obtain t where "plain_text_from_validated rs = Inr t" using plain_text_Inr by blast
  with assms validate_replacements_Inr [OF assms] show ?thesis
    by (simp add: plain_text_from_replacements_def)
qed

definition demo_blocks :: "docx_block list" where
  "demo_blocks = [\<lparr>dblock_id = lit ''p000001'', dblock_kind = lit ''paragraph'', dblock_text = lit ''Hello''\<rparr>]"

definition demo_replacements :: "replacement_candidate list" where
  "demo_replacements = [Replacement \<lparr>drepl_id = lit ''p000001'', drepl_text = lit ''Bonjour''\<rparr>]"

lemma short_unreserved: "length s < 12 \<Longrightarrow> \<not> reserved s"
  by (auto simp: reserved_def contains_iff occurs_at_def)

lemma short_link_parts: "length s < 12 \<Longrightarrow> link_parts s = Inr ([s], [])"
  by (simp add: link_parts_iff links_ok_def short_unreserved)

lemma demo_validated:
  "validate_replacements demo_blocks demo_replacements = Inr [\<lparr>drepl_id = lit ''p000001'', drepl_text = lit ''Bonjour''\<rparr>]"
  by (simp add: demo_blocks_def demo_replacements_def validate_replacements_def validate_replacement_def
      replacement_of_def numbered_id_def lit_def ascii_digit_def xml_legal_def short_link_parts)

theorem validated_replacements_fit_witness:
  "map drepl_id [\<lparr>drepl_id = lit ''p000001'', drepl_text = lit ''Bonjour''\<rparr>] = map dblock_id demo_blocks
    \<and> (\<exists>t. plain_text_from_replacements demo_blocks demo_replacements = Inr t)"
  using validated_replacements_fit [OF demo_validated] by blast

text \<open>C22: the stored block map is faithful.  What is stored for a block list matches that list again
  exactly when the list is a well-formed block map, so a template is refused as outdated only when
  its parse really differs.\<close>

theorem stored_block_map_matches:
  "require_matching_blocks bs (JList (map (\<lambda>b. JDict (to_model b)) bs)) = Inr () \<longleftrightarrow> block_map_ok bs"
  using docx_blocks_from_storage_ok docx_blocks_from_storage_model
  by (auto simp: require_matching_blocks_def)

end
