(* ===== verification/Work_State.thy ===== *)
theory Work_State
  imports Database Text_Edits Docx_Blocks
begin

text \<open>
  Canonical work (\<^verbatim>\<open>src/oveo/generation.py\<close>, \<^verbatim>\<open>_apply_state_operation\<close> and its helpers, with
  \<^verbatim>\<open>count_words\<close> of \<^verbatim>\<open>src/oveo/attachments.py\<close>): how a validated response changes the
  stored source, output and brief of a conversation, and the invariant of the version history.
\<close>


section \<open>Word counts and separators\<close>

text \<open>\<^verbatim>\<open>count_words\<close>: the number of maximal runs of non-space characters (\<^verbatim>\<open>\S+\<close>).\<close>

fun word_runs :: "bool \<Rightarrow> pystr \<Rightarrow> nat" where
  "word_runs in_word [] = 0"
| "word_runs in_word (c # cs) =
     (if py_space c then word_runs False cs
      else if in_word then word_runs True cs else Suc (word_runs True cs))"

definition count_words :: "pystr \<Rightarrow> nat" where
  "count_words s = word_runs False s"

fun joiner :: "append_separator \<Rightarrow> pystr" where
  "joiner SepNone = []"
| "joiner SepSpace = [32]"
| "joiner SepLine = [10]"
| "joiner SepParagraph = [10, 10]"

definition append_text :: "pystr \<Rightarrow> pystr \<Rightarrow> append_separator \<Rightarrow> pystr" where
  "append_text base addition separator = base @ joiner separator @ addition"

definition single_deliverable :: "protocol_document \<Rightarrow> pystr res" where
  "single_deliverable document =
     (case filter (\<lambda>b. block_type b = Deliverable) (doc_blocks document) of
        [b] \<Rightarrow> Inr (block_text b)
      | _ \<Rightarrow> Inl ''state_deliverable_count_mismatch'')"

section \<open>Templates\<close>

type_synonym templates = "(row_id \<times> extracted_docx) list"

definition prepared_template :: "templates \<Rightarrow> row_id \<Rightarrow> extracted_docx res" where
  "prepared_template ts a =
     (case map_of ts a of None \<Rightarrow> Inl ''state_docx_template_missing'' | Some x \<Rightarrow> Inr x)"

fun state_docx_blocks :: "state_operation \<Rightarrow> docx_block_replacement list option" where
  "state_docx_blocks (EstablishState b s d) = d"
| "state_docx_blocks (ReplaceState v rs b d) = d"
| "state_docx_blocks (FullState v s b d) = d"
| "state_docx_blocks _ = None"

text \<open>\<^verbatim>\<open>_template_attachment\<close>: the Word document a mutation is checked against.\<close>

definition template_attachment ::
    "database \<Rightarrow> generation_row \<Rightarrow> state_operation \<Rightarrow> attachment_row option res" where
  "template_attachment db g st =
     (case (st, gen_thread g) of
        (NoState, _) \<Rightarrow> Inr None
      | (_, None) \<Rightarrow> Inr None
      | (EstablishState b s d, Some t) \<Rightarrow>
          (case own_source_docx db g of
             Some a \<Rightarrow> Inr (Some a)
           | None \<Rightarrow> Inr (if d \<noteq> None then latest_source_docx db t else None))
      | (_, Some t) \<Rightarrow>
          (case latest_work_version db t of
             None \<Rightarrow> Inr None
           | Some v \<Rightarrow>
               (case wv_template v of
                  None \<Rightarrow> Inr None
                | Some a \<Rightarrow>
                    (case the_attachment db a of
                       None \<Rightarrow> Inl ''state_docx_template_missing''
                     | Some x \<Rightarrow> Inr (Some x)))))"

section \<open>Applying a state operation\<close>

fun work_kind_of :: "thread_mode \<Rightarrow> work_kind" where
  "work_kind_of Translate = TranslationWork"
| "work_kind_of RevisionMode = RevisionWork"
| "work_kind_of InternalComms = DraftWork"

text \<open>The values a branch of \<^verbatim>\<open>_apply_state_operation\<close> leaves in its local variables.\<close>

record draft =
  dr_source :: pystr
  dr_output :: pystr
  dr_brief :: brief
  dr_template :: "row_id option"
  dr_blocks :: "docx_block list option"

text \<open>The \<^verbatim>\<open>establish\<close> branch.\<close>

definition establish_draft ::
    "database \<Rightarrow> templates \<Rightarrow> generation_row \<Rightarrow> row_id \<Rightarrow> pystr \<Rightarrow> brief \<Rightarrow> pystr option
      \<Rightarrow> docx_block_replacement list option \<Rightarrow> draft res" where
  "establish_draft db ts g t visible b src d =
     (let docx = (case own_source_docx db g of
                    Some a \<Rightarrow> Some a
                  | None \<Rightarrow> if d \<noteq> None then latest_source_docx db t else None) in
      case docx of
        Some a \<Rightarrow>
          if d = None then Inl ''state_docx_blocks_missing''
          else
            bind_res (prepared_template ts (att_id a)) (\<lambda>x.
              if src \<noteq> None \<and> src \<noteq> Some (ext_plain_text x) then Inl ''state_docx_source_mismatch''
              else Inr \<lparr>dr_source = ext_plain_text x, dr_output = visible, dr_brief = b,
                        dr_template = Some (att_id a), dr_blocks = Some (ext_blocks x)\<rparr>)
      | None \<Rightarrow>
          if d \<noteq> None then Inl ''state_docx_blocks_unexpected''
          else
            (case src of
               None \<Rightarrow> Inl ''state_source_missing''
             | Some s \<Rightarrow> Inr \<lparr>dr_source = s, dr_output = visible, dr_brief = b, dr_template = None,
                              dr_blocks = None\<rparr>))"

text \<open>The DOCX checks every operation on an existing version starts with.\<close>

definition base_docx ::
    "database \<Rightarrow> templates \<Rightarrow> generation_row \<Rightarrow> work_version_row \<Rightarrow> state_operation
      \<Rightarrow> (row_id option \<times> docx_block list option) res" where
  "base_docx db ts g cur st =
     (if (wv_template cur \<noteq> None) \<noteq> (wv_docx_blocks cur \<noteq> None) then Inl ''state_docx_base_invalid''
      else if own_source_docx db g \<noteq> None then Inl ''state_docx_requires_establish''
      else
        (case wv_template cur of
           Some a \<Rightarrow>
             (case st of
                AppendState v sa ss os oa b \<Rightarrow> Inl ''state_docx_append_unsupported''
              | _ \<Rightarrow>
                  if state_docx_blocks st = None then Inl ''state_docx_blocks_missing''
                  else bind_res (prepared_template ts a) (\<lambda>x. Inr (Some a, Some (ext_blocks x))))
         | None \<Rightarrow>
             if state_docx_blocks st \<noteq> None then Inl ''state_docx_blocks_unexpected''
             else Inr (None, None)))"

definition append_output :: "pystr \<Rightarrow> pystr \<Rightarrow> append_separator \<Rightarrow> pystr option \<Rightarrow> pystr res" where
  "append_output output visible sep named =
     bind_res
       (case named of
          Some a \<Rightarrow> Inr a
        | None \<Rightarrow>
            if prefix (append_text output [] sep) visible then Inl ''state_output_addition_missing''
            else Inr visible)
       (\<lambda>addition.
          let joined = append_text output addition sep in
          if visible \<noteq> addition \<and> visible \<noteq> joined then Inl ''state_deliverable_mismatch'' else Inr joined)"

definition source_edits :: "exact_replacement list \<Rightarrow> (pystr \<times> pystr) list" where
  "source_edits rs = concat (map (\<lambda>r. case r of SourceOutputReplacement sa sr oa orp \<Rightarrow> [(sa, sr)]
                                              | OutputReplacement oa orp \<Rightarrow> []) rs)"

definition output_edits :: "exact_replacement list \<Rightarrow> (pystr \<times> pystr) list" where
  "output_edits rs = map (\<lambda>r. (output_anchor r, output_replacement r)) rs"

text \<open>Source, output and brief after an operation on the current version.\<close>

definition changed_texts ::
    "work_version_row \<Rightarrow> pystr \<Rightarrow> state_operation \<Rightarrow> (pystr \<times> pystr \<times> brief) res" where
  "changed_texts cur visible st =
     (case st of
        AppendState v sa ss os oa b \<Rightarrow>
          bind_res (append_output (wv_output cur) visible os oa) (\<lambda>out.
            Inr (append_text (wv_source cur) sa ss, out, case b of Some x \<Rightarrow> x | None \<Rightarrow> wv_brief cur))
      | ReplaceState v rs b d \<Rightarrow>
          bind_res (apply_base_replacements ''source'' (wv_source cur) (source_edits rs)) (\<lambda>src.
          bind_res (apply_base_replacements ''output'' (wv_output cur) (output_edits rs)) (\<lambda>out.
            if visible \<noteq> out then Inl ''state_deliverable_mismatch''
            else Inr (src, out, case b of Some x \<Rightarrow> x | None \<Rightarrow> wv_brief cur)))
      | FullState v s b d \<Rightarrow>
          Inr (case s of Some x \<Rightarrow> x | None \<Rightarrow> wv_source cur, visible,
               case b of Some x \<Rightarrow> x | None \<Rightarrow> wv_brief cur)
      | _ \<Rightarrow> Inl ''invalid_state_operation'')"

fun base_version :: "state_operation \<Rightarrow> int" where
  "base_version (AppendState v sa ss os oa b) = v"
| "base_version (ReplaceState v rs b d) = v"
| "base_version (FullState v s b d) = v"
| "base_version _ = 0"

fun operation_of :: "state_operation \<Rightarrow> operation" where
  "operation_of (AppendState v sa ss os oa b) = Append"
| "operation_of (ReplaceState v rs b d) = Replace"
| "operation_of (FullState v s b d) = Full"
| "operation_of _ = Establish"

definition changed_draft ::
    "database \<Rightarrow> templates \<Rightarrow> generation_row \<Rightarrow> work_version_row \<Rightarrow> pystr \<Rightarrow> state_operation \<Rightarrow> draft res" where
  "changed_draft db ts g cur visible st =
     bind_res (base_docx db ts g cur st) (\<lambda>(tmpl, bs).
     bind_res (changed_texts cur visible st) (\<lambda>(src, out, b).
       Inr \<lparr>dr_source = src, dr_output = out, dr_brief = b, dr_template = tmpl, dr_blocks = bs\<rparr>))"

text \<open>The checks shared by all branches, and the new row.\<close>

definition docx_candidates_of :: "docx_block_replacement list option \<Rightarrow> replacement_candidate list" where
  "docx_candidates_of d =
     (case d of None \<Rightarrow> []
      | Some bs \<Rightarrow> map (\<lambda>b. Replacement \<lparr>drepl_id = repl_id b, drepl_text = repl_text b\<rparr>) bs)"

definition stored_docx_blocks :: "docx_block_replacement list \<Rightarrow> json list" where
  "stored_docx_blocks bs =
     map (\<lambda>b. JDict (replacement_to_storage \<lparr>drepl_id = repl_id b, drepl_text = repl_text b\<rparr>)) bs"

definition finished_draft :: "nat \<Rightarrow> state_operation \<Rightarrow> draft \<Rightarrow> (json list option \<times> nat) res" where
  "finished_draft max_source_words st dr =
     bind_res
       (case dr_blocks dr of
          None \<Rightarrow> Inr None
        | Some template_blocks \<Rightarrow>
            bind_res (plain_text_from_replacements template_blocks (docx_candidates_of (state_docx_blocks st)))
              (\<lambda>t. if dr_output dr \<noteq> t then Inl ''state_docx_output_mismatch''
                   else Inr (map_option stored_docx_blocks (state_docx_blocks st))))
       (\<lambda>docx.
          if blank (dr_source dr) \<or> blank (dr_output dr) \<or> dr_brief dr = [] then Inl ''invalid_canonical_state''
          else if max_source_words < count_words (dr_source dr) then Inl ''state_source_word_limit''
          else Inr (docx, count_words (dr_source dr)))"

definition version_row ::
    "row_id \<Rightarrow> row_id \<Rightarrow> int \<Rightarrow> row_id option \<Rightarrow> row_id option \<Rightarrow> operation \<Rightarrow> draft \<Rightarrow> json list option \<times> nat
      \<Rightarrow> work_version_row" where
  "version_row vid item no parent cause op dr = (\<lambda>(docx, n).
     \<lparr>wv_id = vid, wv_item = item, wv_no = no, wv_parent = parent, wv_cause = cause, wv_operation = op,
      wv_source = dr_source dr, wv_output = dr_output dr, wv_words = n, wv_brief = dr_brief dr,
      wv_template = dr_template dr, wv_docx_blocks = docx\<rparr>)"

definition deactivate :: "row_id \<Rightarrow> work_item_row list \<Rightarrow> work_item_row list" where
  "deactivate i items = map (\<lambda>w. if wi_id w = i then w\<lparr>wi_active := False\<rparr> else w) items"

text \<open>The branch for an operation on the current version of the active item.\<close>

definition apply_change ::
    "nat \<Rightarrow> row_id \<Rightarrow> templates \<Rightarrow> generation_row \<Rightarrow> row_id \<Rightarrow> pystr \<Rightarrow> state_operation \<Rightarrow> database
      \<Rightarrow> database res" where
  "apply_change max_source_words version_id ts g t visible st db =
     (case active_item db t of
        None \<Rightarrow> Inl ''state_base_missing''
      | Some i \<Rightarrow>
          (case current_version db (wi_id i) of
             None \<Rightarrow> Inl ''state_base_missing''
           | Some cur \<Rightarrow>
               if base_version st \<noteq> wv_no cur then Inl ''state_base_mismatch''
               else
                 bind_res (changed_draft db ts g cur visible st) (\<lambda>dr.
                 bind_res (finished_draft max_source_words st dr) (\<lambda>fin.
                   Inr (db\<lparr>work_versions := work_versions db
                       @ [version_row version_id (wi_id i) (wv_no cur + 1) (Some (wv_id cur))
                            (gen_source g) (operation_of st) dr fin]\<rparr>)))))"

text \<open>\<^verbatim>\<open>_apply_state_operation\<close>; an error leaves the transaction uncommitted.  The drawn identifiers
  of a new work item and of the new version are arguments.\<close>

definition apply_state_operation ::
    "nat \<Rightarrow> row_id \<Rightarrow> row_id \<Rightarrow> templates \<Rightarrow> generation_row \<Rightarrow> thread_row option \<Rightarrow> protocol_document
      \<Rightarrow> database \<Rightarrow> database res" where
  "apply_state_operation max_source_words item_id version_id ts g thread document db =
     (case thread of
        None \<Rightarrow> Inl ''state_thread_missing''
      | Some th \<Rightarrow>
          if doc_state document = NoState then Inr db
          else
            bind_res (single_deliverable document) (\<lambda>visible.
            let st = doc_state document in
            case st of
              EstablishState b s d \<Rightarrow>
                bind_res (establish_draft db ts g (th_id th) visible b s d) (\<lambda>dr.
                bind_res (finished_draft max_source_words st dr) (\<lambda>fin.
                  Inr (db\<lparr>work_items := (case active_item db (th_id th) of None \<Rightarrow> work_items db
                                            | Some i \<Rightarrow> deactivate (wi_id i) (work_items db))
                              @ [\<lparr>wi_id = item_id, wi_thread = th_id th, wi_kind = work_kind_of (th_mode th),
                                  wi_active = True\<rparr>],
                          work_versions := work_versions db
                              @ [version_row version_id item_id 1 None (gen_source g) Establish dr fin]\<rparr>)))
            | _ \<Rightarrow> apply_change max_source_words version_id ts g (th_id th) visible st db))"

section \<open>Inversion\<close>

lemma finished_draft_Inr:
  assumes "finished_draft m st dr = Inr (docx, n)"
  shows "\<not> blank (dr_source dr)" "\<not> blank (dr_output dr)" "dr_brief dr \<noteq> []"
    "n = count_words (dr_source dr)" "n \<le> m"
    "dr_blocks dr = None \<Longrightarrow> docx = None"
    "dr_blocks dr = Some bs \<Longrightarrow> docx = map_option stored_docx_blocks (state_docx_blocks st)
       \<and> plain_text_from_replacements bs (docx_candidates_of (state_docx_blocks st)) = Inr (dr_output dr)"
  using assms by (auto simp: finished_draft_def res_simps split: option.splits if_splits)

lemma establish_draft_Inr:
  assumes "establish_draft db ts g t visible b s d = Inr dr"
  shows "dr_output dr = visible" "dr_brief dr = b"
    "dr_template dr = None \<longleftrightarrow> dr_blocks dr = None" "dr_blocks dr = None \<longleftrightarrow> d = None"
    "dr_template dr = Some a \<Longrightarrow> \<exists>x. map_of ts a = Some x \<and> dr_blocks dr = Some (ext_blocks x)
       \<and> dr_source dr = ext_plain_text x"
  using assms
  by (auto simp: establish_draft_def Let_def prepared_template_def res_simps split: option.splits if_splits)

lemma base_docx_Inr:
  assumes "base_docx db ts g cur st = Inr (tmpl, bs)"
  shows "tmpl = wv_template cur" "tmpl = None \<longleftrightarrow> bs = None" "bs = None \<longleftrightarrow> state_docx_blocks st = None"
    "tmpl = Some a \<Longrightarrow> \<exists>x. map_of ts a = Some x \<and> bs = Some (ext_blocks x)"
  using assms
  by (auto simp: base_docx_def prepared_template_def res_simps split: option.splits if_splits state_operation.splits)

lemma changed_draft_Inr:
  assumes "changed_draft db ts g cur visible st = Inr dr"
  shows "changed_texts cur visible st = Inr (dr_source dr, dr_output dr, dr_brief dr)"
    "base_docx db ts g cur st = Inr (dr_template dr, dr_blocks dr)"
  using assms by (auto simp: changed_draft_def res_simps)


text \<open>Every successful mutation adds exactly one version, of a new item or of the active one.\<close>

lemma apply_state_operation_cases:
  assumes "apply_state_operation m iid vid ts g th doc db = Inr db'"
  obtains (none) t where "th = Some t" "doc_state doc = NoState" "db' = db"
  | (establish) t visible b s d dr docx n where
      "th = Some t" "doc_state doc = EstablishState b s d" "single_deliverable doc = Inr visible"
      "establish_draft db ts g (th_id t) visible b s d = Inr dr"
      "finished_draft m (doc_state doc) dr = Inr (docx, n)"
      "db' = db\<lparr>work_items := (case active_item db (th_id t) of None \<Rightarrow> work_items db
                                 | Some i \<Rightarrow> deactivate (wi_id i) (work_items db))
                    @ [\<lparr>wi_id = iid, wi_thread = th_id t, wi_kind = work_kind_of (th_mode t), wi_active = True\<rparr>],
                work_versions := work_versions db @ [version_row vid iid 1 None (gen_source g) Establish dr (docx, n)]\<rparr>"
  | (change) t visible i cur dr docx n where
      "th = Some t" "doc_state doc \<noteq> NoState" "\<nexists>b s d. doc_state doc = EstablishState b s d"
      "single_deliverable doc = Inr visible" "active_item db (th_id t) = Some i"
      "current_version db (wi_id i) = Some cur" "base_version (doc_state doc) = wv_no cur"
      "changed_draft db ts g cur visible (doc_state doc) = Inr dr"
      "finished_draft m (doc_state doc) dr = Inr (docx, n)"
      "db' = db\<lparr>work_versions := work_versions db @ [version_row vid (wi_id i) (wv_no cur + 1) (Some (wv_id cur))
                  (gen_source g) (operation_of (doc_state doc)) dr (docx, n)]\<rparr>"
proof -
  obtain t where t: "th = Some t" using assms by (auto simp: apply_state_operation_def split: option.splits)
  show thesis
  proof (cases "doc_state doc = NoState")
    case True
    with assms t show thesis by (intro none) (auto simp: apply_state_operation_def)
  next
    case ns: False
    with assms t obtain visible where v: "single_deliverable doc = Inr visible"
      by (auto simp: apply_state_operation_def res_simps)
    show thesis
    proof (cases "\<exists>b s d. doc_state doc = EstablishState b s d")
      case True
      then obtain b s d where st: "doc_state doc = EstablishState b s d" by blast
      with assms t v show thesis
        by (auto simp: apply_state_operation_def Let_def res_simps intro: establish)
    next
      case False
      have "apply_change m vid ts g (th_id t) visible (doc_state doc) db = Inr db'"
        using assms t v ns False
        by (cases "doc_state doc") (simp_all add: apply_state_operation_def Let_def)
      with t v ns False show thesis
        by (auto simp: apply_change_def res_simps split: option.splits if_splits intro: change)
    qed
  qed
qed


section \<open>The version history\<close>

fun linked :: "row_id option \<Rightarrow> work_version_row list \<Rightarrow> bool" where
  "linked parent [] \<longleftrightarrow> True"
| "linked parent (v # vs) \<longleftrightarrow> wv_parent v = parent \<and> linked (Some (wv_id v)) vs"

definition version_fields_ok :: "nat \<Rightarrow> work_version_row \<Rightarrow> bool" where
  "version_fields_ok m v \<longleftrightarrow> \<not> blank (wv_source v) \<and> \<not> blank (wv_output v) \<and> wv_brief v \<noteq> []
     \<and> wv_words v = count_words (wv_source v) \<and> wv_words v \<le> m
     \<and> (wv_template v = None \<longleftrightarrow> wv_docx_blocks v = None)"

definition history_ok :: "work_version_row list \<Rightarrow> bool" where
  "history_ok vs \<longleftrightarrow> map wv_no vs = map int [1..<Suc (length vs)] \<and> linked None vs"

text \<open>Each work item has versions numbered from 1 without gaps, each the child of the one before; a
  conversation has at most one active item; every version is well formed.\<close>

definition work_ok :: "nat \<Rightarrow> database \<Rightarrow> bool" where
  "work_ok m db \<longleftrightarrow>
     distinct (map wi_id (work_items db))
     \<and> (\<forall>t. length (filter (\<lambda>i. wi_thread i = t \<and> wi_active i) (work_items db)) \<le> 1)
     \<and> (\<forall>v\<in>set (work_versions db). version_fields_ok m v \<and> wv_item v \<in> wi_id ` set (work_items db))
     \<and> (\<forall>i\<in>wi_id ` set (work_items db). item_versions db i \<noteq> [] \<and> history_ok (item_versions db i))"

lemma linked_snoc:
  "linked p (vs @ [v]) \<longleftrightarrow> linked p vs \<and> wv_parent v = (if vs = [] then p else Some (wv_id (last vs)))"
  by (induction vs arbitrary: p) auto

lemma history_ok_snoc:
  "history_ok (vs @ [v]) \<longleftrightarrow> history_ok vs \<and> wv_no v = int (length vs) + 1
     \<and> wv_parent v = (if vs = [] then None else Some (wv_id (last vs)))"
  by (auto simp: history_ok_def linked_snoc)

lemma history_current:
  assumes "history_ok vs" "vs \<noteq> []"
  shows "latest_by wv_no vs = Some (last vs)" "wv_no (last vs) = int (length vs)"
proof -
  have vs: "vs = butlast vs @ [last vs]" using assms(2) by simp
  have h: "history_ok (butlast vs @ [last vs])" using assms by simp
  then have no: "wv_no (last vs) = int (length (butlast vs)) + 1" by (simp only: history_ok_snoc)
  have "\<forall>x\<in>set (butlast vs). wv_no x < wv_no (last vs)"
  proof
    fix x assume "x \<in> set (butlast vs)"
    then have "wv_no x \<in> set (map wv_no (butlast vs))" by simp
    also have "map wv_no (butlast vs) = map int [1..<Suc (length (butlast vs))]"
      using h by (simp add: history_ok_snoc history_ok_def)
    finally show "wv_no x < wv_no (last vs)" using no by auto
  qed
  with latest_by_append [of "butlast vs" wv_no "last vs"] vs show "latest_by wv_no vs = Some (last vs)" by simp
  show "wv_no (last vs) = int (length vs)" using no assms(2) by (cases vs) auto
qed

lemma item_versions_snoc:
  "item_versions (db\<lparr>work_versions := work_versions db @ [v]\<rparr>) i =
     item_versions db i @ (if wv_item v = i then [v] else [])"
  by (simp add: item_versions_def)

lemma active_item_Some: "active_item db t = Some i \<Longrightarrow> i \<in> set (work_items db) \<and> wi_thread i = t \<and> wi_active i"
  unfolding active_item_def by (drule find_Some_member) auto

lemma active_item_None: "active_item db t = None \<Longrightarrow> filter (\<lambda>i. wi_thread i = t \<and> wi_active i) (work_items db) = []"
  by (auto simp: active_item_def find_None_iff filter_empty_conv)

lemma deactivate_ids [simp]: "map wi_id (deactivate i items) = map wi_id items"
  by (simp add: deactivate_def o_def)

lemma deactivate_ids_set [simp]: "wi_id ` set (deactivate i items) = wi_id ` set items"
  by (metis deactivate_ids image_set)

lemma deactivate_filter:
  "filter (\<lambda>w. wi_thread w = t \<and> wi_active w) (deactivate i items) =
     filter (\<lambda>w. wi_id w \<noteq> i) (filter (\<lambda>w. wi_thread w = t \<and> wi_active w) items)"
  by (induction items) (auto simp: deactivate_def)

lemma version_row_simps [simp]:
  "wv_id (version_row vid i no p c op dr fin) = vid" "wv_item (version_row vid i no p c op dr fin) = i"
  "wv_no (version_row vid i no p c op dr fin) = no" "wv_parent (version_row vid i no p c op dr fin) = p"
  "wv_cause (version_row vid i no p c op dr fin) = c" "wv_operation (version_row vid i no p c op dr fin) = op"
  "wv_source (version_row vid i no p c op dr fin) = dr_source dr" "wv_output (version_row vid i no p c op dr fin) = dr_output dr"
  "wv_words (version_row vid i no p c op dr fin) = snd fin" "wv_brief (version_row vid i no p c op dr fin) = dr_brief dr"
  "wv_template (version_row vid i no p c op dr fin) = dr_template dr" "wv_docx_blocks (version_row vid i no p c op dr fin) = fst fin"
  by (cases fin; simp add: version_row_def)+

lemma new_version_fields:
  assumes "finished_draft m st dr = Inr (docx, n)" "dr_template dr = None \<longleftrightarrow> dr_blocks dr = None"
    "dr_blocks dr = None \<longleftrightarrow> state_docx_blocks st = None"
  shows "version_fields_ok m (version_row vid i no p c op dr (docx, n))"
  using finished_draft_Inr [OF assms(1)] assms(2,3)
  by (cases "dr_blocks dr") (auto simp: version_fields_ok_def)

lemma one_active_after_establish:
  assumes "\<forall>t. length (filter (\<lambda>i. wi_thread i = t \<and> wi_active i) (work_items db)) \<le> 1"
  shows "length (filter (\<lambda>i. wi_thread i = t \<and> wi_active i)
    ((case active_item db t0 of None \<Rightarrow> work_items db | Some i \<Rightarrow> deactivate (wi_id i) (work_items db))
      @ [\<lparr>wi_id = iid, wi_thread = t0, wi_kind = k, wi_active = True\<rparr>])) \<le> 1"
proof (cases "active_item db t0")
  case None
  with assms active_item_None [OF None] show ?thesis by (cases "t = t0") auto
next
  case (Some i)
  let ?f = "filter (\<lambda>i. wi_thread i = t \<and> wi_active i) (work_items db)"
  have l: "length (filter (\<lambda>w. wi_id w \<noteq> wi_id i) ?f) \<le> length ?f" by (rule length_filter_le)
  show ?thesis
  proof (cases "t = t0")
    case True
    have "i \<in> set ?f" using active_item_Some [OF Some] True by auto
    then have "?f = [i]" using assms [rule_format, of t] by (cases ?f) auto
    with Some True show ?thesis by (simp add: deactivate_filter del: filter_filter)
  next
    case False
    then show ?thesis
      using order.trans [OF l assms [rule_format, of t]] Some by (simp add: deactivate_filter del: filter_filter)
  qed
qed

lemma work_ok_preserved:
  assumes inv: "work_ok m db" and fresh: "iid \<notin> wi_id ` set (work_items db)"
    and app: "apply_state_operation m iid vid ts g th doc db = Inr db'"
  shows "work_ok m db'"
  using app
proof (cases rule: apply_state_operation_cases)
  case none
  with inv show ?thesis by simp
next
  case (establish t visible b s d dr docx n)
  have nv: "version_fields_ok m (version_row vid iid 1 None (gen_source g) Establish dr (docx, n))"
    by (rule new_version_fields [OF establish(5)]) (use establish_draft_Inr [OF establish(4)] establish(2) in auto)
  have none: "item_versions db iid = []"
    using inv fresh by (auto simp: work_ok_def item_versions_def filter_empty_conv)
  have ids: "wi_id ` set (work_items db') = insert iid (wi_id ` set (work_items db))"
    using establish(6) by (auto split: option.splits)
  have vs: "item_versions db' i = item_versions db i @ (if i = iid then [version_row vid iid 1 None (gen_source g) Establish dr (docx, n)] else [])" for i
    using establish(6) by (auto simp: item_versions_def)
  have h: "\<forall>i\<in>wi_id ` set (work_items db'). item_versions db' i \<noteq> [] \<and> history_ok (item_versions db' i)"
    unfolding ids vs using inv none by (auto simp: work_ok_def history_ok_def)
  have "distinct (map wi_id (work_items db'))"
    using establish(6) inv fresh by (auto simp: work_ok_def split: option.splits simp flip: image_set)
  moreover have "\<forall>t. length (filter (\<lambda>i. wi_thread i = t \<and> wi_active i) (work_items db')) \<le> 1"
    using one_active_after_establish [of db] inv establish(6) by (auto simp: work_ok_def)
  moreover have "\<forall>v\<in>set (work_versions db'). version_fields_ok m v \<and> wv_item v \<in> wi_id ` set (work_items db')"
    unfolding ids using establish(6) inv nv by (auto simp: work_ok_def)
  ultimately show ?thesis using h by (simp add: work_ok_def)
next
  case (change t visible i cur dr docx n)
  let ?v = "version_row vid (wi_id i) (wv_no cur + 1) (Some (wv_id cur)) (gen_source g) (operation_of (doc_state doc)) dr (docx, n)"
  have item: "wi_id i \<in> wi_id ` set (work_items db)" using active_item_Some [OF change(5)] by auto
  then have hi: "history_ok (item_versions db (wi_id i))" "item_versions db (wi_id i) \<noteq> []"
    using inv by (auto simp: work_ok_def)
  have cur: "cur = last (item_versions db (wi_id i))" "wv_no cur = int (length (item_versions db (wi_id i)))"
    using change(6) history_current [OF hi] by (auto simp: current_version_def)
  note draft = changed_draft_Inr [OF change(8)]
  have nv: "version_fields_ok m ?v"
    by (rule new_version_fields [OF change(9)]) (use base_docx_Inr [OF draft(2)] in auto)
  have vs: "item_versions db' j = item_versions db j @ (if wi_id i = j then [?v] else [])" for j
    unfolding change(10) by (simp add: item_versions_snoc)
  have h: "\<forall>j\<in>wi_id ` set (work_items db). item_versions db' j \<noteq> [] \<and> history_ok (item_versions db' j)"
    unfolding vs using inv hi cur by (auto simp: work_ok_def history_ok_snoc)
  have "\<forall>v\<in>set (work_versions db'). version_fields_ok m v \<and> wv_item v \<in> wi_id ` set (work_items db)"
    using change(10) inv nv item by (auto simp: work_ok_def)
  with h inv change(10) show ?thesis by (simp add: work_ok_def)
qed


section \<open>What one mutation does\<close>

lemma short_list_unique: "length xs \<le> 1 \<Longrightarrow> x \<in> set xs \<Longrightarrow> y \<in> set xs \<Longrightarrow> x = y"
  by (cases xs) auto

lemma latest_is_current:
  assumes "work_ok m db" "active_item db t = Some i"
  shows "latest_work_version db t = current_version db (wi_id i)"
proof -
  have i: "i \<in> set (work_items db)" "wi_thread i = t" "wi_active i" using active_item_Some [OF assms(2)] by auto
  have only: "j = i" if "j \<in> set (work_items db)" "wi_thread j = t" "wi_active j" for j
  proof -
    have "length (filter (\<lambda>i. wi_thread i = t \<and> wi_active i) (work_items db)) \<le> 1"
      using assms(1) by (simp add: work_ok_def)
    moreover have "i \<in> set (filter (\<lambda>i. wi_thread i = t \<and> wi_active i) (work_items db))"
      "j \<in> set (filter (\<lambda>i. wi_thread i = t \<and> wi_active i) (work_items db))"
      using i that by auto
    ultimately show ?thesis by (metis short_list_unique)
  qed
  have "(\<exists>j\<in>set (work_items db). wi_id j = wv_item v \<and> wi_thread j = t \<and> wi_active j) \<longleftrightarrow> wv_item v = wi_id i" for v :: work_version_row
    using only i by metis
  then show ?thesis by (simp only: latest_work_version_def current_version_def item_versions_def)
qed

lemma active_item_establish:
  assumes "work_ok m db" "iid \<notin> wi_id ` set (work_items db)"
  shows "active_item (db\<lparr>work_items := (case active_item db t of None \<Rightarrow> work_items db
        | Some i \<Rightarrow> deactivate (wi_id i) (work_items db))
      @ [\<lparr>wi_id = iid, wi_thread = t, wi_kind = k, wi_active = True\<rparr>], work_versions := vs\<rparr>) t
    = Some \<lparr>wi_id = iid, wi_thread = t, wi_kind = k, wi_active = True\<rparr>"
proof -
  let ?old = "case active_item db t of None \<Rightarrow> work_items db | Some i \<Rightarrow> deactivate (wi_id i) (work_items db)"
  let ?new = "\<lparr>wi_id = iid, wi_thread = t, wi_kind = k, wi_active = True\<rparr>"
  have "length (filter (\<lambda>i. wi_thread i = t \<and> wi_active i) (?old @ [?new])) \<le> 1"
    by (rule one_active_after_establish) (use assms(1) in \<open>simp add: work_ok_def\<close>)
  then have "filter (\<lambda>i. wi_thread i = t \<and> wi_active i) ?old = []" by simp
  then have "find (\<lambda>i. wi_thread i = t \<and> wi_active i) ?old = None"
    by (auto simp: find_None_iff filter_empty_conv)
  moreover have "find P (xs @ [y]) = (case find P xs of None \<Rightarrow> if P y then Some y else None | Some z \<Rightarrow> Some z)" for P xs and y :: work_item_row
    by (induction xs) auto
  ultimately show ?thesis by (simp add: active_item_def)
qed

lemma mutation_effect:
  assumes inv: "work_ok m db" and fresh: "iid \<notin> wi_id ` set (work_items db)"
    and app: "apply_state_operation m iid vid ts g (Some t) doc db = Inr db'" and "doc_state doc \<noteq> NoState"
  obtains v where "work_versions db' = work_versions db @ [v]" "latest_work_version db' (th_id t) = Some v"
    "db'\<lparr>work_items := work_items db, work_versions := work_versions db\<rparr> = db" "wv_id v = vid"
    "wv_operation v = operation_of (doc_state doc)"
    "\<nexists>b s d. doc_state doc = EstablishState b s d \<Longrightarrow> \<exists>cur. latest_work_version db (th_id t) = Some cur
       \<and> base_version (doc_state doc) = wv_no cur \<and> wv_no v = wv_no cur + 1
       \<and> wv_parent v = Some (wv_id cur) \<and> wv_item v = wv_item cur
       \<and> (\<exists>visible. single_deliverable doc = Inr visible \<and>
            changed_texts cur visible (doc_state doc) = Inr (wv_source v, wv_output v, wv_brief v))
       \<and> wv_template v = wv_template cur"
    "\<exists>b s d. doc_state doc = EstablishState b s d \<Longrightarrow> wv_no v = 1 \<and> wv_parent v = None
       \<and> wv_item v \<notin> wi_id ` set (work_items db) \<and> single_deliverable doc = Inr (wv_output v)"
    "\<And>a. wv_template v = Some a \<Longrightarrow> \<exists>x bs. map_of ts a = Some x \<and> state_docx_blocks (doc_state doc) = Some bs
       \<and> plain_text_from_replacements (ext_blocks x) (docx_candidates_of (Some bs)) = Inr (wv_output v)
       \<and> wv_docx_blocks v = Some (stored_docx_blocks bs)"
  using app
proof (cases rule: apply_state_operation_cases)
  case none
  with assms(4) show ?thesis by simp
next
  case (establish u visible b s d dr docx n)
  let ?v = "version_row vid iid 1 None (gen_source g) Establish dr (docx, n)"
  note ed = establish_draft_Inr [OF establish(4)]
  have ok: "work_ok m db'" by (rule work_ok_preserved [OF inv fresh app])
  have act: "active_item db' (th_id t) = Some \<lparr>wi_id = iid, wi_thread = th_id t, wi_kind = work_kind_of (th_mode t), wi_active = True\<rparr>"
    using active_item_establish [OF inv fresh, where t = "th_id t"] establish(1,6) by simp
  have "item_versions db iid = []"
    using inv fresh by (auto simp: work_ok_def item_versions_def filter_empty_conv)
  then have "item_versions db' iid = [?v]" using establish(6) by (simp add: item_versions_def)
  then have lat: "latest_work_version db' (th_id t) = Some ?v"
    using latest_is_current [OF ok act] by (simp add: current_version_def)
  show ?thesis
  proof (rule that [of ?v])
    fix a assume "wv_template ?v = Some a"
    then obtain x where x: "map_of ts a = Some x" "dr_blocks dr = Some (ext_blocks x)" using ed(5) by auto
    with finished_draft_Inr(7) [OF establish(5)] ed(4) establish(2)
    show "\<exists>x bs. map_of ts a = Some x \<and> state_docx_blocks (doc_state doc) = Some bs
       \<and> plain_text_from_replacements (ext_blocks x) (docx_candidates_of (Some bs)) = Inr (wv_output ?v)
       \<and> wv_docx_blocks ?v = Some (stored_docx_blocks bs)" by auto
  qed (use establish lat fresh ed in auto)
next
  case (change u visible i cur dr docx n)
  let ?v = "version_row vid (wi_id i) (wv_no cur + 1) (Some (wv_id cur)) (gen_source g) (operation_of (doc_state doc)) dr (docx, n)"
  note draft = changed_draft_Inr [OF change(8)]
  have ok: "work_ok m db'" by (rule work_ok_preserved [OF inv fresh app])
  have act: "active_item db' (th_id t) = Some i" using change(1,5,10) by (simp add: active_item_def)
  have cur: "latest_work_version db (th_id t) = Some cur" "wv_item cur = wi_id i"
    using latest_is_current [OF inv] change(1,5,6) latest_by_Some [of wv_no "item_versions db (wi_id i)" cur]
    by (auto simp: current_version_def item_versions_def)
  have hi: "history_ok (item_versions db' (wi_id i))" "item_versions db' (wi_id i) \<noteq> []"
    using ok active_item_Some [OF act] by (auto simp: work_ok_def)
  have "last (item_versions db' (wi_id i)) = ?v" using change(10) by (simp add: item_versions_snoc)
  then have lat: "latest_work_version db' (th_id t) = Some ?v"
    using latest_is_current [OF ok act] history_current [OF hi] by (simp add: current_version_def)
  show ?thesis
  proof (rule that [of ?v])
    fix a assume "wv_template ?v = Some a"
    then obtain x where x: "map_of ts a = Some x" "dr_blocks dr = Some (ext_blocks x)"
      using base_docx_Inr(4) [OF draft(2)] by auto
    with finished_draft_Inr(7) [OF change(9)] base_docx_Inr(3) [OF draft(2)]
    show "\<exists>x bs. map_of ts a = Some x \<and> state_docx_blocks (doc_state doc) = Some bs
       \<and> plain_text_from_replacements (ext_blocks x) (docx_candidates_of (Some bs)) = Inr (wv_output ?v)
       \<and> wv_docx_blocks ?v = Some (stored_docx_blocks bs)" by auto
  qed (use change lat cur draft base_docx_Inr(1) [OF draft(2)] in auto)
qed


section \<open>Guarantees of canonical work\<close>

text \<open>A conversation with nothing established, and two responses: one that establishes work and one
  that replaces a word in it.\<close>

definition demo_thread :: thread_row where
  "demo_thread = \<lparr>th_id = ''t'', th_owner = ''u'', th_mode = Translate, th_title = None, th_summary = None,
     th_summary_through = None, th_updated = 0\<rparr>"

definition demo_generation :: generation_row where
  "demo_generation = \<lparr>gen_id = ''g'', gen_thread = Some ''t'', gen_requester = ''u'', gen_source = Some ''m'',
     gen_result = None, gen_retry_of = None, gen_client_request = ''r'', gen_purpose = Chat, gen_status = Running,
     gen_partial = [], gen_revision = 1, gen_provider_request = None, gen_provider_generation = None,
     gen_error = None, gen_started = None, gen_finished = None, gen_created = 0\<rparr>"

definition empty_db :: database where
  "empty_db = \<lparr>threads = [demo_thread], messages = [], attachments = [], generations = [demo_generation],
     work_items = [], work_versions = [], usage_events = []\<rparr>"

definition demo_establish :: protocol_document where
  "demo_establish = \<lparr>doc_blocks = [\<lparr>block_type = Deliverable, block_text = lit ''a cat''\<rparr>],
     doc_state = EstablishState [(lit ''k'', JNull)] (Some (lit ''un chat'')) None\<rparr>"

definition demo_replace :: protocol_document where
  "demo_replace = \<lparr>doc_blocks = [\<lparr>block_type = Deliverable, block_text = lit ''a dog''\<rparr>],
     doc_state = ReplaceState 1 [OutputReplacement (lit ''cat'') (lit ''dog'')] None None\<rparr>"

definition demo_v1 :: work_version_row where
  "demo_v1 = \<lparr>wv_id = ''v1'', wv_item = ''i1'', wv_no = 1, wv_parent = None, wv_cause = Some ''m'',
     wv_operation = Establish, wv_source = lit ''un chat'', wv_output = lit ''a cat'', wv_words = 2,
     wv_brief = [(lit ''k'', JNull)], wv_template = None, wv_docx_blocks = None\<rparr>"

definition demo_db1 :: database where
  "demo_db1 = empty_db\<lparr>work_items := [\<lparr>wi_id = ''i1'', wi_thread = ''t'', wi_kind = TranslationWork, wi_active = True\<rparr>],
     work_versions := [demo_v1]\<rparr>"

definition demo_v2 :: work_version_row where
  "demo_v2 = demo_v1\<lparr>wv_id := ''v2'', wv_no := 2, wv_parent := Some ''v1'', wv_operation := Replace,
     wv_output := lit ''a dog''\<rparr>"

lemmas demo_work_defs = demo_thread_def demo_generation_def empty_db_def demo_establish_def demo_replace_def
  demo_v1_def demo_db1_def demo_v2_def

lemma demo_work_established:
  "apply_state_operation 100 ''i1'' ''v1'' [] demo_generation (Some demo_thread) demo_establish empty_db = Inr demo_db1"
  by (simp add: demo_work_defs apply_state_operation_def single_deliverable_def establish_draft_def
      own_source_docx_def finished_draft_def blank_iff py_space_def count_words_def version_row_def
      active_item_def lit_def)

lemma demo_work_replaced:
  "apply_state_operation 100 ''i2'' ''v2'' [] demo_generation (Some demo_thread) demo_replace demo_db1
     = Inr (demo_db1\<lparr>work_versions := [demo_v1, demo_v2]\<rparr>)"
  by (simp add: demo_work_defs apply_state_operation_def single_deliverable_def apply_change_def changed_draft_def
      base_docx_def changed_texts_def source_edits_def output_edits_def apply_base_replacements_def
      replacement_span_def find_from_def apply_edit_def
      own_source_docx_def finished_draft_def blank_iff py_space_def count_words_def version_row_def
      active_item_def current_version_def item_versions_def lit_def)

lemma demo_work_ok: "work_ok 100 empty_db" "work_ok 100 demo_db1"
  by (simp_all add: work_ok_def demo_work_defs version_fields_ok_def history_ok_def item_versions_def
      blank_iff py_space_def count_words_def lit_def)

text \<open>C7: canonical work stays well formed.  Whatever a validated response asks for, the stored work
  keeps at most one active item per conversation, gap-free version numbers with each version the
  child of the one before, non-blank texts with a brief, the exact word count within the limit,
  and DOCX blocks exactly when there is a template.\<close>

theorem work_state_invariant:
  assumes "work_ok m db" "iid \<notin> wi_id ` set (work_items db)"
    and "apply_state_operation m iid vid ts g th doc db = Inr db'"
  shows "work_ok m db'"
  by (rule work_ok_preserved [OF assms])

theorem work_state_invariant_witness: "work_ok 100 (demo_db1\<lparr>work_versions := [demo_v1, demo_v2]\<rparr>)"
  by (rule work_state_invariant [OF demo_work_ok(2) _ demo_work_replaced]) (simp add: demo_work_defs)

text \<open>C23: a mutation extends history and never rewrites it.  Exactly one version is added, it becomes
  the latest of the conversation, all other tables are untouched, and an operation on existing work
  applies only to the version the model saw: its base is the latest version, and the new version is
  its child with the next number.\<close>

theorem mutation_extends_history:
  assumes "work_ok m db" "iid \<notin> wi_id ` set (work_items db)"
    and "apply_state_operation m iid vid ts g (Some t) doc db = Inr db'" "doc_state doc \<noteq> NoState"
  shows "\<exists>v. work_versions db' = work_versions db @ [v] \<and> latest_work_version db' (th_id t) = Some v
    \<and> db'\<lparr>work_items := work_items db, work_versions := work_versions db\<rparr> = db
    \<and> (if \<exists>b s d. doc_state doc = EstablishState b s d
       then wv_no v = 1 \<and> wv_parent v = None \<and> wv_item v \<notin> wi_id ` set (work_items db)
       else \<exists>cur. latest_work_version db (th_id t) = Some cur \<and> base_version (doc_state doc) = wv_no cur
              \<and> wv_no v = wv_no cur + 1 \<and> wv_parent v = Some (wv_id cur) \<and> wv_item v = wv_item cur)"
proof (rule mutation_effect [OF assms], goal_cases)
  case (1 v)
  then show ?case by (intro exI [of _ v]) auto
qed

theorem mutation_extends_history_witness:
  "\<exists>v. [demo_v1, demo_v2] = [demo_v1] @ [v] \<and> wv_no v = wv_no demo_v1 + 1"
  using mutation_extends_history [OF demo_work_ok(2) _ demo_work_replaced]
  by (auto simp: demo_work_defs)




text \<open>C25: a version with a Word template is consistent with it.  Its stored block texts were validated
  against the blocks of that very template, and the plain text they produce is the stored output.\<close>

theorem docx_version_consistent:
  assumes "work_ok m db" "iid \<notin> wi_id ` set (work_items db)"
    and "apply_state_operation m iid vid ts g (Some t) doc db = Inr db'" "doc_state doc \<noteq> NoState"
    and "latest_work_version db' (th_id t) = Some v" "wv_template v = Some a"
  shows "\<exists>x bs rs. map_of ts a = Some x \<and> state_docx_blocks (doc_state doc) = Some bs
    \<and> validate_replacements (ext_blocks x) (docx_candidates_of (Some bs)) = Inr rs
    \<and> plain_text_from_validated rs = Inr (wv_output v) \<and> wv_docx_blocks v = Some (stored_docx_blocks bs)"
proof (rule mutation_effect [OF assms(1-4)], goal_cases)
  case (1 w)
  then have "w = v" using assms(5) by simp
  with "1"(8) [of a] assms(6) show ?case by (auto simp: plain_text_from_replacements_def res_simps)
qed

definition demo_template :: extracted_docx where
  "demo_template = \<lparr>ext_blocks = demo_blocks, ext_plain_text = lit ''Hello''\<rparr>"

definition demo_docx_db :: database where
  "demo_docx_db = empty_db\<lparr>attachments := [\<lparr>att_id = ''a'', att_message = ''m'', att_storage = ''a.docx'',
     att_name = lit ''h.docx'', att_role = SourceDocument, att_blocks = JNull, att_bytes = 1, att_words = 1,
     att_sha256 = ''h''\<rparr>]\<rparr>"

definition demo_docx_establish :: protocol_document where
  "demo_docx_establish = \<lparr>doc_blocks = [\<lparr>block_type = Deliverable, block_text = lit ''Bonjour''\<rparr>],
     doc_state = EstablishState [(lit ''k'', JNull)] None
       (Some [\<lparr>repl_id = lit ''p000001'', repl_text = lit ''Bonjour''\<rparr>])\<rparr>"

lemma demo_docx_plain:
  "plain_text_from_replacements demo_blocks demo_replacements = Inr (lit ''Bonjour'')"
  by (simp add: plain_text_from_replacements_def demo_validated plain_text_from_validated_def short_link_parts)

lemma demo_docx_established:
  "\<exists>db' v. apply_state_operation 100 ''i1'' ''v1'' [(''a'', demo_template)] demo_generation (Some demo_thread)
       demo_docx_establish demo_docx_db = Inr db'
     \<and> latest_work_version db' (th_id demo_thread) = Some v \<and> wv_template v = Some ''a''"
  using demo_docx_plain
  by (simp add: demo_work_defs demo_docx_db_def demo_docx_establish_def apply_state_operation_def
      single_deliverable_def establish_draft_def own_source_docx_def finished_draft_def prepared_template_def
      demo_template_def docx_candidates_of_def demo_replacements_def blank_iff py_space_def count_words_def
      active_item_def latest_work_version_def lit_def)

theorem docx_version_consistent_witness:
  "\<exists>x bs rs. map_of [(''a'', demo_template)] ''a'' = Some x
    \<and> state_docx_blocks (doc_state demo_docx_establish) = Some bs
    \<and> validate_replacements (ext_blocks x) (docx_candidates_of (Some bs)) = Inr rs"
proof -
  obtain db' v where d: "apply_state_operation 100 ''i1'' ''v1'' [(''a'', demo_template)] demo_generation
      (Some demo_thread) demo_docx_establish demo_docx_db = Inr db'"
    "latest_work_version db' (th_id demo_thread) = Some v" "wv_template v = Some ''a''"
    using demo_docx_established by blast
  have ok: "work_ok 100 demo_docx_db" by (simp add: work_ok_def demo_docx_db_def empty_db_def)
  have fresh: "''i1'' \<notin> wi_id ` set (work_items demo_docx_db)" by (simp add: demo_docx_db_def empty_db_def)
  have st: "doc_state demo_docx_establish \<noteq> NoState" by (simp add: demo_docx_establish_def)
  from docx_version_consistent [OF ok fresh d(1) st d(2,3)] show ?thesis by blast
qed

end
