(* ===== verification/Lifecycle.thy ===== *)
theory Lifecycle
  imports Work_State "HOL-Library.Char_ord" "HOL-Library.Product_Lexorder"
begin

text \<open>
  The life of a generation (\<^verbatim>\<open>src/oveo/generation.py\<close>): submitting a turn, retry and handoff, the
  compare-and-set status transitions, committing an answer, stop, failure, restart, and the
  deletion of a conversation (\<^verbatim>\<open>src/oveo/api.py\<close>).  Each definition is one committed transaction;
  \<open>Inl\<close> is an exception, after which the transaction is rolled back.
\<close>


section \<open>Stored attachment names\<close>

text \<open>\<^verbatim>\<open>is_managed_attachment_name\<close>: a lower-case UUID followed by \<^verbatim>\<open>.docx\<close>.\<close>

definition lower_hex :: "char \<Rightarrow> bool" where
  "lower_hex c \<longleftrightarrow> c \<in> set ''0123456789abcdef''"

definition uuid_text :: "string \<Rightarrow> bool" where
  "uuid_text s \<longleftrightarrow> length s = 36 \<and>
     list_all (\<lambda>(i, c). if i \<in> {8, 13, 18, 23} then c = CHR ''-'' else lower_hex c) (zip [0..<36] s)"

definition is_managed_attachment_name :: "string \<Rightarrow> bool" where
  "is_managed_attachment_name s \<longleftrightarrow> drop 36 s = ''.docx'' \<and> uuid_text (take 36 s)"

text \<open>\<^verbatim>\<open>persist_attachment\<close>: the directory as the list of its file names.\<close>

definition persist_attachment :: "string list \<Rightarrow> string \<Rightarrow> string list res" where
  "persist_attachment files name =
     (if \<not> is_managed_attachment_name name then Inl ''ValueError''
      else if name \<in> set files then Inl ''FileExistsError''
      else Inr (files @ [name]))"

section \<open>Status transitions\<close>

definition is_terminal :: "status \<Rightarrow> bool" where
  "is_terminal s \<longleftrightarrow> s \<in> {Completed, Failed, Stopped}"

definition transition ::
    "time \<Rightarrow> row_id \<Rightarrow> status list \<Rightarrow> status \<Rightarrow> (generation_row \<Rightarrow> generation_row) \<Rightarrow> database
      \<Rightarrow> database \<times> bool" where
  "transition now g allowed s upd db =
     (let hit = (\<lambda>r. gen_id r = g \<and> gen_status r \<in> set allowed);
          new = (\<lambda>r. (upd r)\<lparr>gen_status := s, gen_revision := gen_revision r + 1,
                             gen_finished := (if is_terminal s then Some now else gen_finished r)\<rparr>)
      in (db\<lparr>generations := map (\<lambda>r. if hit r then new r else r) (generations db)\<rparr>,
          length (filter hit (generations db)) = 1))"

definition cleared :: "string option \<Rightarrow> content_block list \<Rightarrow> generation_row \<Rightarrow> generation_row" where
  "cleared code bs r = r\<lparr>gen_error := code, gen_partial := bs\<rparr>"

definition set_running :: "time \<Rightarrow> row_id \<Rightarrow> database \<Rightarrow> database \<times> generation_row option" where
  "set_running now g db =
     (case transition now g [Queued] Running (\<lambda>r. r\<lparr>gen_started := Some now\<rparr>) db of
        (db', ok) \<Rightarrow> if ok then (db', the_generation db' g) else (db, None))"

definition finish_stopped :: "time \<Rightarrow> row_id \<Rightarrow> database \<Rightarrow> database" where
  "finish_stopped now g db = fst (transition now g active_statuses Stopped (cleared None []) db)"

text \<open>The codes \<^verbatim>\<open>_ERROR_MESSAGES\<close> knows; any other failure is recorded as \<^verbatim>\<open>provider_error\<close>.\<close>

definition error_codes :: "string list" where
  "error_codes =
     [''provider_not_configured'', ''provider_misconfigured'', ''provider_network'', ''provider_transient'',
      ''provider_rejected'', ''provider_stream_error'', ''provider_timeout'', ''provider_content_filtered'',
      ''response_too_long'', ''protocol_error'', ''stale_state'', ''state_persistence_failed'',
      ''docx_template_outdated'', ''attachment_unavailable'', ''attachment_unreadable'',
      ''context_unavailable'', ''context_compaction_failed'', ''handoff_turn_too_large'',
      ''restart_interrupted'', ''generation_interrupted'', ''context_budget_exceeded'', ''provider_error'']"

definition recorded_code :: "code \<Rightarrow> code" where
  "recorded_code c = (if c \<in> set error_codes then c else ''provider_error'')"

definition fail :: "time \<Rightarrow> row_id \<Rightarrow> code \<Rightarrow> content_block list \<Rightarrow> database \<Rightarrow> database \<times> status option" where
  "fail now g code bs db =
     (case transition now g [Queued, Running] Failed (cleared (Some (recorded_code code)) bs) db of
        (db1, True) \<Rightarrow> (db1, Some Failed)
      | (db1, False) \<Rightarrow>
          (case transition now g [Stopping] Stopped (cleared None []) db1 of
             (db2, True) \<Rightarrow> (db2, Some Stopped)
           | (db2, False) \<Rightarrow> (db2, None)))"

text \<open>\<^verbatim>\<open>stop\<close>: \<open>live\<close> says whether a task of this process still owns the generation.\<close>

definition stop :: "time \<Rightarrow> bool \<Rightarrow> row_id \<Rightarrow> database \<Rightarrow> database res" where
  "stop now live g db =
     (case transition now g [Queued, Running] Stopping id db of
        (db1, requested) \<Rightarrow>
          if requested then Inr (if live then db1 else finish_stopped now g db1)
          else
            (case the_generation db1 g of
               None \<Rightarrow> Inl ''generation_not_found''
             | Some r \<Rightarrow>
                 if gen_status r \<noteq> Stopping then Inr db1
                 else Inr (if live then db1 else finish_stopped now g db1)))"

definition reconcile_orphans :: "time \<Rightarrow> database \<Rightarrow> database \<times> nat" where
  "reconcile_orphans now db =
     (let bump = (\<lambda>r. r\<lparr>gen_revision := gen_revision r + 1\<rparr>);
          answered = (\<lambda>r. gen_result r \<noteq> None \<and> gen_status r \<noteq> Completed);
          g1 = map (\<lambda>r. if answered r
                        then (bump r)\<lparr>gen_status := Completed, gen_error := None,
                               gen_finished := (case gen_finished r of None \<Rightarrow> Some now | Some t \<Rightarrow> Some t)\<rparr>
                        else r) (generations db);
          stopped = (\<lambda>r. gen_status r = Stopping);
          g2 = map (\<lambda>r. if stopped r
                        then (cleared None [] (bump r))\<lparr>gen_status := Stopped, gen_finished := Some now\<rparr>
                        else r) g1;
          interrupted = (\<lambda>r. gen_status r \<in> {Queued, Running});
          g3 = map (\<lambda>r. if interrupted r
                        then (cleared (Some ''restart_interrupted'') [] (bump r))
                               \<lparr>gen_status := Failed, gen_finished := Some now\<rparr>
                        else r) g2
      in (db\<lparr>generations := g3\<rparr>,
          length (filter answered (generations db)) + length (filter stopped g1) + length (filter interrupted g2)))"

text \<open>\<^verbatim>\<open>_finalize_orphans\<close>: finish the active rows of a conversation that no live task owns.\<close>

fun finalize_rows ::
    "time \<Rightarrow> row_id list \<Rightarrow> (row_id \<times> status) list \<Rightarrow> database \<Rightarrow> database \<times> row_id list" where
  "finalize_rows now live [] db = (db, [])"
| "finalize_rows now live ((g, s) # rows) db =
     (if g \<in> set live then finalize_rows now live rows db
      else
        (case (if s = Stopping then transition now g [Stopping] Stopped (cleared None []) db
               else transition now g [Queued, Running] Failed (cleared (Some ''generation_interrupted'') []) db) of
           (db1, done) \<Rightarrow>
             (case finalize_rows now live rows db1 of
                (db2, ids) \<Rightarrow> (db2, if done then g # ids else ids))))"

definition finalize_orphans :: "time \<Rightarrow> row_id list \<Rightarrow> row_id \<Rightarrow> database \<Rightarrow> database \<times> row_id list" where
  "finalize_orphans now live t db =
     finalize_rows now live
       (map (\<lambda>r. (gen_id r, gen_status r))
         (filter (\<lambda>r. gen_thread r = Some t \<and> is_active (gen_status r)) (generations db))) db"

section \<open>Messages and requests\<close>

definition thread_messages :: "database \<Rightarrow> row_id \<Rightarrow> message_row list" where
  "thread_messages db t = filter (\<lambda>m. msg_thread m = t) (messages db)"

definition next_ordinal :: "database \<Rightarrow> row_id \<Rightarrow> nat" where
  "next_ordinal db t = fold max (map msg_ordinal (thread_messages db t)) 0 + 1"

definition insert_message ::
    "row_id \<Rightarrow> row_id \<Rightarrow> message_role \<Rightarrow> row_id option \<Rightarrow> content_block list \<Rightarrow> database \<Rightarrow> database" where
  "insert_message mid t role actor content db =
     db\<lparr>messages := messages db @
          [\<lparr>msg_id = mid, msg_thread = t, msg_ordinal = next_ordinal db t, msg_role = role, msg_actor = actor,
            msg_content = content\<rparr>]\<rparr>"

definition touch_thread :: "time \<Rightarrow> row_id \<Rightarrow> database \<Rightarrow> database" where
  "touch_thread now t db =
     db\<lparr>threads := map (\<lambda>r. if th_id r = t then r\<lparr>th_updated := now\<rparr> else r) (threads db)\<rparr>"

definition existing_request :: "database \<Rightarrow> row_id \<Rightarrow> string \<Rightarrow> generation_row option res" where
  "existing_request db requester request_id =
     (case find (\<lambda>r. gen_requester r = requester \<and> gen_client_request r = request_id) (generations db) of
        None \<Rightarrow> Inr None
      | Some r \<Rightarrow>
          (case gen_thread r of
             None \<Rightarrow> Inl ''thread_not_found''
           | Some t \<Rightarrow>
               (case the_thread db t of
                  None \<Rightarrow> Inl ''thread_not_found''
                | Some th \<Rightarrow> if th_owner th \<noteq> requester then Inl ''thread_not_found'' else Inr (Some r))))"

text \<open>The unique indexes of the generation table, checked when a row is inserted.\<close>

definition generation_conflict :: "generation_row \<Rightarrow> database \<Rightarrow> bool" where
  "generation_conflict g db \<longleftrightarrow> (\<exists>r\<in>set (generations db).
     gen_id r = gen_id g
     \<or> (gen_requester r = gen_requester g \<and> gen_client_request r = gen_client_request g)
     \<or> (gen_thread r \<noteq> None \<and> gen_thread r = gen_thread g \<and> is_active (gen_status r) \<and> is_active (gen_status g)))"

definition insert_generation :: "generation_row \<Rightarrow> database \<Rightarrow> database res" where
  "insert_generation g db =
     (if generation_conflict g db then Inl ''IntegrityError''
      else Inr (db\<lparr>generations := generations db @ [g]\<rparr>))"

definition queued_generation ::
    "time \<Rightarrow> row_id \<Rightarrow> row_id \<Rightarrow> row_id \<Rightarrow> string \<Rightarrow> purpose \<Rightarrow> row_id option \<Rightarrow> row_id option \<Rightarrow> generation_row" where
  "queued_generation now g t requester request_id p source retry_of =
     \<lparr>gen_id = g, gen_thread = Some t, gen_requester = requester, gen_source = source, gen_result = None,
      gen_retry_of = retry_of, gen_client_request = request_id, gen_purpose = p, gen_status = Queued,
      gen_partial = [], gen_revision = 0, gen_provider_request = None, gen_provider_generation = None,
      gen_error = None, gen_started = None, gen_finished = None, gen_created = now\<rparr>"


section \<open>Committing an answer\<close>

datatype commit_error = ProtocolFailure code | StaleState | StatePersistence

definition repairable_state_codes :: "string list" where
  "repairable_state_codes =
     [''state_deliverable_count_mismatch'', ''state_deliverable_mismatch'', ''state_source_missing'',
      ''state_docx_source_mismatch'', ''state_docx_output_mismatch'', ''state_output_addition_missing'',
      ''state_missing_output_anchor'', ''state_missing_source_anchor'', ''state_ambiguous_output_anchor'',
      ''state_ambiguous_source_anchor'', ''state_overlapping_output_anchors'',
      ''state_overlapping_source_anchors'', ''invalid_docx_blocks'', ''invalid_docx_hyperlinks'',
      ''invalid_docx_text'', ''state_docx_blocks_missing'', ''state_docx_blocks_unexpected'',
      ''state_docx_append_unsupported'', ''state_docx_requires_establish'', ''invalid_canonical_state'']"

definition state_error :: "code \<Rightarrow> commit_error" where
  "state_error c =
     (if c \<in> set repairable_state_codes then ProtocolFailure c
      else if c \<in> {''state_base_missing'', ''state_base_mismatch''} then StaleState
      else StatePersistence)"

definition handoff_sentinel :: pystr where
  "handoff_sentinel = lit ''OVEO_HANDOFF_TEXT_MUST_BE_REPLACED_V1''"

definition handoff_ok :: "protocol_document \<Rightarrow> bool" where
  "handoff_ok d \<longleftrightarrow> (case doc_blocks d of
     [b] \<Rightarrow> block_type b = Deliverable \<and> \<not> contains (block_text b) handoff_sentinel | _ \<Rightarrow> False)"

record drawn =
  new_message_id :: row_id
  new_item_id :: row_id
  new_version_id :: row_id

record completion =
  comp_request :: "string option"
  comp_generation :: "string option"

definition claim_completed :: "time \<Rightarrow> row_id \<Rightarrow> protocol_document \<Rightarrow> completion \<Rightarrow> database \<Rightarrow> database \<times> bool" where
  "claim_completed now g d c db =
     transition now g [Running] Completed
       (\<lambda>r. r\<lparr>gen_partial := doc_blocks d,
             gen_provider_request := (case comp_request c of None \<Rightarrow> gen_provider_request r | x \<Rightarrow> x),
             gen_provider_generation := (case comp_generation c of None \<Rightarrow> gen_provider_generation r | x \<Rightarrow> x)\<rparr>) db"

definition set_result :: "row_id \<Rightarrow> row_id \<Rightarrow> database \<Rightarrow> database" where
  "set_result g m db =
     db\<lparr>generations := map (\<lambda>r. if gen_id r = g then r\<lparr>gen_result := Some m\<rparr> else r) (generations db)\<rparr>"

text \<open>\<^verbatim>\<open>_commit_success_once\<close>: \<open>Inr None\<close> is the lost claim, after which nothing was written; an
  error rolls the transaction back.\<close>

definition commit_success_once ::
    "time \<Rightarrow> nat \<Rightarrow> drawn \<Rightarrow> templates \<Rightarrow> row_id \<Rightarrow> protocol_document \<Rightarrow> completion \<Rightarrow> database
      \<Rightarrow> commit_error + database option" where
  "commit_success_once now max_words ids ts g d c db =
     (case claim_completed now g d c db of
        (db1, False) \<Rightarrow> Inr None
      | (db1, True) \<Rightarrow>
          (case the_generation db1 g of
             None \<Rightarrow> Inr None
           | Some r \<Rightarrow>
               if gen_purpose r \<noteq> Chat \<and> doc_state d \<noteq> NoState then Inl (ProtocolFailure ''state_invalid_purpose'')
               else if gen_purpose r = PromptHandoff \<and> \<not> handoff_ok d
               then Inl (ProtocolFailure ''invalid_handoff_response'')
               else
                 (case (gen_purpose r, gen_thread r) of
                    (Chat, Some t) \<Rightarrow>
                      (case the_thread db1 t of
                         None \<Rightarrow> Inl (ProtocolFailure ''state_thread_missing'')
                       | Some th \<Rightarrow>
                           let db2 = insert_message (new_message_id ids) t AssistantRole None (doc_blocks d) db1 in
                           (case apply_state_operation max_words (new_item_id ids) (new_version_id ids) ts r
                                   (Some th) d db2 of
                              Inl e \<Rightarrow> Inl (state_error e)
                            | Inr db3 \<Rightarrow> Inr (Some (touch_thread now t (set_result g (new_message_id ids) db3)))))
                  | _ \<Rightarrow> Inr (Some db1))))"

section \<open>Retry\<close>

definition is_retryable :: "database \<Rightarrow> generation_row \<Rightarrow> bool" where
  "is_retryable db g \<longleftrightarrow>
     gen_purpose g = Chat \<and> gen_status g \<in> {Failed, Stopped}
     \<and> gen_error g \<notin> {Some ''attachment_unavailable'', Some ''context_unavailable''} \<and> gen_result g = None
     \<and> (case (gen_thread g, gen_source g) of
          (Some t, Some m) \<Rightarrow>
            (case latest_by (\<lambda>r. (gen_created r, gen_id r))
                    (filter (\<lambda>r. gen_thread r = Some t \<and> gen_purpose r = Chat) (generations db)) of
               None \<Rightarrow> False
             | Some l \<Rightarrow>
                 gen_id l = gen_id g \<and>
                 (case find (\<lambda>x. msg_id x = m) (messages db) of
                    None \<Rightarrow> False
                  | Some src \<Rightarrow>
                      \<not> (\<exists>x\<in>set (messages db). msg_thread x = t \<and> msg_role x = AssistantRole
                            \<and> msg_ordinal src < msg_ordinal x)))
        | _ \<Rightarrow> False)"

section \<open>The process\<close>

text \<open>The database, the names of the files in the attachment directory, and the generations that a
  task of this process owns (\<^verbatim>\<open>_tasks\<close> and \<^verbatim>\<open>_starting\<close>).\<close>

record system =
  sys_db :: database
  sys_files :: "string list"
  sys_live :: "row_id list"

text \<open>\<^verbatim>\<open>_start_generation\<close> with the generation that \<^verbatim>\<open>prepare\<close> returns.\<close>

definition start_generation ::
    "time \<Rightarrow> row_id \<Rightarrow> string \<Rightarrow> (database \<Rightarrow> generation_row res) \<Rightarrow> system \<Rightarrow> (system \<times> row_id) res" where
  "start_generation now requester request_id prepare s =
     bind_res (existing_request (sys_db s) requester request_id) (\<lambda>existing.
       case existing of
         Some r \<Rightarrow> Inr (s, gen_id r)
       | None \<Rightarrow>
           bind_res (prepare (sys_db s)) (\<lambda>g.
             (case insert_generation g
                     (fst (finalize_orphans now (gen_id g # sys_live s) (the (gen_thread g)) (sys_db s))) of
                Inr db' \<Rightarrow> Inr (s\<lparr>sys_db := db', sys_live := sys_live s @ [gen_id g]\<rparr>, gen_id g)
              | Inl _ \<Rightarrow> Inl ''active_generation'')))"

definition prepare_handoff :: "time \<Rightarrow> row_id \<Rightarrow> row_id \<Rightarrow> row_id \<Rightarrow> string \<Rightarrow> database \<Rightarrow> generation_row res" where
  "prepare_handoff now g t requester request_id db =
     (case the_thread db t of
        None \<Rightarrow> Inl ''thread_not_found''
      | Some th \<Rightarrow>
          if th_owner th \<noteq> requester then Inl ''thread_not_found''
          else Inr (queued_generation now g t requester request_id PromptHandoff None None))"

definition prepare_retry :: "time \<Rightarrow> row_id \<Rightarrow> row_id \<Rightarrow> row_id \<Rightarrow> string \<Rightarrow> database \<Rightarrow> generation_row res" where
  "prepare_retry now g original requester request_id db =
     (case the_generation db original of
        None \<Rightarrow> Inl ''generation_not_retryable''
      | Some r \<Rightarrow>
          (case gen_thread r of
             None \<Rightarrow> Inl ''generation_not_retryable''
           | Some t \<Rightarrow>
               (case the_thread db t of
                  None \<Rightarrow> Inl ''thread_not_found''
                | Some th \<Rightarrow>
                    if th_owner th \<noteq> requester \<or> \<not> is_retryable db r then Inl ''generation_not_retryable''
                    else Inr (queued_generation now g t requester request_id (gen_purpose r) (gen_source r)
                                (Some (gen_id r))))))"

definition submit_handoff where
  "submit_handoff now g t requester request_id s =
     start_generation now requester request_id (prepare_handoff now g t requester request_id) s"

definition retry where
  "retry now g original requester request_id s =
     start_generation now requester request_id (prepare_retry now g original requester request_id) s"


section \<open>Submitting a turn\<close>

record validated_attachment =
  va_name :: pystr
  va_bytes :: nat
  va_words :: nat
  va_sha256 :: string
  va_blocks :: "docx_block list"
  va_plain :: pystr

record turn =
  turn_requester :: row_id
  turn_request_id :: string
  turn_text :: pystr
  turn_attachment :: "validated_attachment option"
  turn_role :: string
  turn_thread :: "row_id option"
  turn_owner :: "row_id option"
  turn_mode :: "string option"

record turn_ids =
  id_generation :: row_id
  id_thread :: row_id
  id_message :: row_id
  id_attachment :: row_id

record turn_limits =
  max_source_words :: nat
  max_reference_words :: nat
  chat_max_completion_tokens :: nat

definition role_of :: "string \<Rightarrow> attachment_role option" where
  "role_of s = (if s = ''source'' then Some SourceDocument
                else if s = ''reference'' then Some ReferenceDocument else None)"

definition mode_of :: "string \<Rightarrow> thread_mode option" where
  "mode_of s = (if s = ''translate'' then Some Translate else if s = ''revision'' then Some RevisionMode
                else if s = ''internal_comms'' then Some InternalComms else None)"

text \<open>\<^verbatim>\<open>_check_response_budget\<close>.  The tokenizer, a third-party package, is the parameter \<open>tokens\<close>;
  \<open>busy\<close> says that the counting worker turns the request away.  The texts come from decoded UTF-8
  and parsed XML, so their UTF-8 encoding is defined.\<close>

definition response_material ::
    "pystr \<Rightarrow> validated_attachment option \<Rightarrow> string \<Rightarrow> (pystr \<times> pystr \<times> nat) option" where
  "response_material clean att role =
     (case att of
        Some a \<Rightarrow>
          if role = ''source'' then
            let copy = join [10, 10] (map dblock_text (va_blocks a)) in
            Some (if va_plain a = [] then copy else va_plain a, copy, 11 * length (va_blocks a))
          else if clean \<noteq> [] then Some (clean, clean, 0) else None
      | None \<Rightarrow> if clean \<noteq> [] then Some (clean, clean, 0) else None)"

definition framing_tokens :: "pystr \<Rightarrow> nat \<Rightarrow> nat" where
  "framing_tokens deliverable docx_framing = docx_framing + 100 + 18 * (length deliverable div 600 + 1)"

definition check_response_budget ::
    "(pystr \<Rightarrow> nat) \<Rightarrow> bool \<Rightarrow> turn_limits \<Rightarrow> pystr \<Rightarrow> validated_attachment option \<Rightarrow> string \<Rightarrow> unit res" where
  "check_response_budget tokens busy lm clean att role =
     (case response_material clean att role of
        None \<Rightarrow> Inr ()
      | Some (deliverable, copy, docx_framing) \<Rightarrow>
          let framing = framing_tokens deliverable docx_framing; limit = chat_max_completion_tokens lm in
          if utf8_len deliverable + utf8_len copy + framing \<le> limit then Inr ()
          else if busy then Inl ''server_busy''
          else if tokens deliverable + tokens copy + framing \<le> limit then Inr ()
          else Inl ''response_budget_exceeded'')"

definition turn_checks :: "turn \<Rightarrow> unit res" where
  "turn_checks t =
     (if strip (turn_text t) = [] \<and> turn_attachment t = None then Inl ''empty_message''
      else if role_of (turn_role t) = None then Inl ''invalid_attachment_role''
      else if turn_attachment t = None \<and> turn_role t \<noteq> ''source'' then Inl ''invalid_attachment_role''
      else if turn_request_id t = [] \<or> 100 < length (turn_request_id t) then Inl ''invalid_request_id''
      else Inr ())"

text \<open>The conversation a turn goes to: a new one, or an existing one after its orphans are finished.\<close>

definition turn_thread_row ::
    "time \<Rightarrow> turn_ids \<Rightarrow> row_id list \<Rightarrow> turn \<Rightarrow> database \<Rightarrow> (row_id \<times> database) res" where
  "turn_thread_row now ids live t db =
     (case turn_thread t of
        None \<Rightarrow>
          (case (turn_owner t, Option.bind (turn_mode t) mode_of) of
             (Some owner, Some mode) \<Rightarrow>
               if owner \<noteq> turn_requester t then Inl ''thread_not_found''
               else Inr (id_thread ids, db\<lparr>threads := threads db @
                      [\<lparr>th_id = id_thread ids, th_owner = owner, th_mode = mode,
                        th_title = Some (lit ''New conversation''), th_summary = None,
                        th_summary_through = None, th_updated = now\<rparr>]\<rparr>)
           | _ \<Rightarrow> Inl ''invalid_thread'')
      | Some tid \<Rightarrow>
          (case the_thread db tid of
             None \<Rightarrow> Inl ''thread_not_found''
           | Some th \<Rightarrow>
               if th_owner th \<noteq> turn_requester t then Inl ''thread_not_found''
               else Inr (tid, fst (finalize_orphans now live tid db))))"

definition turn_word_checks :: "turn_limits \<Rightarrow> turn \<Rightarrow> row_id \<Rightarrow> database \<Rightarrow> unit res" where
  "turn_word_checks lm t tid db =
     (let latest = (case latest_work_version db tid of None \<Rightarrow> 0 | Some v \<Rightarrow> wv_words v);
          typed = latest + count_words (strip (turn_text t)) in
      case turn_attachment t of
        Some a \<Rightarrow>
          if turn_role t = ''reference'' \<and> max_reference_words lm < va_words a then Inl ''reference_word_limit''
          else if max_source_words lm < (if turn_role t = ''source'' then va_words a else typed)
          then Inl ''source_word_limit'' else Inr ()
      | None \<Rightarrow> if max_source_words lm < typed then Inl ''source_word_limit'' else Inr ())"

definition attachment_row_of :: "turn_ids \<Rightarrow> turn \<Rightarrow> validated_attachment \<Rightarrow> attachment_row" where
  "attachment_row_of ids t a =
     \<lparr>att_id = id_attachment ids, att_message = id_message ids, att_storage = id_attachment ids @ ''.docx'',
      att_name = va_name a, att_role = the (role_of (turn_role t)),
      att_blocks = JList (map (\<lambda>b. JDict (to_model b)) (va_blocks a)),
      att_bytes = va_bytes a, att_words = va_words a, att_sha256 = va_sha256 a\<rparr>"

text \<open>\<^verbatim>\<open>_insert_turn\<close>: the new system on commit; an error leaves neither rows nor staged files.\<close>

definition insert_turn ::
    "time \<Rightarrow> turn_limits \<Rightarrow> turn_ids \<Rightarrow> turn \<Rightarrow> system \<Rightarrow> (system \<times> row_id \<times> row_id) res" where
  "insert_turn now lm ids t s =
     bind_res (existing_request (sys_db s) (turn_requester t) (turn_request_id t)) (\<lambda>existing.
       case existing of
         Some r \<Rightarrow> (case gen_thread r of None \<Rightarrow> Inl ''invalid_generation'' | Some th \<Rightarrow> Inr (s, th, gen_id r))
       | None \<Rightarrow>
           bind_res (turn_thread_row now ids (id_generation ids # sys_live s) t (sys_db s)) (\<lambda>(tid, db1).
           bind_res (turn_word_checks lm t tid db1) (\<lambda>_.
             let content = (if strip (turn_text t) = [] then []
                            else [\<lparr>block_type = Conversation, block_text = turn_text t\<rparr>]);
                 db2 = insert_message (id_message ids) tid UserRole (Some (turn_requester t)) content db1 in
             bind_res
               (case turn_attachment t of
                  None \<Rightarrow> Inr (db2, sys_files s)
                | Some a \<Rightarrow>
                    bind_res (persist_attachment (sys_files s) (id_attachment ids @ ''.docx'')) (\<lambda>files.
                      Inr (db2\<lparr>attachments := attachments db2 @ [attachment_row_of ids t a]\<rparr>, files)))
               (\<lambda>(db3, files).
             bind_res (insert_generation (queued_generation now (id_generation ids) tid (turn_requester t)
                 (turn_request_id t) Chat (Some (id_message ids)) None) db3) (\<lambda>db4.
               Inr (s\<lparr>sys_db := touch_thread now tid db4, sys_files := files,
                      sys_live := sys_live s @ [id_generation ids]\<rparr>, tid, id_generation ids))))))"

definition resolve_submission_conflict :: "turn \<Rightarrow> system \<Rightarrow> (system \<times> row_id \<times> row_id) res" where
  "resolve_submission_conflict t s =
     bind_res (existing_request (sys_db s) (turn_requester t) (turn_request_id t)) (\<lambda>existing.
       case existing of
         Some r \<Rightarrow> (case gen_thread r of Some th \<Rightarrow> Inr (s, th, gen_id r) | None \<Rightarrow> Inl ''submission_conflict'')
       | None \<Rightarrow>
           (case turn_thread t of
              None \<Rightarrow> Inl ''submission_conflict''
            | Some tid \<Rightarrow>
                (case the_thread (sys_db s) tid of
                   None \<Rightarrow> Inl ''thread_not_found''
                 | Some th \<Rightarrow>
                     if th_owner th \<noteq> turn_requester t then Inl ''thread_not_found''
                     else if \<exists>r\<in>set (generations (sys_db s)). gen_thread r = Some tid \<and> is_active (gen_status r)
                     then Inl ''active_generation''
                     else Inl ''submission_conflict'')))"

definition submit_turn ::
    "(pystr \<Rightarrow> nat) \<Rightarrow> bool \<Rightarrow> time \<Rightarrow> turn_limits \<Rightarrow> turn_ids \<Rightarrow> turn \<Rightarrow> system
      \<Rightarrow> (system \<times> row_id \<times> row_id) res" where
  "submit_turn tokens busy now lm ids t s =
     bind_res (turn_checks t) (\<lambda>_.
     bind_res (check_response_budget tokens busy lm (strip (turn_text t)) (turn_attachment t) (turn_role t)) (\<lambda>_.
       case insert_turn now lm ids t s of
         Inl e \<Rightarrow> if e = ''IntegrityError'' then resolve_submission_conflict t s else Inl e
       | Inr r \<Rightarrow> Inr r))"

section \<open>Deleting a conversation, sweeping files\<close>

text \<open>\<^verbatim>\<open>cancel_thread\<close>: ask every active generation of the conversation to stop.\<close>

fun stop_all :: "time \<Rightarrow> row_id list \<Rightarrow> row_id list \<Rightarrow> database \<Rightarrow> database res" where
  "stop_all now live [] db = Inr db"
| "stop_all now live (g # gs) db = bind_res (stop now (g \<in> set live) g db) (stop_all now live gs)"

definition cancel_thread :: "time \<Rightarrow> row_id list \<Rightarrow> row_id \<Rightarrow> database \<Rightarrow> database res" where
  "cancel_thread now live t db =
     stop_all now live
       (map gen_id (filter (\<lambda>r. gen_thread r = Some t \<and> is_active (gen_status r)) (generations db))) db"

text \<open>\<^verbatim>\<open>DELETE\<close> of a thread with the cascades of its foreign keys.  References never leave a
  conversation, so the rows that go are the conversation's own; the ledger has no foreign keys and
  keeps its rows.\<close>

definition delete_rows :: "row_id \<Rightarrow> database \<Rightarrow> database" where
  "delete_rows t db =
     (let ms = map msg_id (thread_messages db t);
          is = map wi_id (filter (\<lambda>i. wi_thread i = t) (work_items db)) in
      db\<lparr>threads := filter (\<lambda>r. th_id r \<noteq> t) (threads db),
         messages := filter (\<lambda>m. msg_thread m \<noteq> t) (messages db),
         attachments := filter (\<lambda>a. att_message a \<notin> set ms) (attachments db),
         generations := filter (\<lambda>g. gen_thread g \<noteq> Some t) (generations db),
         work_items := filter (\<lambda>i. wi_thread i \<noteq> t) (work_items db),
         work_versions := filter (\<lambda>v. wv_item v \<notin> set is) (work_versions db)\<rparr>)"

definition thread_files :: "row_id \<Rightarrow> database \<Rightarrow> string list" where
  "thread_files t db =
     map att_storage (filter (\<lambda>a. att_message a \<in> msg_id ` set (thread_messages db t)) (attachments db))"

definition delete_thread :: "time \<Rightarrow> row_id \<Rightarrow> row_id \<Rightarrow> system \<Rightarrow> system res" where
  "delete_thread now user t s =
     (case the_thread (sys_db s) t of
        None \<Rightarrow> Inl ''thread_not_found''
      | Some th \<Rightarrow>
          if th_owner th \<noteq> user then Inl ''thread_not_found''
          else
            bind_res (cancel_thread now (sys_live s) t (sys_db s)) (\<lambda>db.
              Inr (s\<lparr>sys_db := delete_rows t db,
                     sys_files := filter (\<lambda>f. f \<notin> set (thread_files t db)) (sys_files s)\<rparr>)))"

section \<open>Bookkeeping of a run\<close>

text \<open>The identifiers of a provider call on its generation's row, the title of a conversation that has
  none yet, and the summary that replaces older turns in requests.\<close>

definition record_ids :: "row_id \<Rightarrow> string option \<Rightarrow> string \<Rightarrow> database \<Rightarrow> database" where
  "record_ids g request gen db =
     db\<lparr>generations := map (\<lambda>r. if gen_id r = g
          then r\<lparr>gen_provider_request := request, gen_provider_generation := Some gen\<rparr> else r) (generations db)\<rparr>"

definition default_title :: pystr where
  "default_title = lit ''New conversation''"

definition set_title :: "time \<Rightarrow> row_id \<Rightarrow> pystr \<Rightarrow> database \<Rightarrow> database" where
  "set_title now t title db =
     db\<lparr>threads := map (\<lambda>th. if th_id th = t \<and> th_title th = Some default_title
          then th\<lparr>th_title := Some title, th_updated := now\<rparr> else th) (threads db)\<rparr>"

definition store_summary :: "row_id \<Rightarrow> pystr \<Rightarrow> nat \<Rightarrow> database \<Rightarrow> database" where
  "store_summary t summary through db =
     db\<lparr>threads := map (\<lambda>th. if th_id th = t
          then th\<lparr>th_summary := Some summary, th_summary_through := Some through\<rparr> else th) (threads db)\<rparr>"

definition sweep_orphan_attachments :: "system \<Rightarrow> system" where
  "sweep_orphan_attachments s =
     s\<lparr>sys_files := filter (\<lambda>f. \<not> is_managed_attachment_name f
                                \<or> f \<in> set (map att_storage (attachments (sys_db s)))) (sys_files s)\<rparr>"

end
