(* ===== verification/Compaction.thy ===== *)
theory Compaction
  imports Context
begin

text \<open>
  What \<^verbatim>\<open>generation.py\<close> does when a request exceeds the token budget: request snapshots and the
  repaired request after a protocol error, maintenance answers, attachments and the request of a
  conversation, chat summaries and the compaction of prompt handoffs.  The provider's answers, the
  token estimate and the file system are parameters.
\<close>

section \<open>Retry guidance\<close>

definition missing_state_guidance :: pystr where
  "missing_state_guidance =
    lit ''After the last block_end, emit exactly one state event and then response_end.''"

definition missing_anchor_guidance :: pystr where
  "missing_anchor_guidance =
    lit ''An anchor did not occur in its base text. Copy each anchor character for character '' @
    lit ''from active_canonical_work.document_data (output for output anchors, source for '' @
    lit ''source anchors), including no-break spaces and typographic quotes, or express the '' @
    lit ''change with full.''"

definition ambiguous_anchor_guidance :: pystr where
  "ambiguous_anchor_guidance =
    lit ''An anchor occurred more than once in its base text. Extend it with neighboring '' @
    lit ''words until it occurs exactly once, or express the change with full.''"

definition overlapping_anchor_guidance :: pystr where
  "overlapping_anchor_guidance =
    lit ''Two replacements overlapped in the same base text. Merge them into one replacement, '' @
    lit ''or express the change with full.''"

definition protocol_retry_guidance :: "(code \<times> pystr) list" where
  "protocol_retry_guidance =
    [
     (''state_deliverable_mismatch'',
      lit ''The visible deliverable differed from the canonical output. For replace, make the '' @
      lit ''deliverable exactly equal the complete output after all replacements, character '' @
      lit ''for character, including no-break spaces and typographic quotes; when that is impractical, '' @
      lit ''use full. For append, the deliverable is the exact output addition, or the complete '' @
      lit ''joined output together with output_addition.''),
     (''state_deliverable_count_mismatch'',
      lit ''A state mutation requires exactly one deliverable block. If you present multiple '' @
      lit ''alternatives, use operation none instead.''),
     (''state_source_missing'',
      lit ''An establish for text work must include the complete source. Only an uploaded source '' @
      lit ''DOCX lets the application supply the source.''),
     (''state_docx_source_mismatch'',
      lit ''For an uploaded source DOCX, omit source: the application uses the uploaded document.''),
     (''state_docx_output_mismatch'',
      lit ''The deliverable must equal the returned docx_blocks'' @ [39] @
      lit '' clean text: block text joined in order with blank lines, keeping hyperlink display '' @
      lit ''text without its wrappers.''),
     (''state_output_addition_missing'',
      lit ''The append deliverable showed the complete joined output, so the state must name '' @
      lit ''the exact output_addition.''),
     (''invalid_event_fields'',
      lit ''An event had missing or extra keys. Use only the exact keys for each event and '' @
      lit ''the chosen state operation in the protocol. Never repeat the deliverable as an '' @
      lit ''output field. Omit unchanged optional state fields rather than adding null values.''),
     (''invalid_json'',
      lit ''A line was not one complete JSON object. Put each event on its own line, escape '' @
      lit ''line breaks and quotation marks inside strings, and emit no prose or Markdown fence.''),
     (''blank_line'',
      lit ''Emit one JSON object per line, with no blank lines between events.''),
     (''invalid_unicode'',
      lit ''A string held half of a surrogate pair. Write characters such as emoji whole, never '' @
      lit ''as separate '' @ [92] @
      lit ''ud83d-style escapes, and split deltas only between whole characters.''),
     (''invalid_block_order'',
      lit ''Use either exactly one conversation block, or one or more deliverable blocks followed '' @
      lit ''by at most one advice block.''),
     (''invalid_state_for_conversation'',
      lit ''A conversation block cannot change canonical state: use operation none, or put '' @
      lit ''the finished work in a deliverable block.''),
     (''invalid_block_count'',
      lit ''A response has at most 16 blocks; group alternatives in fewer deliverable blocks.''),
     (''invalid_state_brief'',
      lit ''brief must be a non-empty JSON object, never a string or list.''),
     (''invalid_base_version'',
      lit ''base_version must be the integer in active_canonical_work.application_state.version.''),
     (''invalid_docx_blocks'',
      lit ''docx_blocks must list every working block exactly once and in order, as {\"id\", '' @
      lit ''\"text\"} objects numbered p000001, p000002, and so on, copied from the working document: '' @
      lit ''the canonical docx_blocks, or the source attachment'' @ [39] @
      lit ''s blocks for a new work item.''),
     (''invalid_docx_hyperlinks'',
      lit ''Every protected hyperlink wrapper must appear exactly once, in its original block '' @
      lit ''and order; only its display text may change, and it must not become empty.''),
     (''invalid_docx_text'',
      lit ''Word block text cannot contain control characters other than tab and line break. '' @
      lit ''Remove them from docx_blocks and the deliverable.''),
     (''state_missing_output_anchor'',
      missing_anchor_guidance),
     (''state_missing_source_anchor'',
      missing_anchor_guidance),
     (''state_ambiguous_output_anchor'',
      ambiguous_anchor_guidance),
     (''state_ambiguous_source_anchor'',
      ambiguous_anchor_guidance),
     (''state_overlapping_output_anchors'',
      overlapping_anchor_guidance),
     (''state_overlapping_source_anchors'',
      overlapping_anchor_guidance),
     (''state_docx_blocks_missing'',
      lit ''Word work needs the complete docx_blocks array on establish, replace, and full.''),
     (''state_docx_blocks_unexpected'',
      lit ''This work is not a Word document: omit docx_blocks.''),
     (''state_docx_append_unsupported'',
      lit ''Word work cannot use append: use full with the complete docx_blocks, or answer '' @
      lit ''with operation none.''),
     (''state_docx_requires_establish'',
      lit ''The latest turn attaches a new source Word document, so the only valid mutation '' @
      lit ''is establish.''),
     (''invalid_canonical_state'',
      lit ''The saved source, output, and brief must stay non-empty after the operation.''),
     (''missing_state'',
      missing_state_guidance),
     (''incomplete_response'',
      missing_state_guidance)]"

definition retry_reminder :: pystr where
  "retry_reminder =
    [10] @ [10] @
    lit ''PROTOCOL RETRY: The preceding attempt failed strict response-protocol validation '' @
    lit ''and was discarded. Regenerate the response from the same data. Emit only the exact '' @
    lit ''NDJSON grammar already specified; do not quote, explain, loosen, or work around '' @
    lit ''it. ''"

section \<open>Errors of a run\<close>

text \<open>The exceptions that \<^verbatim>\<open>_run\<close> tells apart: the provider's and the manager's own with their
  codes, protocol and context errors, the three state errors, a cancellation, anything else.\<close>

datatype run_error =
    ProviderFailed code
  | GenerationFailed code
  | ProtocolFailed code
  | ContextFailed code
  | StaleFailed
  | OutdatedFailed
  | PersistenceFailed
  | CancelledRun
  | Unexpected code

section \<open>Request snapshots\<close>

type_synonym request_snapshot = "(pystr \<times> json) list"

definition snapshot_of :: "pystr \<Rightarrow> provider_message list \<Rightarrow> request_snapshot" where
  "snapshot_of mode ms =
     [(lit ''schema_version'', JInt 1), (lit ''mode'', JStr mode),
      (lit ''provider_messages'', JList (map (\<lambda>m.
         JDict [(lit ''role'', JStr (pm_role m)), (lit ''content'', JStr (pm_content m))]) ms))]"

text \<open>\<^verbatim>\<open>str(snapshot.get("mode", "translate"))\<close>: only \<^verbatim>\<open>_snapshot\<close> makes snapshots, so a mode that is
  present is a string.\<close>

definition snapshot_mode :: "request_snapshot \<Rightarrow> pystr" where
  "snapshot_mode s =
     (case get s ''mode'' of Some (JStr m) \<Rightarrow> m | _ \<Rightarrow> lit ''translate'')"

fun snapshot_message :: "code \<Rightarrow> json \<Rightarrow> run_error + provider_message" where
  "snapshot_message e (JDict item) =
     (case (payload_field item ''role'', payload_field item ''content'') of
        (JStr r, JStr c) \<Rightarrow>
          if r \<in> set provider_roles then Inr \<lparr>pm_role = r, pm_content = c\<rparr> else Inl (ProviderFailed e)
      | (JList _, _) \<Rightarrow> Inl (Unexpected ''TypeError'')
      | (JDict _, _) \<Rightarrow> Inl (Unexpected ''TypeError'')
      | _ \<Rightarrow> Inl (ProviderFailed e))"
| "snapshot_message e _ = Inl (ProviderFailed e)"

definition snapshot_messages :: "code \<Rightarrow> request_snapshot \<Rightarrow> run_error + provider_message list" where
  "snapshot_messages e s =
     (case payload_field s ''provider_messages'' of
        JList items \<Rightarrow>
          bind_res (map_res (snapshot_message e) items) (\<lambda>ms.
            if ms = [] then Inl (ProviderFailed e) else Inr ms)
      | _ \<Rightarrow> Inl (ProviderFailed e))"

definition protocol_retry_snapshot :: "request_snapshot \<Rightarrow> code \<Rightarrow> run_error + request_snapshot" where
  "protocol_retry_snapshot s e =
     bind_res (snapshot_messages ''invalid_request_snapshot'' s) (\<lambda>ms.
       if ms = [] \<or> pm_role (hd ms) \<noteq> lit ''system'' then
         Inl (ProviderFailed ''invalid_request_snapshot'')
       else
         let guidance = (case map_of protocol_retry_guidance e of
               Some g \<Rightarrow> g
             | None \<Rightarrow> lit ''Check every event against the exact protocol schema.'')
         in Inr (snapshot_of (snapshot_mode s)
              (\<lparr>pm_role = lit ''system'', pm_content = pm_content (hd ms) @ retry_reminder @ guidance\<rparr>
               # tl ms)))"

text \<open>\<open>tokens\<close> is the estimate of \<^verbatim>\<open>count_input_tokens\<close>.\<close>

definition snapshot_fits ::
  "(provider_message list \<Rightarrow> nat) \<Rightarrow> nat \<Rightarrow> request_snapshot \<Rightarrow> run_error + bool" where
  "snapshot_fits tokens budget s =
     bind_res (snapshot_messages ''context_compaction_failed'' s) (\<lambda>ms.
       Inr (input_tokens_upper_bound ms \<le> budget \<or> tokens ms \<le> budget))"

section \<open>Maintenance answers\<close>

text \<open>\<^verbatim>\<open>_BoundedChunks\<close>: the chunks so far and their size.\<close>

type_synonym bounded_chunks = "bytes list \<times> nat"

definition collect_chunk :: "nat \<Rightarrow> code \<Rightarrow> bytes \<Rightarrow> bounded_chunks \<Rightarrow> run_error + bounded_chunks" where
  "collect_chunk limit e chunk b =
     (if limit < snd b + length chunk then Inl (ProviderFailed e)
      else Inr (fst b @ [chunk], snd b + length chunk))"

fun collect_chunks :: "nat \<Rightarrow> code \<Rightarrow> bytes list \<Rightarrow> bounded_chunks \<Rightarrow> run_error + bounded_chunks" where
  "collect_chunks limit e [] b = Inr b"
| "collect_chunks limit e (c # cs) b =
     bind_res (collect_chunk limit e c b) (\<lambda>b'. collect_chunks limit e cs b')"

text \<open>\<^verbatim>\<open>_parse_context_summary\<close>: \<open>None\<close> in the outer option is \<^verbatim>\<open>SummaryFormatError\<close>; other
  exceptions of \<^verbatim>\<open>json.loads\<close> (an integer of too many digits) are not caught.\<close>

fun is_str :: "json \<Rightarrow> bool" where
  "is_str (JStr _) = True"
| "is_str _ = False"

fun str_of :: "json \<Rightarrow> pystr" where
  "str_of (JStr s) = s"
| "str_of _ = []"

definition summary_text :: "pystr \<Rightarrow> pystr list \<Rightarrow> pystr" where
  "summary_text summary unresolved =
     (let items = filter (\<lambda>i. i \<noteq> []) (map strip unresolved)
      in strip summary @
         (if items = [] then []
          else [10, 10] @ lit ''Unresolved:'' @ [10] @ join [10] (map (\<lambda>i. lit ''- '' @ i) items)))"

definition summary_fields :: "(pystr \<times> json) list \<Rightarrow> pystr option" where
  "summary_fields kvs =
     (if set (map fst kvs) \<noteq> {lit ''version'', lit ''summary'', lit ''unresolved''} then None
      else
        (case (payload_field kvs ''summary'', payload_field kvs ''unresolved'') of
           (JStr summary, JList items) \<Rightarrow>
             if \<not> equals_one (payload_field kvs ''version'') \<or> blank summary
                \<or> list_ex (\<lambda>i. \<not> is_str i) items then None
             else
               let t = summary_text summary (map str_of items)
               in if list_ex surrogate t then None else Some t
         | _ \<Rightarrow> None))"

definition parse_context_summary :: "nat \<Rightarrow> bytes \<Rightarrow> run_error + pystr option" where
  "parse_context_summary limit raw =
     (case utf8_decode raw of
        Some (s, []) \<Rightarrow>
          (case loads plain_hooks limit s of
             Inl ValueError \<Rightarrow> Inl (Unexpected ''ValueError'')
           | Inl _ \<Rightarrow> Inr None
           | Inr (JDict kvs) \<Rightarrow> Inr (summary_fields kvs)
           | Inr _ \<Rightarrow> Inr None)
      | _ \<Rightarrow> Inr None)"

section \<open>Provider calls\<close>

definition show_nat :: "nat \<Rightarrow> string" where
  "show_nat n = map char_of (str_nat n)"


text \<open>\<open>GenerationProvider.generate\<close>: for a request identifier and a snapshot, the chunks that are
  emitted and how the call ends.\<close>

type_synonym provider = "string \<Rightarrow> request_snapshot \<Rightarrow> bytes list \<times> run_error option"

definition truncated_codes :: "code list" where
  "truncated_codes = [''response_too_long'', ''provider_content_filtered'']"

definition compaction_error :: "run_error \<Rightarrow> run_error" where
  "compaction_error e =
     (case e of
        ProviderFailed c \<Rightarrow>
          if c \<in> set truncated_codes then ProviderFailed ''context_compaction_failed'' else e
      | _ \<Rightarrow> e)"

text \<open>One call whose chunks are collected up to a limit: the collector's error ends the call.\<close>

definition bounded_call ::
  "provider \<Rightarrow> nat \<Rightarrow> code \<Rightarrow> string \<Rightarrow> request_snapshot \<Rightarrow> run_error + bytes" where
  "bounded_call call limit e name s =
     (case call name s of (chunks, ending) \<Rightarrow>
        bind_res (collect_chunks limit e chunks ([], 0)) (\<lambda>b.
          case ending of Some x \<Rightarrow> Inl x | None \<Rightarrow> Inr (concat (fst b))))"

definition summary_attempt ::
  "provider \<Rightarrow> nat \<Rightarrow> string \<Rightarrow> nat \<Rightarrow> nat \<Rightarrow> request_snapshot \<Rightarrow> run_error + pystr option" where
  "summary_attempt call limit g cutoff n s =
     (case bounded_call call 131072 ''context_compaction_failed''
             (g @ '':summary:'' @ show_nat cutoff @ '':attempt:'' @ show_nat n) s of
        Inl e \<Rightarrow> Inl (compaction_error e)
      | Inr raw \<Rightarrow> parse_context_summary limit raw)"

definition generate_context_summary ::
  "provider \<Rightarrow> nat \<Rightarrow> string \<Rightarrow> nat \<Rightarrow> request_snapshot \<Rightarrow> run_error + pystr" where
  "generate_context_summary call limit g cutoff s =
     bind_res (summary_attempt call limit g cutoff 1 s) (\<lambda>first.
       case first of
         Some t \<Rightarrow> Inr t
       | None \<Rightarrow>
           bind_res (summary_attempt call limit g cutoff 2 s) (\<lambda>second.
             case second of
               Some t \<Rightarrow> Inr t
             | None \<Rightarrow> Inl (ProviderFailed ''context_compaction_failed'')))"

text \<open>Feeding the decoder inside the call; its error ends the call.\<close>

definition decoded_call ::
  "provider \<Rightarrow> limits \<Rightarrow> string \<Rightarrow> request_snapshot \<Rightarrow> run_error + protocol_document" where
  "decoded_call call lm name s =
     (case call name s of (chunks, ending) \<Rightarrow>
        (case new_decoder lm of
           None \<Rightarrow> Inl (Unexpected ''ValueError'')
         | Some dec \<Rightarrow>
             (case feed_all dec chunks of
                Inl e \<Rightarrow> Inl (ProtocolFailed e)
              | Inr (dec', _) \<Rightarrow>
                  (case ending of
                     Some x \<Rightarrow> Inl x
                   | None \<Rightarrow>
                       (case finish dec' of Inl e \<Rightarrow> Inl (ProtocolFailed e) | Inr d \<Rightarrow> Inr d)))))"

definition generate_handoff_extract ::
  "provider \<Rightarrow> limits \<Rightarrow> string \<Rightarrow> string \<Rightarrow> request_snapshot \<Rightarrow> run_error + pystr" where
  "generate_handoff_extract call lm g part s =
     (case decoded_call call lm (g @ '':prompt_handoff_compaction:'' @ part) s of
        Inl (ProtocolFailed _) \<Rightarrow> Inl (ProviderFailed ''context_compaction_failed'')
      | Inl e \<Rightarrow> Inl (compaction_error e)
      | Inr d \<Rightarrow>
          if doc_state d \<noteq> NoState \<or> \<not> handoff_ok d then
            Inl (ProviderFailed ''context_compaction_failed'')
          else Inr (block_text (hd (doc_blocks d))))"

section \<open>Search\<close>

text \<open>The binary search of \<^verbatim>\<open>_largest_bounded_summary_snapshot\<close> and of each handoff chunk: the
  last candidate tried that fits.\<close>

function largest_fitting ::
  "(nat \<Rightarrow> 'e + 'a) \<Rightarrow> ('a \<Rightarrow> 'e + bool) \<Rightarrow> nat \<Rightarrow> nat \<Rightarrow> (nat \<times> 'a) option \<Rightarrow> 'e + (nat \<times> 'a) option" where
  "largest_fitting candidate fits low high best =
     (if high \<le> low then Inr best
      else
        let middle = (low + high - 1) div 2
        in case candidate middle of
             Inl e \<Rightarrow> Inl e
           | Inr s \<Rightarrow>
               (case fits s of
                  Inl e \<Rightarrow> Inl e
                | Inr True \<Rightarrow> largest_fitting candidate fits (middle + 1) high (Some (middle, s))
                | Inr False \<Rightarrow> largest_fitting candidate fits low middle best))"
  by pat_completeness auto
termination by (relation "measure (\<lambda>(c, f, l, h, b). h - l)") auto

declare largest_fitting.simps [simp del]

lemma largest_fitting_within:
  "largest_fitting candidate fits low high best = Inr (Some (i, s)) \<Longrightarrow>
   best = Some (i, s) \<or> (low \<le> i \<and> i < high \<and> candidate i = Inr s \<and> fits s = Inr True)"
proof (induction candidate fits low high best rule: largest_fitting.induct)
  case (1 candidate fits low high best)
  show ?case
  proof (cases "high \<le> low")
    case True
    with "1.prems" show ?thesis by (simp add: largest_fitting.simps [of _ _ low])
  next
    case False
    define middle where "middle = (low + high - 1) div 2"
    from False have m: "low \<le> middle" "middle < high" by (auto simp: middle_def)
    from "1.prems" False obtain t ok where t: "candidate middle = Inr t" "fits t = Inr ok"
      by (auto simp: largest_fitting.simps [of _ _ low] middle_def Let_def split: sum.splits)
    show ?thesis
    proof (cases ok)
      case True
      with "1.prems" False t have "largest_fitting candidate fits (middle + 1) high (Some (middle, t)) = Inr (Some (i, s))"
        by (simp add: largest_fitting.simps [of _ _ low] middle_def Let_def)
      from "1.IH"(1) [OF False middle_def t(1) t(2) [unfolded True]] this t True m show ?thesis by auto
    next
      case no: False
      with "1.prems" False t have "largest_fitting candidate fits low middle best = Inr (Some (i, s))"
        by (simp add: largest_fitting.simps [of _ _ low] middle_def Let_def)
      from "1.IH"(2) [OF False middle_def t(1) t(2)] this no m show ?thesis by auto
    qed
  qed
qed

section \<open>Handoff compaction\<close>

text \<open>The loop over the user turns: each chunk is the longest run of turns that fits.\<close>

function handoff_chunks ::
  "(int option \<Rightarrow> int \<Rightarrow> run_error + 's) \<Rightarrow> ('s \<Rightarrow> run_error + bool) \<Rightarrow> int list \<Rightarrow> nat \<Rightarrow> int option \<Rightarrow>
     run_error + 's list" where
  "handoff_chunks candidate fits ordinals start after =
     (if length ordinals \<le> start then Inr []
      else
        (case largest_fitting (\<lambda>i. candidate after (ordinals ! i)) fits start (length ordinals) None of
           Inl e \<Rightarrow> Inl e
         | Inr None \<Rightarrow> Inl (ProviderFailed ''handoff_turn_too_large'')
         | Inr (Some (i, s)) \<Rightarrow>
             (case handoff_chunks candidate fits ordinals (i + 1) (Some (ordinals ! i)) of
                Inl e \<Rightarrow> Inl e
              | Inr ss \<Rightarrow> Inr (s # ss))))"
  by pat_completeness auto
termination
  by (relation "measure (\<lambda>(c, f, os, i, a). length os - i)") (auto dest: largest_fitting_within)

declare handoff_chunks.simps [simp del]

definition merge_snapshot :: "nat \<Rightarrow> pystr \<Rightarrow> pystr list \<Rightarrow> run_error + request_snapshot" where
  "merge_snapshot depth mode batches =
     (case build_handoff_merge_messages depth batches of
        Inl e \<Rightarrow> Inl (if e = ''RecursionError'' then Unexpected e else ContextFailed e)
      | Inr ms \<Rightarrow> Inr (snapshot_of mode ms))"

fun handoff_groups :: "(pystr list \<Rightarrow> run_error + bool) \<Rightarrow> pystr list \<Rightarrow> pystr list \<Rightarrow> run_error + pystr list list" where
  "handoff_groups fits current [] = Inr (if current = [] then [] else [current])"
| "handoff_groups fits current (x # xs) =
     bind_res (fits (current @ [x])) (\<lambda>ok.
       if ok then handoff_groups fits (current @ [x]) xs
       else if current = [] then Inl (ProviderFailed ''context_compaction_failed'')
       else bind_res (handoff_groups fits [x] xs) (\<lambda>gs. Inr (current # gs)))"

definition bounded_handoff_groups ::
  "(pystr list \<Rightarrow> run_error + bool) \<Rightarrow> pystr list \<Rightarrow> run_error + pystr list list" where
  "bounded_handoff_groups fits extracts = handoff_groups fits [] extracts"

text \<open>One call per element, numbered from one.\<close>

definition numbered_calls :: "(nat \<Rightarrow> 'a \<Rightarrow> 'e + 'b) \<Rightarrow> 'a list \<Rightarrow> 'e + 'b list" where
  "numbered_calls f xs = map_res (\<lambda>(i, x). f i x) (enumerate 1 xs)"

text \<open>The final loop: merge groups of extracts until one request holds them all.\<close>

function merge_extracts ::
  "(pystr list \<Rightarrow> run_error + 's) \<Rightarrow> ('s \<Rightarrow> run_error + bool) \<Rightarrow> (nat \<Rightarrow> 's \<Rightarrow> run_error + pystr) \<Rightarrow>
     pystr list \<Rightarrow> run_error + 's" where
  "merge_extracts merged fits extract extracts =
     (case merged extracts of
        Inl e \<Rightarrow> Inl e
      | Inr s \<Rightarrow>
          (case fits s of
             Inl e \<Rightarrow> Inl e
           | Inr True \<Rightarrow> Inr s
           | Inr False \<Rightarrow>
               (case bounded_handoff_groups (\<lambda>g. bind_res (merged g) fits) extracts of
                  Inl e \<Rightarrow> Inl e
                | Inr groups \<Rightarrow>
                    if length extracts \<le> length groups then
                      Inl (ProviderFailed ''context_compaction_failed'')
                    else
                      (case numbered_calls (\<lambda>i g. bind_res (merged g) (extract i)) groups of
                         Inl e \<Rightarrow> Inl e
                       | Inr extracts' \<Rightarrow> merge_extracts merged fits extract extracts'))))"
  by pat_completeness auto
termination
  by (relation "measure (\<lambda>(m, f, x, es). length es)")
     (auto simp: numbered_calls_def dest!: map_res_length)

declare merge_extracts.simps [simp del]

section \<open>Attachments of a conversation\<close>

text \<open>\<^verbatim>\<open>_verify_attachment_file\<close>: the cache of verified files, oldest first, and what the file system
  answers: the file's identity and the outcome of reading and hashing it.\<close>

type_synonym identity = "int \<times> int \<times> int"

datatype file_error = FileMissing | IntegrityMismatch | OtherOSError

type_synonym verified_files = "(string \<times> string \<times> identity) list"

definition verified_file_cache_size :: nat where
  "verified_file_cache_size = 1024"

definition remember_verified_file ::
  "string \<Rightarrow> string \<Rightarrow> identity \<Rightarrow> verified_files \<Rightarrow> verified_files" where
  "remember_verified_file name sha ident cache =
     (let c = filter (\<lambda>e. fst e \<noteq> name) cache @ [(name, sha, ident)]
      in drop (length c - verified_file_cache_size) c)"

definition verify_attachment_file ::
  "(string \<Rightarrow> file_error + identity) \<Rightarrow> (attachment_row \<Rightarrow> file_error option) \<Rightarrow> attachment_row \<Rightarrow>
     verified_files \<Rightarrow> verified_files \<times> file_error option" where
  "verify_attachment_file stat check a cache =
     (case stat (att_storage a) of
        Inl e \<Rightarrow> (cache, Some e)
      | Inr ident \<Rightarrow>
          if map_of cache (att_storage a) = Some (att_sha256 a, ident) then
            (filter (\<lambda>e. fst e \<noteq> att_storage a) cache @ [(att_storage a, att_sha256 a, ident)], None)
          else
            (case check a of
               Some e \<Rightarrow> (cache, Some e)
             | None \<Rightarrow> (remember_verified_file (att_storage a) (att_sha256 a) ident cache, None)))"

definition role_name :: "attachment_role \<Rightarrow> pystr" where
  "role_name r = (case r of SourceDocument \<Rightarrow> lit ''source'' | ReferenceDocument \<Rightarrow> lit ''reference'')"

definition attachment_document_of :: "file_error option \<Rightarrow> attachment_row \<Rightarrow> run_error + attachment_document" where
  "attachment_document_of file a =
     (case file of
        Some OtherOSError \<Rightarrow> Inl (GenerationFailed ''attachment_unreadable'')
      | Some _ \<Rightarrow> Inl (GenerationFailed ''attachment_unavailable'')
      | None \<Rightarrow>
          (case docx_blocks_from_storage (att_blocks a) of
             Inl _ \<Rightarrow> Inl (GenerationFailed ''attachment_unavailable'')
           | Inr bs \<Rightarrow>
               (case new_attachment_document (int (att_words a)) bs (role_name (att_role a)) of
                  Inl e \<Rightarrow> Inl (ContextFailed e)
                | Inr d \<Rightarrow> Inr d)))"

section \<open>The request of a conversation\<close>

text \<open>What \<^verbatim>\<open>_request_snapshot\<close> reads, besides the conversation's row: its messages, the display
  names of their authors, its attachments with the ordinal of their message and the outcome of
  loading each, its canonical work, and the surroundings of \<open>build_provider_messages\<close>.
  \<open>re_running n\<close> is whether the generation still runs when a summary through \<open>n\<close> is stored.\<close>

record stored_document =
  sd_message :: pystr
  sd_ordinal :: int
  sd_role :: pystr
  sd_document :: "run_error + attachment_document"

record request_env =
  re_messages :: "context_message list"
  re_labels :: "(pystr \<times> pystr) list"
  re_documents :: "stored_document list"
  re_canonical :: "work_version_row option"
  re_prompts :: "string \<Rightarrow> prompt_file"
  re_cache :: prompt_cache
  re_depth :: nat
  re_zone :: "time \<Rightarrow> pydate"
  re_now :: pydate
  re_running :: "int \<Rightarrow> bool"

definition in_range :: "int option \<Rightarrow> int option \<Rightarrow> int \<Rightarrow> bool" where
  "in_range after through n \<longleftrightarrow>
     (case after of None \<Rightarrow> True | Some a \<Rightarrow> a < n) \<and> (case through of None \<Rightarrow> True | Some t \<Rightarrow> n \<le> t)"

definition effective_after :: "context_thread \<Rightarrow> pystr \<Rightarrow> int option \<Rightarrow> int option" where
  "effective_after th p after =
     (if p \<noteq> lit ''prompt_handoff'' then
        (case ct_summary_through th of
           None \<Rightarrow> after
         | Some n \<Rightarrow> Some (max (case after of None \<Rightarrow> 0 | Some a \<Rightarrow> a) n))
      else after)"

definition ranged_messages :: "request_env \<Rightarrow> int option \<Rightarrow> int option \<Rightarrow> context_message list" where
  "ranged_messages env after through =
     sort_key cm_ordinal (filter (\<lambda>x. in_range after through (cm_ordinal x)) (re_messages env))"

definition ranged_documents ::
  "request_env \<Rightarrow> pystr \<Rightarrow> int option \<Rightarrow> int option \<Rightarrow> run_error + (pystr \<times> attachment_document) list" where
  "ranged_documents env p after through =
     map_res (\<lambda>d. bind_res (sd_document d) (\<lambda>x. Inr (sd_message d, x)))
       (filter (\<lambda>d. (p = lit ''prompt_handoff'' \<or> sd_role d = lit ''source'')
            \<and> in_range after through (sd_ordinal d)) (re_documents env))"

definition latest_reference :: "request_env \<Rightarrow> pystr \<Rightarrow> run_error + attachment_document option" where
  "latest_reference env p =
     (if p \<noteq> lit ''chat'' then Inr None
      else
        (case latest_by sd_ordinal (filter (\<lambda>d. sd_role d = lit ''reference'') (re_documents env)) of
           None \<Rightarrow> Inr None
         | Some d \<Rightarrow> bind_res (sd_document d) (\<lambda>x. Inr (Some x))))"

definition prompt_errors :: "code list" where
  "prompt_errors =
     [''required application prompt is unavailable'', ''prompt file must not be a symbolic link'',
      ''application prompt path is unsafe'', ''required application prompt is unreadable'',
      ''application prompt has an invalid size'', ''application prompt is not UTF-8'',
      ''application prompt is empty'']"

definition context_error :: "code \<Rightarrow> run_error" where
  "context_error c =
     (if c \<in> {''TypeError'', ''RecursionError''} \<or> c \<in> set prompt_errors then Unexpected c else ContextFailed c)"

definition request_snapshot_of ::
  "request_env \<Rightarrow> context_thread \<Rightarrow> pystr \<Rightarrow> int option \<Rightarrow> int option \<Rightarrow> run_error + request_snapshot" where
  "request_snapshot_of env th p after through =
     (let a = effective_after th p after in
      bind_res (ranged_documents env p a through) (\<lambda>atts.
      bind_res (latest_reference env p) (\<lambda>ref.
        case snd (build_provider_messages (re_prompts env) (re_depth env) (re_zone env) (re_now env)
               (re_cache env) th p (ranged_messages env a through) (re_labels env) atts ref
               (re_canonical env) None) of
          Inl c \<Rightarrow> Inl (context_error c)
        | Inr ms \<Rightarrow> Inr (snapshot_of (ct_mode th) ms))))"

section \<open>Compaction of a chat\<close>

definition min_recent_messages :: nat where
  "min_recent_messages = 4"

record compaction_settings =
  cs_budget :: nat
  cs_recent :: nat
  cs_tokens :: "provider_message list \<Rightarrow> nat"
  cs_depth :: nat
  cs_limits :: limits

definition fits_budget :: "compaction_settings \<Rightarrow> request_snapshot \<Rightarrow> run_error + bool" where
  "fits_budget cs s = snapshot_fits (cs_tokens cs) (cs_budget cs) s"

text \<open>Ordinals of the turns that the summary does not cover, in order.\<close>

definition unsummarized :: "request_env \<Rightarrow> context_thread \<Rightarrow> int list" where
  "unsummarized env th =
     map cm_ordinal (ranged_messages env (Some (case ct_summary_through th of None \<Rightarrow> 0 | Some n \<Rightarrow> n)) None)"

definition summary_candidates :: "compaction_settings \<Rightarrow> int list \<Rightarrow> int list" where
  "summary_candidates cs ords =
     (let retain = (if cs_recent cs < length ords then cs_recent cs else min_recent_messages)
      in take (length ords - retain) ords)"

definition largest_bounded_summary ::
  "compaction_settings \<Rightarrow> request_env \<Rightarrow> context_thread \<Rightarrow> int list \<Rightarrow>
     run_error + (int \<times> request_snapshot) option" where
  "largest_bounded_summary cs env th ords =
     bind_res (largest_fitting (\<lambda>i. request_snapshot_of env th (lit ''summary'') None (Some (ords ! i)))
         (fits_budget cs) 0 (length ords) None)
       (\<lambda>best. Inr (map_option (\<lambda>(i, s). (ords ! i, s)) best))"

definition require_compactable_floor ::
  "compaction_settings \<Rightarrow> request_env \<Rightarrow> context_thread \<Rightarrow> run_error + unit" where
  "require_compactable_floor cs env th =
     (let recent = take min_recent_messages (rev (unsummarized env th));
          floor_after = (if recent = [] then ct_summary_through th else Some (Min (set recent) - 1))
      in bind_res (request_snapshot_of env th (lit ''chat'') floor_after None) (\<lambda>s.
         bind_res (fits_budget cs s) (\<lambda>ok.
           if ok then Inr () else Inl (ProviderFailed ''context_budget_exceeded''))))"

definition summarized :: "pystr \<Rightarrow> int \<Rightarrow> context_thread \<Rightarrow> context_thread" where
  "summarized t n th = th\<lparr>ct_summary := Some t, ct_summary_through := Some n\<rparr>"

lemma summary_candidates_subset: "set (summary_candidates cs ords) \<subseteq> set ords"
  by (auto simp: summary_candidates_def Let_def dest: in_set_takeD)

lemma largest_bounded_summary_within:
  assumes "largest_bounded_summary cs env th ords = Inr (Some (n, s))"
  shows "n \<in> set ords \<and> request_snapshot_of env th (lit ''summary'') None (Some n) = Inr s
    \<and> fits_budget cs s = Inr True"
proof -
  obtain i where "largest_fitting (\<lambda>i. request_snapshot_of env th (lit ''summary'') None (Some (ords ! i)))
      (fits_budget cs) 0 (length ords) None = Inr (Some (i, s))" "n = ords ! i"
    using assms by (auto simp: largest_bounded_summary_def res_simps)
  with largest_fitting_within [OF this(1)] show ?thesis by auto
qed

text \<open>One round: the summary of the longest prefix that fits a request, then the new request.\<close>

definition compaction_round ::
  "compaction_settings \<Rightarrow> provider \<Rightarrow> string \<Rightarrow> request_env \<Rightarrow> context_thread \<Rightarrow>
     run_error + (context_thread \<times> request_snapshot)" where
  "compaction_round cs call g env th =
     (if length (unsummarized env th) \<le> min_recent_messages then
        Inl (ProviderFailed ''context_compaction_failed'')
      else
        (case largest_bounded_summary cs env th (summary_candidates cs (unsummarized env th)) of
           Inl e \<Rightarrow> Inl e
         | Inr None \<Rightarrow> Inl (ProviderFailed ''context_compaction_failed'')
         | Inr (Some (n, s)) \<Rightarrow>
             (case generate_context_summary call (cs_depth cs) g (nat n) s of
                Inl e \<Rightarrow> Inl e
              | Inr t \<Rightarrow>
                  if \<not> re_running env n then Inl CancelledRun
                  else
                  (case request_snapshot_of env (summarized t n th) (lit ''chat'') None None of
                     Inl e \<Rightarrow> Inl e
                   | Inr s' \<Rightarrow> Inr (summarized t n th, s')))))"

lemma set_unsummarized:
  "n \<in> set (unsummarized env th) \<longleftrightarrow> n \<in> cm_ordinal ` set (re_messages env)
     \<and> (case ct_summary_through th of None \<Rightarrow> 0 | Some m \<Rightarrow> m) < n"
  by (auto simp: unsummarized_def ranged_messages_def in_range_def)

lemma compaction_round_cases:
  assumes "compaction_round cs call g env th = Inr (th', s)"
  obtains t n s' where "n \<in> set (summary_candidates cs (unsummarized env th))"
    "th' = summarized t n th" "request_snapshot_of env th' (lit ''chat'') None None = Inr s"
    "request_snapshot_of env th (lit ''summary'') None (Some n) = Inr s'" "fits_budget cs s' = Inr True"
  using assms
  by (auto simp: compaction_round_def dest!: largest_bounded_summary_within
      split: if_splits sum.splits option.splits)

lemma compaction_round_progress:
  assumes "compaction_round cs call g env th = Inr (th', s)"
  shows "length (unsummarized env th') < length (unsummarized env th)"
proof -
  obtain t n where c: "n \<in> set (summary_candidates cs (unsummarized env th))" and th': "th' = summarized t n th"
    by (rule compaction_round_cases [OF assms])
  have n: "n \<in> set (unsummarized env th)" by (rule subsetD [OF summary_candidates_subset c])
  let ?m = "case ct_summary_through th of None \<Rightarrow> 0 | Some m \<Rightarrow> m"
  obtain x where x: "x \<in> set (re_messages env)" "cm_ordinal x = n" "?m < n"
    using n unfolding set_unsummarized by blast
  have len: "length (unsummarized env th) = length (filter (\<lambda>x. ?m < cm_ordinal x) (re_messages env))"
    by (simp add: unsummarized_def ranged_messages_def in_range_def)
  have "length (unsummarized env th') = length (filter (\<lambda>x. n < cm_ordinal x) (re_messages env))"
    by (simp add: th' summarized_def unsummarized_def ranged_messages_def in_range_def)
  also have "filter (\<lambda>x. n < cm_ordinal x) (re_messages env)
      = filter (\<lambda>x. n < cm_ordinal x) (filter (\<lambda>x. ?m < cm_ordinal x) (re_messages env))"
    unfolding filter_filter using x(3) by (intro filter_cong) auto
  also have "length \<dots> < length (filter (\<lambda>x. ?m < cm_ordinal x) (re_messages env))"
    by (rule length_filter_less [of x]) (use x in auto)
  finally show ?thesis by (simp only: len)
qed

function compact_chat_loop ::
  "compaction_settings \<Rightarrow> provider \<Rightarrow> string \<Rightarrow> request_env \<Rightarrow> context_thread \<Rightarrow> request_snapshot \<Rightarrow>
     run_error + (context_thread \<times> request_snapshot)" where
  "compact_chat_loop cs call g env th s =
     (case fits_budget cs s of
        Inl e \<Rightarrow> Inl e
      | Inr True \<Rightarrow> Inr (th, s)
      | Inr False \<Rightarrow>
          (case compaction_round cs call g env th of
             Inl e \<Rightarrow> Inl e
           | Inr (th', s') \<Rightarrow> compact_chat_loop cs call g env th' s'))"
  by pat_completeness auto
termination
  by (relation "measure (\<lambda>(cs, call, g, env, th, s). length (unsummarized env th))")
     (auto dest: compaction_round_progress)

declare compact_chat_loop.simps [simp del]

definition compact_chat_context where
  "compact_chat_context cs call g env th s =
     bind_res (require_compactable_floor cs env th) (\<lambda>_. compact_chat_loop cs call g env th s)"

section \<open>Compaction of a prompt handoff\<close>

definition user_ordinals :: "request_env \<Rightarrow> int list" where
  "user_ordinals env =
     map cm_ordinal (sort_key cm_ordinal (filter (\<lambda>x. cm_role x = lit ''user'') (re_messages env)))"

definition compact_handoff_context ::
  "compaction_settings \<Rightarrow> provider \<Rightarrow> string \<Rightarrow> request_env \<Rightarrow> context_thread \<Rightarrow> pystr \<Rightarrow>
     run_error + request_snapshot" where
  "compact_handoff_context cs call g env th mode =
     bind_res (handoff_chunks (\<lambda>after n. request_snapshot_of env th (lit ''prompt_handoff'') after (Some n))
         (fits_budget cs) (user_ordinals env) 0 None) (\<lambda>chunks.
     bind_res (numbered_calls (\<lambda>i. generate_handoff_extract call (cs_limits cs) g (''source:'' @ show_nat i))
         chunks) (\<lambda>extracts.
       merge_extracts (merge_snapshot (re_depth env) mode) (fits_budget cs)
         (\<lambda>i. generate_handoff_extract call (cs_limits cs) g (''merge:'' @ show_nat i)) extracts))"

text \<open>\<^verbatim>\<open>_maybe_compact_context\<close>; the conversation's new summary is returned beside the request.\<close>

definition maybe_compact_context ::
  "compaction_settings \<Rightarrow> provider \<Rightarrow> string \<Rightarrow> bool \<Rightarrow> request_env \<Rightarrow> context_thread \<Rightarrow> request_snapshot \<Rightarrow>
     run_error + (context_thread \<times> request_snapshot)" where
  "maybe_compact_context cs call g handoff env th s =
     bind_res (fits_budget cs s) (\<lambda>ok.
       if ok then Inr (th, s)
       else if handoff then
         bind_res (compact_handoff_context cs call g env th (snapshot_mode s)) (\<lambda>s'. Inr (th, s'))
       else compact_chat_context cs call g env th s)"

end
