(* ===== verification/Streams.thy ===== *)
theory Streams
  imports Lifecycle
begin

text \<open>
  Live drafts and event streams (\<^verbatim>\<open>src/oveo/generation.py\<close>): the draft of a running generation, the
  bounded queue of each reader, the reader loop behind the server-sent events, and the snapshot and
  delta handling of the browser (\<^verbatim>\<open>frontend/src/stream.ts\<close>).
\<close>

section \<open>Live drafts\<close>

text \<open>\<^verbatim>\<open>_LiveGeneration\<close>, the stream items and the operations of a delta.\<close>

record live =
  lv_thread :: "row_id option"
  lv_status :: status
  lv_seq :: nat
  lv_blocks :: "(block_type \<times> pystr list) list"

datatype stream_op = OpStatus status | OpStart block_type | OpAppend pystr
datatype stream_item = Delta nat "stream_op list" | Resync | Close

definition snapshot_blocks :: "(block_type \<times> pystr list) list \<Rightarrow> content_block list" where
  "snapshot_blocks bs = map (\<lambda>(t, ps). \<lparr>block_type = t, block_text = concat ps\<rparr>) bs"

text \<open>One generation's draft and the queues of the readers subscribed to it.\<close>

record hub =
  hub_live :: "live option"
  hub_queues :: "stream_item list list"

definition stream_queue_size :: nat where
  "stream_queue_size = 256"

text \<open>\<^verbatim>\<open>_offer\<close>: a full queue is emptied and replaced by one marker.\<close>

definition offer :: "stream_item list \<Rightarrow> stream_item \<Rightarrow> stream_item list" where
  "offer q i =
     (if length q < stream_queue_size then q @ [i]
      else [if i = Close \<or> Close \<in> set q then Close else Resync])"

definition publish :: "stream_item \<Rightarrow> hub \<Rightarrow> hub" where
  "publish i h = h\<lparr>hub_queues := map (\<lambda>q. offer q i) (hub_queues h)\<rparr>"

definition notify :: "hub \<Rightarrow> hub" where
  "notify h = publish Resync h"

definition schedule :: "row_id option \<Rightarrow> hub \<Rightarrow> hub" where
  "schedule t h = h\<lparr>hub_live := Some \<lparr>lv_thread = t, lv_status = Queued, lv_seq = 0, lv_blocks = []\<rparr>\<rparr>"

definition task_finished :: "hub \<Rightarrow> hub" where
  "task_finished h = notify (h\<lparr>hub_live := None\<rparr>)"

definition set_live_status :: "status \<Rightarrow> hub \<Rightarrow> hub" where
  "set_live_status s h =
     (case hub_live h of
        None \<Rightarrow> h
      | Some l \<Rightarrow>
          if is_terminal (lv_status l) then notify h
          else if is_terminal s then notify (h\<lparr>hub_live := Some (l\<lparr>lv_status := s\<rparr>)\<rparr>)
          else publish (Delta (lv_seq l + 1) [OpStatus s])
                 (h\<lparr>hub_live := Some (l\<lparr>lv_status := s, lv_seq := lv_seq l + 1\<rparr>)\<rparr>))"

definition mark_finished :: "status \<Rightarrow> hub \<Rightarrow> hub" where
  "mark_finished s h = (if hub_live h \<noteq> None then set_live_status s h else notify h)"

text \<open>The loop of \<^verbatim>\<open>_apply_live_events\<close> over decoded events.\<close>

fun draft_events ::
    "protocol_event list \<Rightarrow> (block_type \<times> pystr list) list \<Rightarrow> ((block_type \<times> pystr list) list \<times> stream_op list) res" where
  "draft_events [] bs = Inr (bs, [])"
| "draft_events (e # es) bs =
     (case e of
        BlockStart i t \<Rightarrow>
          bind_res (draft_events es (bs @ [(t, [])])) (\<lambda>(bs', ops). Inr (bs', OpStart t # ops))
      | BlockDelta i t s \<Rightarrow>
          if bs = [] then Inl ''delta_without_active_block''
          else
            bind_res (draft_events es (butlast bs @ [(fst (last bs), snd (last bs) @ [s])]))
              (\<lambda>(bs', ops). Inr (bs', OpAppend s # ops))
      | _ \<Rightarrow> draft_events es bs)"

definition apply_live_events :: "protocol_event list \<Rightarrow> hub \<Rightarrow> hub res" where
  "apply_live_events es h =
     (case hub_live h of
        None \<Rightarrow> Inl ''CancelledError''
      | Some l \<Rightarrow>
          if lv_status l \<noteq> Running then Inl ''CancelledError''
          else
            bind_res (draft_events es (lv_blocks l)) (\<lambda>(bs, ops).
              Inr (if ops = [] then h
                   else publish (Delta (lv_seq l + 1) ops)
                          (h\<lparr>hub_live := Some (l\<lparr>lv_blocks := bs, lv_seq := lv_seq l + 1\<rparr>)\<rparr>))))"

text \<open>\<^verbatim>\<open>_live_emitter\<close>: what happens with a chunk of the provider's answer.\<close>

definition emit :: "bool \<Rightarrow> bytes \<Rightarrow> decoder \<times> hub \<Rightarrow> (decoder \<times> hub) res" where
  "emit cancelled chunk = (\<lambda>(dec, h).
     if cancelled then Inl ''CancelledError''
     else bind_res (feed dec chunk) (\<lambda>(dec', es). bind_res (apply_live_events es h) (\<lambda>h'. Inr (dec', h'))))"

fun emit_all :: "bytes list \<Rightarrow> decoder \<times> hub \<Rightarrow> (decoder \<times> hub) res" where
  "emit_all [] s = Inr s"
| "emit_all (c # cs) s = bind_res (emit False c s) (emit_all cs)"

definition reset_draft_for_retry :: "hub \<Rightarrow> hub \<times> bool" where
  "reset_draft_for_retry h =
     (case hub_live h of
        None \<Rightarrow> (h, False)
      | Some l \<Rightarrow>
          if lv_status l \<noteq> Running then (h, False)
          else (notify (h\<lparr>hub_live := Some (l\<lparr>lv_blocks := [], lv_seq := lv_seq l + 1\<rparr>)\<rparr>), True))"

text \<open>\<^verbatim>\<open>close_session_streams\<close>, on the queue of one stream of the session.\<close>

definition close_stream :: "stream_item list \<Rightarrow> stream_item list" where
  "close_stream q = [Close]"

section \<open>Snapshots\<close>

record snapshot =
  sn_id :: row_id
  sn_thread :: "row_id option"
  sn_status :: status
  sn_blocks :: "content_block list"
  sn_error :: "string option"
  sn_retryable :: bool
  sn_seq :: nat

definition get_snapshot :: "row_id \<Rightarrow> hub \<Rightarrow> database \<Rightarrow> snapshot option" where
  "get_snapshot g h db =
     (let stored =
        (case the_generation db g of
           None \<Rightarrow> None
         | Some r \<Rightarrow>
             Some \<lparr>sn_id = gen_id r, sn_thread = gen_thread r, sn_status = gen_status r, sn_blocks = gen_partial r,
                   sn_error = gen_error r, sn_retryable = is_retryable db r, sn_seq = gen_revision r\<rparr>) in
      case hub_live h of
        None \<Rightarrow> stored
      | Some l \<Rightarrow>
          if is_active (lv_status l)
          then Some \<lparr>sn_id = g, sn_thread = lv_thread l, sn_status = lv_status l,
                 sn_blocks = snapshot_blocks (lv_blocks l), sn_error = None, sn_retryable = False, sn_seq = lv_seq l\<rparr>
          else stored)"

section \<open>Readers\<close>

text \<open>A reader of \<^verbatim>\<open>_events\<close> after its first snapshot, and what it sends.\<close>

record reader =
  rd_queue :: "stream_item list"
  rd_pending :: "stream_item option"
  rd_last :: nat
  rd_open :: bool

datatype sse = SseSnapshot snapshot | SseDelta nat nat "stream_op list" | KeepAlive

definition next_item :: "reader \<Rightarrow> stream_item option \<times> reader" where
  "next_item r =
     (case rd_pending r of
        Some i \<Rightarrow> (Some i, r\<lparr>rd_pending := None\<rparr>)
      | None \<Rightarrow> (case rd_queue r of [] \<Rightarrow> (None, r) | i # q \<Rightarrow> (Some i, r\<lparr>rd_queue := q\<rparr>)))"

fun coalesce :: "stream_item list \<Rightarrow> nat \<Rightarrow> stream_op list \<Rightarrow> stream_op list \<times> nat \<times> stream_item option \<times> stream_item list" where
  "coalesce [] k ops = (ops, k, None, [])"
| "coalesce (i # q) k ops =
     (case i of
        Delta k' ops' \<Rightarrow> if k' = k + 1 then coalesce q k' (ops @ ops') else (ops, k, Some i, q)
      | _ \<Rightarrow> (ops, k, Some i, q))"

text \<open>Re-reading the authoritative snapshot.\<close>

definition resynchronize :: "snapshot option \<Rightarrow> bool \<Rightarrow> reader \<Rightarrow> reader \<times> sse list" where
  "resynchronize snap waited r =
     (case snap of
        None \<Rightarrow> (r\<lparr>rd_open := False\<rparr>, [])
      | Some s \<Rightarrow>
          if is_terminal (sn_status s) then (r\<lparr>rd_last := sn_seq s, rd_open := False\<rparr>, [SseSnapshot s])
          else if sn_seq s \<noteq> rd_last r then (r\<lparr>rd_last := sn_seq s\<rparr>, [SseSnapshot s])
          else (r, if waited then [KeepAlive] else []))"

text \<open>One iteration of the loop: \<open>due\<close> says that the session check is due, \<open>valid\<close> its outcome, \<open>snap\<close>
  what \<^verbatim>\<open>get_snapshot\<close> returns now, \<open>is_live\<close> that this process still runs the generation.\<close>

definition reader_step :: "bool \<Rightarrow> bool \<Rightarrow> snapshot option \<Rightarrow> bool \<Rightarrow> reader \<Rightarrow> reader \<times> sse list" where
  "reader_step due valid snap is_live r =
     (case next_item r of
        (item, r1) \<Rightarrow>
          if item = Some Close then (r1\<lparr>rd_open := False\<rparr>, [])
          else if due \<and> \<not> valid then (r1\<lparr>rd_open := False\<rparr>, [])
          else if item = None \<and> is_live then (r1, [KeepAlive])
          else
            (case item of
               Some (Delta k ops) \<Rightarrow>
                 if k \<le> rd_last r1 then (r1, [])
                 else if k \<noteq> rd_last r1 + 1 then resynchronize snap False r1
                 else
                   (case coalesce (rd_queue r1) k ops of
                      (ops', k', pend, q) \<Rightarrow>
                        (r1\<lparr>rd_queue := q, rd_pending := pend, rd_last := k'\<rparr>, [SseDelta k k' ops']))
             | _ \<Rightarrow> resynchronize snap (item = None) r1))"

text \<open>The loop, as long as the stream is open, for at most \<open>n\<close> iterations.\<close>

fun read_loop :: "nat \<Rightarrow> snapshot option \<Rightarrow> reader \<Rightarrow> reader \<times> sse list" where
  "read_loop 0 snap r = (r, [])"
| "read_loop (Suc n) snap r =
     (if \<not> rd_open r then (r, [])
      else
        (case reader_step False True snap False r of
           (r', out) \<Rightarrow> (case read_loop n snap r' of (r'', out') \<Rightarrow> (r'', out @ out'))))"

definition open_reader :: "snapshot \<Rightarrow> reader \<times> sse list" where
  "open_reader s =
     (\<lparr>rd_queue = [], rd_pending = None, rd_last = sn_seq s, rd_open = \<not> is_terminal (sn_status s)\<rparr>, [SseSnapshot s])"

section \<open>What the browser shows\<close>

text \<open>The browser keeps the last snapshot and applies deltas that continue it.\<close>

record view =
  vw_status :: status
  vw_blocks :: "content_block list"
  vw_seq :: nat

fun apply_ops :: "stream_op list \<Rightarrow> view \<Rightarrow> view option" where
  "apply_ops [] v = Some v"
| "apply_ops (OpStatus s # ops) v = apply_ops ops (v\<lparr>vw_status := s\<rparr>)"
| "apply_ops (OpStart t # ops) v = apply_ops ops (v\<lparr>vw_blocks := vw_blocks v @ [\<lparr>block_type = t, block_text = []\<rparr>]\<rparr>)"
| "apply_ops (OpAppend s # ops) v =
     (if vw_blocks v = [] then None
      else apply_ops ops (v\<lparr>vw_blocks := butlast (vw_blocks v) @
             [(last (vw_blocks v))\<lparr>block_text := block_text (last (vw_blocks v)) @ s\<rparr>]\<rparr>))"

definition view_of :: "snapshot \<Rightarrow> view" where
  "view_of s = \<lparr>vw_status = sn_status s, vw_blocks = sn_blocks s, vw_seq = sn_seq s\<rparr>"

fun receive :: "sse \<Rightarrow> view \<Rightarrow> view option" where
  "receive (SseSnapshot s) v = Some (view_of s)"
| "receive (SseDelta k k' ops) v =
     (if k = vw_seq v + 1 then map_option (\<lambda>w. w\<lparr>vw_seq := k'\<rparr>) (apply_ops ops v) else None)"
| "receive KeepAlive v = Some v"

fun receive_all :: "sse list \<Rightarrow> view \<Rightarrow> view option" where
  "receive_all [] v = Some v"
| "receive_all (m # ms) v = Option.bind (receive m v) (receive_all ms)"

end
