(* ===== verification/Usage_Ledger.thy ===== *)
theory Usage_Ledger
  imports Lifecycle
begin

text \<open>
  The usage ledger (\<^verbatim>\<open>src/oveo/usage.py\<close> and its callers in \<^verbatim>\<open>generation.py\<close>): appending entries under
  unique keys, the lifetime total and its text, recording the outcome of a provider call, and the
  reconciliation of calls whose cost was not reported, with its backoff.
\<close>

section \<open>The ledger\<close>

definition append_usage_event :: "usage_event_row \<Rightarrow> database \<Rightarrow> database \<times> usage_event_row option" where
  "append_usage_event e db =
     (if ue_dedupe e \<in> ue_dedupe ` set (usage_events db) then (db, None)
      else (db\<lparr>usage_events := usage_events db @ [e]\<rparr>, Some e))"

definition amount_of :: "usage_event_row \<Rightarrow> int" where
  "amount_of e = (case ue_amount e of None \<Rightarrow> 0 | Some a \<Rightarrow> a)"

definition lifetime_total :: "database \<Rightarrow> int" where
  "lifetime_total db = sum_list (map amount_of (filter (\<lambda>e. ue_type e \<in> {Charge, Adjustment}) (usage_events db)))"

section \<open>Showing the total\<close>

text \<open>\<^verbatim>\<open>format_lifetime_cost\<close> on exact decimal amounts: six decimals without trailing zeros below one
  cent, otherwise cents rounded half to even with grouped thousands.\<close>

definition round_half_even :: "int \<Rightarrow> int \<Rightarrow> int" where
  "round_half_even a d =
     (let q = a div d; r = a mod d in
      if 2 * r < d then q else if 2 * r > d then q + 1 else if even q then q else q + 1)"

fun group3 :: "pystr \<Rightarrow> pystr" where
  "group3 s = (if length s \<le> 3 then s else group3 (take (length s - 3) s) @ [44] @ drop (length s - 3) s)"

declare group3.simps [simp del]

definition pad :: "nat \<Rightarrow> nat \<Rightarrow> pystr" where
  "pad n k = replicate (n - length (str_nat k)) 48 @ str_nat k"

definition format_lifetime_cost :: "int \<Rightarrow> pystr" where
  "format_lifetime_cost a =
     (let sign = (if a < 0 then lit ''-'' else []); n = nat \<bar>a\<bar> in
      if a = 0 then lit ''$0.00''
      else if n < 10000 then
        let precise = rev (dropWhile (\<lambda>c. c = 48) (rev (sign @ str_nat (n div 1000000) @ lit ''.'' @ pad 6 (n mod 1000000)))) in
        lit ''$'' @ (if last precise = 46 then precise @ lit ''00'' else precise)
      else
        let c = nat (round_half_even (int n) 10000) in
        lit ''$'' @ sign @ group3 (str_nat (c div 100)) @ lit ''.'' @ pad 2 (c mod 100))"

section \<open>Charging provider calls\<close>

record usage_context =
  uc_generation :: row_id
  uc_thread :: "row_id option"
  uc_requester :: row_id

definition usage_of :: "generation_row \<Rightarrow> usage_context" where
  "usage_of g = \<lparr>uc_generation = gen_id g, uc_thread = gen_thread g, uc_requester = gen_requester g\<rparr>"

definition usage_row ::
    "row_id \<Rightarrow> time \<Rightarrow> usage_context \<Rightarrow> string \<Rightarrow> event_type \<Rightarrow> string \<Rightarrow> int option \<Rightarrow> string option \<Rightarrow> string option
      \<Rightarrow> usage_event_row" where
  "usage_row eid now u key ty p amount request gen =
     \<lparr>ue_id = eid, ue_thread = uc_thread u, ue_generation = Some (uc_generation u), ue_requester = Some (uc_requester u),
      ue_provider_request = request, ue_provider_generation = gen, ue_dedupe = key, ue_type = ty, ue_purpose = p,
      ue_amount = amount, ue_created = now\<rparr>"

definition charge_key :: "string \<Rightarrow> string \<Rightarrow> string" where
  "charge_key gen p = gen @ '':'' @ p @ '':reconciled-charge''"

definition append_reconcilable ::
    "row_id \<Rightarrow> time \<Rightarrow> usage_context \<Rightarrow> string \<Rightarrow> string option \<Rightarrow> string \<Rightarrow> database \<Rightarrow> database" where
  "append_reconcilable eid now u p request gen db =
     fst (append_usage_event
       (usage_row eid now u (gen @ '':'' @ p @ '':reconcile-pending'') Pending p None request (Some gen)) db)"

text \<open>\<^verbatim>\<open>_record_provider_ids\<close>; \<open>own\<close> is its parameter \<^verbatim>\<open>record_ids\<close>.\<close>

definition record_provider_ids ::
    "row_id \<Rightarrow> time \<Rightarrow> usage_context \<Rightarrow> string \<Rightarrow> string option \<Rightarrow> string \<Rightarrow> bool \<Rightarrow> database \<Rightarrow> database" where
  "record_provider_ids eid now u p request gen own db =
     (let db1 = append_reconcilable eid now u p request gen db
      in if own then record_ids (uc_generation u) request gen db1 else db1)"

text \<open>What a provider call reported: a completion or an error (\<open>failed\<close>) with its identifiers and cost.\<close>

record call_outcome =
  co_failed :: bool
  co_request :: "string option"
  co_generation :: "string option"
  co_cost :: "int option"

definition or_else :: "string option \<Rightarrow> string option \<Rightarrow> string option" where
  "or_else a b = (case a of None \<Rightarrow> b | Some s \<Rightarrow> if s = [] then b else Some s)"

definition usage_key :: "call_outcome \<Rightarrow> string \<Rightarrow> string \<Rightarrow> string option \<Rightarrow> string option \<Rightarrow> string" where
  "usage_key o' p scope request gen =
     (case gen of
        Some g \<Rightarrow> charge_key g p
      | None \<Rightarrow> (case request of None \<Rightarrow> scope | Some r \<Rightarrow> if r = [] then scope else r) @ '':'' @ p @ '':''
                 @ (if co_failed o' then ''failed-charge'' else ''charge''))"

definition record_usage ::
    "row_id \<Rightarrow> time \<Rightarrow> usage_context \<Rightarrow> call_outcome \<Rightarrow> string \<Rightarrow> string \<Rightarrow> string option \<Rightarrow> string option
      \<Rightarrow> database \<Rightarrow> database" where
  "record_usage eid now u o' p scope seen_request seen_generation db =
     (let request = or_else (co_request o') seen_request; gen = or_else (co_generation o') seen_generation in
      case co_cost o' of
        None \<Rightarrow> (case gen of None \<Rightarrow> db | Some g \<Rightarrow> append_reconcilable eid now u p request g db)
      | Some c \<Rightarrow>
          fst (append_usage_event (usage_row eid now u (usage_key o' p scope request gen) Charge p (Some c) request gen) db))"

section \<open>Reconciliation\<close>

type_synonym backoff = "(row_id \<times> (nat \<times> time)) list"

definition backoff_of :: "backoff \<Rightarrow> row_id \<Rightarrow> nat \<times> time" where
  "backoff_of b i = (case map_of b i of None \<Rightarrow> (0, 0) | Some x \<Rightarrow> x)"

definition max_attempts :: nat where "max_attempts = 8"

text \<open>\<^verbatim>\<open>_defer_reconciliation\<close>, in microseconds\<close>

definition defer_delay :: "nat \<Rightarrow> time" where
  "defer_delay attempts = min (5000000 * 2 ^ (attempts - 1)) 600000000"

definition defer_reconciliation :: "time \<Rightarrow> row_id \<Rightarrow> backoff \<Rightarrow> backoff" where
  "defer_reconciliation now i b =
     (let attempts = fst (backoff_of b i) + 1 in (i, attempts, now + defer_delay attempts) # filter (\<lambda>x. fst x \<noteq> i) b)"

definition is_charged :: "database \<Rightarrow> usage_event_row \<Rightarrow> bool" where
  "is_charged db e \<longleftrightarrow> (\<exists>c\<in>set (usage_events db). ue_type c = Charge \<and> ue_provider_generation c \<noteq> None
     \<and> ue_provider_generation c = ue_provider_generation e)"

definition candidates :: "database \<Rightarrow> usage_event_row list" where
  "candidates db =
     take 64 (sort_key (\<lambda>e. (ue_created e, ue_id e))
       (filter (\<lambda>e. ue_type e = Pending \<and> ue_provider_generation e \<noteq> None \<and> \<not> is_charged db e) (usage_events db)))"

definition due_rows :: "time \<Rightarrow> backoff \<Rightarrow> usage_event_row list \<Rightarrow> usage_event_row list" where
  "due_rows now b es =
     take 8 (filter (\<lambda>e. snd (backoff_of b (ue_id e)) \<le> now \<and> fst (backoff_of b (ue_id e)) < max_attempts) es)"

text \<open>The loop over the due rows.  \<open>cost\<close> is the provider's metadata endpoint: \<open>None\<close> for an unknown
  amount, a timeout or any other failure.  \<open>ids\<close> are the identifiers drawn for new rows.\<close>

fun settle ::
    "time \<Rightarrow> (string \<Rightarrow> int option) \<Rightarrow> row_id list \<Rightarrow> usage_event_row list \<Rightarrow> backoff \<Rightarrow> database
      \<Rightarrow> database \<times> backoff \<times> nat" where
  "settle now cost ids [] b db = (db, b, 0)"
| "settle now cost ids (e # es) b db =
     (case ue_provider_generation e of
        None \<Rightarrow> settle now cost ids es b db
      | Some g \<Rightarrow>
          (case cost g of
             None \<Rightarrow> settle now cost ids es (defer_reconciliation now (ue_id e) b) db
           | Some c \<Rightarrow>
               (case append_usage_event
                       (e\<lparr>ue_id := hd ids, ue_dedupe := charge_key g (ue_purpose e), ue_type := Charge,
                          ue_amount := Some c, ue_created := now\<rparr>) db of
                  (db', added) \<Rightarrow>
                    (case settle now cost (tl ids) es (filter (\<lambda>x. fst x \<noteq> ue_id e) b) db' of
                       (db'', b', n) \<Rightarrow> (db'', b', (if added = None then n else n + 1))))))"

definition reconcile_pending_costs ::
    "time \<Rightarrow> (string \<Rightarrow> int option) \<Rightarrow> row_id list \<Rightarrow> backoff \<Rightarrow> database \<Rightarrow> database \<times> backoff \<times> nat" where
  "reconcile_pending_costs now cost ids b db =
     (let cs = candidates db; b' = filter (\<lambda>x. fst x \<in> ue_id ` set cs) b in
      settle now cost ids (due_rows now b' cs) b' db)"

end
