(* ===== verification/Generation_Run.thy ===== *)
theory Generation_Run
  imports Compaction Streams Usage_Ledger
begin

text \<open>
  One task of \<^verbatim>\<open>GenerationManager\<close> from its start to its done callback: transactions with their retries,
  the calls of the provider with what they record, the answer with its retries, its commit, the title, and
  the handling of every exception.  Everything outside the task is a parameter (\<open>surroundings\<close>).
\<close>

section \<open>A task and its surroundings\<close>

text \<open>What a task of \<^verbatim>\<open>GenerationManager\<close> works on: the stored state with the attachment directory and
  the generations that tasks own, the draft of its generation with the queues of its readers, and the
  number of suspension points (\<^verbatim>\<open>await\<close>) it has passed.\<close>

record world =
  wo_sys :: system
  wo_hub :: hub
  wo_count :: nat

text \<open>How an attempt to write ends: committed; an \<^verbatim>\<open>OperationalError\<close> with nothing written; an
  \<^verbatim>\<open>OperationalError\<close> although the commit took effect; another error of the database with nothing
  written; a cancellation of the task with nothing written.\<close>

datatype write_outcome = Applied | RolledBack | Unconfirmed | Refused | Aborted

text \<open>Everything outside the task, at its \<open>n\<close>-th suspension: \<open>su_others\<close> is what the other tasks do
  meanwhile, \<open>su_write\<close> how a write ends, \<open>su_now\<close> the clock, \<open>su_cancelled\<close> whether the task's cancel
  event is set, \<open>su_closing\<close> whether the process is shutting down, \<open>su_net\<close> the answers of the
  provider, \<open>su_request\<close> the outcome of composing and compacting the request.  The accounting of the
  maintenance calls made for \<open>su_request\<close> and the summaries it stores are among \<open>su_others\<close>.\<close>

record surroundings =
  su_others :: "nat \<Rightarrow> system \<times> hub \<Rightarrow> system \<times> hub"
  su_write :: "nat \<Rightarrow> write_outcome"
  su_now :: "nat \<Rightarrow> time"
  su_cancelled :: "nat \<Rightarrow> bool"
  su_closing :: "nat \<Rightarrow> bool"
  su_net :: "nat \<Rightarrow> json \<Rightarrow> nat \<Rightarrow> exchange"
  su_request :: "nat \<Rightarrow> system \<Rightarrow> generation_row \<Rightarrow> run_error + request_snapshot"
  su_drawn :: "database \<Rightarrow> drawn"
  su_event :: "database \<Rightarrow> row_id"
  su_file :: "nat \<Rightarrow> attachment_row \<Rightarrow> file_error option"
  su_extract :: "attachment_row \<Rightarrow> code + extracted_docx"
  su_display :: "row_id \<Rightarrow> pystr option"
  su_zone :: "time \<Rightarrow> pydate"
  su_today :: pydate
  su_limits :: limits
  su_attempts :: nat
  su_depth :: nat
  su_chat_tokens :: int
  su_max_words :: nat

type_synonym 'a action = "world \<Rightarrow> world \<times> (run_error + 'a)"

definition give :: "'a \<Rightarrow> 'a action" where
  "give x w = (w, Inr x)"

definition raises :: "run_error \<Rightarrow> 'a action" where
  "raises e w = (w, Inl e)"

definition and_then :: "'a action \<Rightarrow> ('a \<Rightarrow> 'b action) \<Rightarrow> 'b action" where
  "and_then m f w = (case m w of (w1, Inl e) \<Rightarrow> (w1, Inl e) | (w1, Inr x) \<Rightarrow> f x w1)"

definition on_hub :: "(hub \<Rightarrow> hub) \<Rightarrow> unit action" where
  "on_hub f w = (w\<lparr>wo_hub := f (wo_hub w)\<rparr>, Inr ())"

definition stored :: "world \<Rightarrow> database" where
  "stored w = sys_db (wo_sys w)"

definition store :: "database \<Rightarrow> world \<Rightarrow> world" where
  "store db w = w\<lparr>wo_sys := (wo_sys w)\<lparr>sys_db := db\<rparr>\<rparr>"

text \<open>A suspension: the others move.\<close>

definition pause :: "surroundings \<Rightarrow> world \<Rightarrow> world" where
  "pause env w =
     (case su_others env (wo_count w) (wo_sys w, wo_hub w) of
        (s, h) \<Rightarrow> \<lparr>wo_sys = s, wo_hub = h, wo_count = wo_count w + 1\<rparr>)"

section \<open>Transactions\<close>

definition operational_error :: run_error where
  "operational_error = Unexpected ''OperationalError''"

definition database_errors :: "run_error list" where
  "database_errors = [operational_error, Unexpected ''SQLAlchemyError'']"

definition write_once ::
  "surroundings \<Rightarrow> (time \<Rightarrow> database \<Rightarrow> run_error + database \<times> 'a) \<Rightarrow> 'a action" where
  "write_once env f w =
     (let w1 = pause env w in
      case su_write env (wo_count w1) of
        RolledBack \<Rightarrow> (w1, Inl operational_error)
      | Refused \<Rightarrow> (w1, Inl (Unexpected ''SQLAlchemyError''))
      | Aborted \<Rightarrow> (w1, Inl CancelledRun)
      | outcome \<Rightarrow>
          (case f (su_now env (wo_count w1)) (stored w1) of
             Inl e \<Rightarrow> (w1, Inl e)
           | Inr (db, x) \<Rightarrow>
               (store db w1, if outcome = Unconfirmed then Inl operational_error else Inr x)))"

text \<open>\<^verbatim>\<open>_with_write_retries\<close>; the sleep before the next attempt is part of its suspension.\<close>

definition write_retry_delays :: "rat list" where
  "write_retry_delays = [1 / 4, 1 / 2, 1, 2, 4, 8]"

fun write_attempts ::
  "surroundings \<Rightarrow> (time \<Rightarrow> database \<Rightarrow> run_error + database \<times> 'a) \<Rightarrow> rat list \<Rightarrow> 'a action" where
  "write_attempts env f [] w = write_once env f w"
| "write_attempts env f (d # ds) w =
     (case write_once env f w of
        (w1, Inl e) \<Rightarrow> if e = operational_error then write_attempts env f ds w1 else (w1, Inl e)
      | (w1, Inr x) \<Rightarrow> (w1, Inr x))"

definition with_write_retries ::
  "surroundings \<Rightarrow> (time \<Rightarrow> database \<Rightarrow> run_error + database \<times> 'a) \<Rightarrow> 'a action" where
  "with_write_retries env f = write_attempts env f write_retry_delays"

definition set_running_action :: "surroundings \<Rightarrow> row_id \<Rightarrow> generation_row option action" where
  "set_running_action env g =
     and_then (write_once env (\<lambda>now db. Inr (set_running now g db))) (\<lambda>r.
       case r of
         None \<Rightarrow> give None
       | Some gen \<Rightarrow> and_then (on_hub (set_live_status Running)) (\<lambda>_. give (Some gen)))"

definition finish_stopped_action :: "surroundings \<Rightarrow> row_id \<Rightarrow> unit action" where
  "finish_stopped_action env g =
     and_then (with_write_retries env (\<lambda>now db. Inr (finish_stopped now g db, ())))
       (\<lambda>_. on_hub (mark_finished Stopped))"

definition fail_action :: "surroundings \<Rightarrow> row_id \<Rightarrow> code \<Rightarrow> content_block list \<Rightarrow> unit action" where
  "fail_action env g c shown =
     and_then (with_write_retries env (\<lambda>now db. Inr (fail now g c shown db))) (\<lambda>finished.
       on_hub (case finished of None \<Rightarrow> notify | Some s \<Rightarrow> mark_finished s))"

section \<open>Calling the provider\<close>

text \<open>Texts of the provider as the ledger stores them: their UTF-8 bytes.\<close>

definition utf8_text :: "pystr \<Rightarrow> string" where
  "utf8_text s = map (\<lambda>b. char_of (unat b)) (utf8_encode s)"

text \<open>The state behind the callbacks of one call: the world, what the chunks went into, the exception
  a callback raised, and the identifiers seen (\<^verbatim>\<open>observed\<close>).\<close>

record 'x call_sink =
  cs_world :: world
  cs_data :: 'x
  cs_raised :: "run_error option"
  cs_seen :: "(pystr option \<times> pystr) option"

definition callback_failure :: failure where
  "callback_failure = Transport (Interrupted ''raised by a callback'')"

text \<open>The inner function \<^verbatim>\<open>on_delta\<close> of \<^verbatim>\<open>OpenRouterProvider.generate\<close>.  The flag \<open>own\<close> says that the call
  is for the answer itself: it is given the task's cancel event, and its identifiers go to the generation's
  row.  A title is given an event that nobody sets.\<close>

definition hand_on ::
  "surroundings \<Rightarrow> bool \<Rightarrow> (bytes \<Rightarrow> 'x \<Rightarrow> 'x action) \<Rightarrow> 'x call_sink \<Rightarrow> pystr \<Rightarrow> 'x call_sink \<times> failure option" where
  "hand_on env own chunk k delta =
     (let w1 = pause env (cs_world k) in
      if own \<and> su_cancelled env (wo_count w1) then
        (k\<lparr>cs_world := w1, cs_raised := Some CancelledRun\<rparr>, Some callback_failure)
      else
        (case chunk (utf8_encode delta) (cs_data k) w1 of
           (w2, Inl e) \<Rightarrow> (k\<lparr>cs_world := w2, cs_raised := Some e\<rparr>, Some callback_failure)
         | (w2, Inr x) \<Rightarrow> (k\<lparr>cs_world := w2, cs_data := x\<rparr>, None)))"

text \<open>The inner function \<^verbatim>\<open>on_provider_ids\<close> of \<^verbatim>\<open>_call_provider\<close>: an error of the database is not passed on.\<close>

definition note_ids ::
  "surroundings \<Rightarrow> usage_context \<Rightarrow> string \<Rightarrow> bool \<Rightarrow> 'x call_sink \<Rightarrow> pystr option \<Rightarrow> pystr \<Rightarrow>
     'x call_sink \<times> failure option" where
  "note_ids env u p own k request gen =
     (case write_once env (\<lambda>now db. Inr (record_provider_ids (su_event env db) now u p
              (map_option utf8_text request) (utf8_text gen) own db, ())) (cs_world k) of
        (w, Inl CancelledRun) \<Rightarrow>
          (k\<lparr>cs_world := w, cs_seen := Some (request, gen), cs_raised := Some CancelledRun\<rparr>, Some callback_failure)
      | (w, _) \<Rightarrow> (k\<lparr>cs_world := w, cs_seen := Some (request, gen)\<rparr>, None))"

definition provider_error_codes :: "(code \<times> code) list" where
  "provider_error_codes =
     [(''provider_incomplete_stream'', ''provider_stream_error''),
      (''provider_malformed_stream'', ''provider_stream_error''),
      (''provider_output_limit'', ''response_too_long''),
      (''provider_content_filter'', ''provider_content_filtered'')]"

definition mapped_code :: "code \<Rightarrow> code" where
  "mapped_code c = (case map_of provider_error_codes c of None \<Rightarrow> c | Some d \<Rightarrow> d)"

definition maintenance_limits :: "(string \<times> int \<times> pystr) list" where
  "maintenance_limits =
     [(''title'', 512, lit ''low''), (''summary'', 16384, lit ''high''), (''prompt_handoff'', 16384, lit ''high'')]"

definition outcome_of :: "bool \<Rightarrow> pystr option \<Rightarrow> pystr option \<Rightarrow> provider_usage option \<Rightarrow> call_outcome" where
  "outcome_of failed request gen usage =
     \<lparr>co_failed = failed, co_request = map_option utf8_text request, co_generation = map_option utf8_text gen,
      co_cost = (case usage of None \<Rightarrow> None | Some u \<Rightarrow> cost_microusd u)\<rparr>"

definition silent_outcome :: call_outcome where
  "silent_outcome = outcome_of True None None None"

text \<open>\<^verbatim>\<open>OpenRouterProvider.generate\<close> with the callbacks of the call.  An error comes with what it says of
  the call, which is recorded when it is a provider error.\<close>

definition generate ::
  "surroundings \<Rightarrow> (bytes \<Rightarrow> 'x \<Rightarrow> 'x action) \<Rightarrow> usage_context \<Rightarrow> string \<Rightarrow> string \<Rightarrow> bool \<Rightarrow> request_snapshot \<Rightarrow>
     'x \<Rightarrow> world \<Rightarrow> 'x call_sink \<times> (run_error \<times> call_outcome + call_outcome)" where
  "generate env chunk u p lp own snap x w =
     (let k = \<lparr>cs_world = w, cs_data = x, cs_raised = None, cs_seen = None\<rparr> in
      case snapshot_messages ''invalid_request_snapshot'' snap of
        Inl e \<Rightarrow> (k, Inl (e, silent_outcome))
      | Inr ms \<Rightarrow>
          (case (case map_of maintenance_limits p of
                   Some l \<Rightarrow> l | None \<Rightarrow> (su_chat_tokens env, lit ''high'')) of
             (tokens, effort) \<Rightarrow>
               (case stream_chat \<lparr>on_delta = hand_on env own chunk, on_ids = Some (note_ids env u lp own)\<rparr>
                       (su_depth env) (su_attempts env) (su_net env (wo_count w)) ms tokens effort k of
                  (k1, _, Inr c) \<Rightarrow>
                    (k1, Inr (outcome_of False (provider_completion.co_request c)
                       (provider_completion.co_generation c) (co_usage c)))
                | (k1, _, Inl (ProviderFailure e)) \<Rightarrow>
                    (k1, Inl (ProviderFailed (mapped_code (pe_code e)),
                       outcome_of True (pe_request e) (pe_generation e) (pe_usage e)))
                | (k1, _, Inl (Transport t)) \<Rightarrow>
                    (k1, Inl (case (cs_raised k1, t) of
                                (Some e, _) \<Rightarrow> e
                              | (None, Interrupted c) \<Rightarrow>
                                  if c = ''CancelledError'' then CancelledRun else Unexpected c
                              | _ \<Rightarrow> Unexpected ''HTTPError'', silent_outcome)))))"

text \<open>\<^verbatim>\<open>_record_usage\<close>: nothing is written when neither a cost nor an identifier is known.\<close>

definition settle_usage ::
  "surroundings \<Rightarrow> usage_context \<Rightarrow> call_outcome \<Rightarrow> string \<Rightarrow> string \<Rightarrow> (pystr option \<times> pystr) option \<Rightarrow>
     unit action" where
  "settle_usage env u c lp scope seen =
     (let r = Option.bind (map_option fst seen) (map_option utf8_text);
          g = map_option (utf8_text \<circ> snd) seen in
      if co_cost c = None \<and> or_else (call_outcome.co_generation c) g = None then give ()
      else write_once env (\<lambda>now db. Inr (record_usage (su_event env db) now u c lp scope r g db, ())))"

definition completion_of :: "call_outcome \<Rightarrow> completion" where
  "completion_of c = \<lparr>comp_request = call_outcome.co_request c, comp_generation = call_outcome.co_generation c\<rparr>"

text \<open>\<^verbatim>\<open>_call_provider\<close>, waiting for a slot included; \<open>scope\<close> is the request's identifier.\<close>

definition call_provider ::
  "surroundings \<Rightarrow> (bytes \<Rightarrow> 'x \<Rightarrow> 'x action) \<Rightarrow> usage_context \<Rightarrow> string \<Rightarrow> string \<Rightarrow> string \<Rightarrow> bool \<Rightarrow>
     request_snapshot \<Rightarrow> 'x \<Rightarrow> ('x \<times> completion) action" where
  "call_provider env chunk u p lp scope own snap x w =
     (let w1 = pause env w in
      if su_cancelled env (wo_count w1) then (w1, Inl CancelledRun)
      else
        (case generate env chunk u p lp own snap x w1 of
           (k, Inr c) \<Rightarrow>
             and_then (settle_usage env u c lp scope (cs_seen k)) (\<lambda>_. give (cs_data k, completion_of c)) (cs_world k)
         | (k, Inl (ProviderFailed e, c)) \<Rightarrow>
             and_then (settle_usage env u c lp scope (cs_seen k)) (\<lambda>_. raises (ProviderFailed e)) (cs_world k)
         | (k, Inl (e, _)) \<Rightarrow> (cs_world k, Inl e)))"


section \<open>Committing the answer\<close>

text \<open>\<^verbatim>\<open>_load_docx_template\<close>: \<open>file\<close> is the outcome of reading and hashing the stored file and
  \<open>extracted\<close> what \<^verbatim>\<open>extract_docx\<close> makes of it.\<close>

definition load_docx_template ::
  "file_error option \<Rightarrow> code + extracted_docx \<Rightarrow> json \<Rightarrow> extracted_docx res" where
  "load_docx_template file extracted stored_blocks =
     (case file of
        Some IntegrityMismatch \<Rightarrow> Inl ''state_docx_template_invalid''
      | Some _ \<Rightarrow> Inl ''state_docx_template_missing''
      | None \<Rightarrow>
          (case bind_res extracted (\<lambda>x.
                  bind_res (require_matching_blocks (ext_blocks x) stored_blocks) (\<lambda>_. Inr x)) of
             Inr x \<Rightarrow> Inr x
           | Inl c \<Rightarrow>
               Inl (if c = ''docx_template_outdated'' then ''state_docx_template_outdated''
                    else ''state_docx_template_invalid'')))"

definition prepare_docx_templates :: "surroundings \<Rightarrow> row_id \<Rightarrow> protocol_document \<Rightarrow> templates action" where
  "prepare_docx_templates env g d w =
     (let w1 = pause env w in
      case the_generation (stored w1) g of
        None \<Rightarrow> (w1, Inr [])
      | Some r \<Rightarrow>
          if gen_purpose r \<noteq> Chat \<or> gen_thread r = None then (w1, Inr [])
          else
            (case template_attachment (stored w1) r (doc_state d) of
               Inl c \<Rightarrow> (w1, Inl (ProtocolFailed c))
             | Inr None \<Rightarrow> (w1, Inr [])
             | Inr (Some a) \<Rightarrow>
                 let w2 = pause env w1 in
                 (case load_docx_template (su_file env (wo_count w2) a) (su_extract env a) (att_blocks a) of
                    Inl c \<Rightarrow> (w2, Inl (ProtocolFailed c))
                  | Inr x \<Rightarrow> (w2, Inr [(att_id a, x)]))))"

definition commit_transaction ::
  "surroundings \<Rightarrow> row_id \<Rightarrow> protocol_document \<Rightarrow> completion \<Rightarrow> templates \<Rightarrow> time \<Rightarrow> database \<Rightarrow>
     run_error + database \<times> bool" where
  "commit_transaction env g d c ts now db =
     (case commit_success_once now (su_max_words env) (su_drawn env db) ts g d c db of
        Inl (ProtocolFailure e) \<Rightarrow> Inl (ProtocolFailed e)
      | Inl StaleState \<Rightarrow> Inl StaleFailed
      | Inl StatePersistence \<Rightarrow> Inl PersistenceFailed
      | Inr None \<Rightarrow> Inr (db, False)
      | Inr (Some db') \<Rightarrow> Inr (db', True))"

text \<open>What \<^verbatim>\<open>_commit_success\<close> makes of an error while templates are prepared, and of one of the database.\<close>

definition template_failure :: "run_error \<Rightarrow> run_error" where
  "template_failure e =
     (case e of
        ProtocolFailed c \<Rightarrow> if c = ''state_docx_template_outdated'' then OutdatedFailed else PersistenceFailed
      | _ \<Rightarrow> e)"

definition write_failure :: "bool \<Rightarrow> run_error \<Rightarrow> run_error" where
  "write_failure mutates e = (if mutates \<and> e \<in> set database_errors then PersistenceFailed else e)"

definition catching :: "(run_error \<Rightarrow> run_error) \<Rightarrow> 'a action \<Rightarrow> 'a action" where
  "catching f m w = (case m w of (w1, Inl e) \<Rightarrow> (w1, Inl (f e)) | (w1, Inr x) \<Rightarrow> (w1, Inr x))"

definition commit_success :: "surroundings \<Rightarrow> row_id \<Rightarrow> protocol_document \<Rightarrow> completion \<Rightarrow> unit action" where
  "commit_success env g d c =
     (let mutates = doc_state d \<noteq> NoState in
      and_then (if mutates then catching template_failure (prepare_docx_templates env g d) else give []) (\<lambda>ts.
      and_then (catching (write_failure mutates) (with_write_retries env (commit_transaction env g d c ts)))
        (\<lambda>claimed. if claimed then on_hub (mark_finished Completed) else finish_stopped_action env g)))"

section \<open>Answering\<close>

definition purpose_text :: "purpose \<Rightarrow> string" where
  "purpose_text p =
     (case p of Chat \<Rightarrow> ''chat'' | PromptHandoff \<Rightarrow> ''prompt_handoff'' | TitlePurpose \<Rightarrow> ''title''
      | SummaryPurpose \<Rightarrow> ''summary'' | SmokeTest \<Rightarrow> ''smoke_test'')"

text \<open>\<^verbatim>\<open>_compose\<close>, followed by \<^verbatim>\<open>_maybe_compact_context\<close>.\<close>

definition compose_request :: "surroundings \<Rightarrow> generation_row \<Rightarrow> request_snapshot action" where
  "compose_request env gen w =
     (let w1 = pause env w in
      (w1, case Option.bind (gen_thread gen) (the_thread (stored w1)) of
             None \<Rightarrow> Inl (GenerationFailed ''thread_not_found'')
           | Some _ \<Rightarrow> su_request env (wo_count w1) (wo_sys w1) gen))"

definition live_chunk :: "surroundings \<Rightarrow> bytes \<Rightarrow> decoder \<Rightarrow> decoder action" where
  "live_chunk env chunk dec w =
     (case emit (su_cancelled env (wo_count w)) chunk (dec, wo_hub w) of
        Inl c \<Rightarrow> (w, Inl (if c = ''CancelledError'' then CancelledRun else ProtocolFailed c))
      | Inr (dec', h) \<Rightarrow> (w\<lparr>wo_hub := h\<rparr>, Inr dec'))"

text \<open>One round of the loop of \<^verbatim>\<open>_respond\<close>; an error comes with the flag \<^verbatim>\<open>decoded\<close>.\<close>

definition answer_once ::
  "surroundings \<Rightarrow> generation_row \<Rightarrow> nat \<Rightarrow> request_snapshot \<Rightarrow> world \<Rightarrow> world \<times> (bool \<times> run_error + unit)" where
  "answer_once env gen k snap w =
     (let p = purpose_text (gen_purpose gen);
          scope = (if k = 0 then gen_id gen else gen_id gen @ '':protocol-retry:'' @ show_nat k) in
      case new_decoder (su_limits env) of
        None \<Rightarrow> (w, Inl (False, Unexpected ''ValueError''))
      | Some dec \<Rightarrow>
          (case call_provider env (live_chunk env) (usage_of gen) p p scope True snap dec w of
             (w1, Inl e) \<Rightarrow> (w1, Inl (False, e))
           | (w1, Inr (dec', c)) \<Rightarrow>
               (case finish dec' of
                  Inl e \<Rightarrow> (w1, Inl (False, ProtocolFailed e))
                | Inr d \<Rightarrow>
                    (case commit_success env (gen_id gen) d c w1 of
                       (w2, Inl e) \<Rightarrow> (w2, Inl (True, e))
                     | (w2, Inr _) \<Rightarrow> (w2, Inr ())))))"

definition given_up :: "bool \<Rightarrow> code \<Rightarrow> run_error" where
  "given_up decoded c = (if decoded \<and> c \<in> set repairable_state_codes then PersistenceFailed else ProtocolFailed c)"

text \<open>The loop from attempt \<open>k\<close>, with \<open>n\<close> attempts left.\<close>

fun answer_attempts :: "surroundings \<Rightarrow> generation_row \<Rightarrow> nat \<Rightarrow> nat \<Rightarrow> request_snapshot \<Rightarrow> unit action" where
  "answer_attempts env gen 0 k snap w = (w, Inr ())"
| "answer_attempts env gen (Suc n) k snap w =
     (case answer_once env gen k snap w of
        (w1, Inr _) \<Rightarrow> (w1, Inr ())
      | (w1, Inl (decoded, ProtocolFailed c)) \<Rightarrow>
          if n = 0 then (w1, Inl (given_up decoded c))
          else
            (case reset_draft_for_retry (wo_hub w1) of
               (h, False) \<Rightarrow> (w1, Inl (given_up decoded c))
             | (h, True) \<Rightarrow>
                 (case protocol_retry_snapshot snap c of
                    Inl e \<Rightarrow> (w1\<lparr>wo_hub := h\<rparr>, Inl e)
                  | Inr snap' \<Rightarrow> answer_attempts env gen n (k + 1) snap' (w1\<lparr>wo_hub := h\<rparr>)))
      | (w1, Inl (_, e)) \<Rightarrow> (w1, Inl e))"

definition respond :: "surroundings \<Rightarrow> generation_row \<Rightarrow> unit action" where
  "respond env gen = and_then (compose_request env gen) (answer_attempts env gen 3 0)"

section \<open>Titles\<close>

definition title_input_chars :: nat where
  "title_input_chars = 2000"

definition mode_text :: "thread_mode \<Rightarrow> pystr" where
  "mode_text m =
     (case m of Translate \<Rightarrow> lit ''translate'' | RevisionMode \<Rightarrow> lit ''revision'' | InternalComms \<Rightarrow> lit ''internal_comms'')"

definition context_of :: "thread_row \<Rightarrow> context_thread" where
  "context_of th =
     \<lparr>ct_id = lit (th_id th), ct_mode = mode_text (th_mode th), ct_summary = th_summary th,
      ct_summary_through = map_option int (th_summary_through th)\<rparr>"

fun opening_blocks :: "int \<Rightarrow> docx_block list \<Rightarrow> docx_block list" where
  "opening_blocks remaining [] = []"
| "opening_blocks remaining (b # bs) =
     (if remaining \<le> 0 then []
      else b\<lparr>dblock_text := take (nat remaining) (dblock_text b)\<rparr>
           # opening_blocks (remaining - int (length (dblock_text b))) bs)"

definition title_attachment :: "database \<Rightarrow> message_row \<Rightarrow> pystr \<Rightarrow> (pystr \<times> attachment_document) list res" where
  "title_attachment db first request =
     (if title_input_chars \<le> length request then Inr []
      else
        (case find (\<lambda>a. att_message a = msg_id first) (attachments db) of
           None \<Rightarrow> Inr []
         | Some a \<Rightarrow>
             let stored_blocks = (case docx_blocks_from_storage (att_blocks a) of Inl _ \<Rightarrow> [] | Inr bs \<Rightarrow> bs)
             in bind_res (new_attachment_document (int (att_words a))
                  (opening_blocks (int title_input_chars - int (length request)) stored_blocks)
                  (role_name (att_role a)))
                  (\<lambda>d. Inr [(lit (msg_id first), d)])))"

definition title_message :: "thread_row \<Rightarrow> message_row \<Rightarrow> row_id \<Rightarrow> pystr \<Rightarrow> context_message" where
  "title_message th first actor request =
     \<lparr>cm_id = lit (msg_id first), cm_thread = lit (th_id th), cm_ordinal = int (msg_ordinal first),
      cm_role = lit ''user'', cm_actor = Some (lit actor),
      cm_content = (if request = [] then []
        else [[(lit ''type'', JStr (lit ''conversation'')),
               (lit ''text'', JStr (take title_input_chars request))]]),
      cm_created = None\<rparr>"

text \<open>\<^verbatim>\<open>_title_snapshot\<close>.\<close>

definition title_snapshot :: "surroundings \<Rightarrow> database \<Rightarrow> thread_row \<Rightarrow> run_error + request_snapshot option" where
  "title_snapshot env db th =
     (case sort_key msg_ordinal (filter (\<lambda>x. msg_role x = UserRole) (thread_messages db (th_id th))) of
        [] \<Rightarrow> Inr None
      | first # _ \<Rightarrow>
          (case msg_actor first of
             None \<Rightarrow> Inr None
           | Some actor \<Rightarrow>
               let request = strip (join [10] (map block_text (msg_content first)));
                   name = (case su_display env actor of None \<Rightarrow> lit ''User'' | Some s \<Rightarrow> if s = [] then lit ''User'' else s)
               in (case bind_res (title_attachment db first request) (\<lambda>atts.
                          snd (build_provider_messages (\<lambda>_. Unresolved) (su_depth env) (su_zone env) (su_today env)
                            (\<lambda>_. None) (context_of th) (lit ''title'') [title_message th first actor request]
                            [(lit actor, name)] atts None None None)) of
                     Inl c \<Rightarrow> Inl (context_error c)
                   | Inr ms \<Rightarrow> Inr (Some (snapshot_of (mode_text (th_mode th)) ms)))))"

definition title_ok :: "pystr \<Rightarrow> bool" where
  "title_ok s \<longleftrightarrow> s \<noteq> [] \<and> length s \<le> 60 \<and> 10 \<notin> set s \<and> 2 \<le> count_words s \<and> count_words s \<le> 6"

text \<open>What \<^verbatim>\<open>_generate_title\<close> reads first: whether a title is wanted, and the request for it.\<close>

definition title_request :: "surroundings \<Rightarrow> row_id \<Rightarrow> row_id \<Rightarrow> database \<Rightarrow> run_error + request_snapshot option" where
  "title_request env g t db =
     (case (the_thread db t, the_generation db g) of
        (Some th, Some gen) \<Rightarrow>
          if th_title th \<noteq> Some default_title \<or> gen_status gen \<noteq> Completed
             \<or> length (thread_messages db t) \<noteq> 2 then Inr None
          else title_snapshot env db th
      | _ \<Rightarrow> Inr None)"

definition collect_action :: "bytes \<Rightarrow> bounded_chunks \<Rightarrow> bounded_chunks action" where
  "collect_action chunk b w = (w, collect_chunk 1024 ''title_too_large'' chunk b)"

definition generate_title :: "surroundings \<Rightarrow> usage_context \<Rightarrow> row_id \<Rightarrow> unit action" where
  "generate_title env u t w =
     (let w1 = pause env w in
      case title_request env (uc_generation u) t (stored w1) of
        Inl e \<Rightarrow> (w1, Inl e)
      | Inr None \<Rightarrow> (w1, Inr ())
      | Inr (Some snap) \<Rightarrow>
          and_then (call_provider env collect_action u ''title'' ''title'' (uc_generation u @ '':title'') False
              snap ([], 0))
            (\<lambda>(b, _).
               case utf8_decode (concat (fst b)) of
                 Some (s, []) \<Rightarrow>
                   if title_ok (strip s) then write_once env (\<lambda>now db. Inr (set_title now t (strip s) db, ()))
                   else give ()
               | _ \<Rightarrow> raises (Unexpected ''UnicodeDecodeError'')) w1)"

text \<open>No failure of a title touches the answer; a cancellation passes.\<close>

definition maybe_generate_title :: "surroundings \<Rightarrow> usage_context \<Rightarrow> row_id \<Rightarrow> unit action" where
  "maybe_generate_title env u t w =
     (case generate_title env u t w of
        (w1, Inl CancelledRun) \<Rightarrow> (w1, Inl CancelledRun)
      | (w1, _) \<Rightarrow> (w1, Inr ()))"

section \<open>The task\<close>

definition live_blocks :: "hub \<Rightarrow> content_block list" where
  "live_blocks h = (case hub_live h of None \<Rightarrow> [] | Some l \<Rightarrow> snapshot_blocks (lv_blocks l))"

text \<open>The body of the \<^verbatim>\<open>try\<close> statement of \<^verbatim>\<open>_run\<close>, and its \<^verbatim>\<open>except\<close> clauses.\<close>

definition run_body :: "surroundings \<Rightarrow> row_id \<Rightarrow> unit action" where
  "run_body env g =
     and_then (set_running_action env g) (\<lambda>r.
       case r of
         None \<Rightarrow> finish_stopped_action env g
       | Some gen \<Rightarrow>
           and_then (respond env gen) (\<lambda>_.
             case (gen_purpose gen, gen_thread gen) of
               (Chat, Some t) \<Rightarrow> maybe_generate_title env (usage_of gen) t
             | _ \<Rightarrow> give ()))"

definition failure_code :: "run_error \<Rightarrow> code" where
  "failure_code e =
     (case e of
        ProviderFailed c \<Rightarrow> c
      | GenerationFailed c \<Rightarrow> c
      | ProtocolFailed _ \<Rightarrow> ''protocol_error''
      | ContextFailed _ \<Rightarrow> ''context_unavailable''
      | StaleFailed \<Rightarrow> ''stale_state''
      | OutdatedFailed \<Rightarrow> ''docx_template_outdated''
      | PersistenceFailed \<Rightarrow> ''state_persistence_failed''
      | CancelledRun \<Rightarrow> ''restart_interrupted''
      | Unexpected _ \<Rightarrow> ''provider_error'')"

definition handle_failure :: "surroundings \<Rightarrow> row_id \<Rightarrow> run_error \<Rightarrow> unit action" where
  "handle_failure env g e w =
     (case e of
        CancelledRun \<Rightarrow>
          if su_closing env (wo_count w) then fail_action env g (failure_code e) [] w
          else finish_stopped_action env g w
      | _ \<Rightarrow>
          fail_action env g (failure_code e)
            (if e \<in> {StaleFailed, OutdatedFailed, PersistenceFailed} then live_blocks (wo_hub w) else []) w)"

definition run_generation :: "surroundings \<Rightarrow> row_id \<Rightarrow> unit action" where
  "run_generation env g w =
     (case run_body env g w of
        (w1, Inr _) \<Rightarrow> (w1, Inr ())
      | (w1, Inl e) \<Rightarrow> handle_failure env g e w1)"

text \<open>The task with its done callback; an exception that \<^verbatim>\<open>_run\<close> lets through is only logged.\<close>

definition run_task :: "surroundings \<Rightarrow> row_id \<Rightarrow> unit action" where
  "run_task env g w =
     (case run_generation env g w of
        (w1, r) \<Rightarrow>
          (w1\<lparr>wo_sys := (wo_sys w1)\<lparr>sys_live := filter (\<lambda>i. i \<noteq> g) (sys_live (wo_sys w1))\<rparr>,
              wo_hub := task_finished (wo_hub w1)\<rparr>, r))"

end
