(* ===== verification/Provider_Guarantees.thy ===== *)
theory Provider_Guarantees
  imports Provider_Client
begin

text \<open>
  Charges are exact to half a microdollar, results are well typed, no delta is ever delivered twice,
  and the token estimate respects its bound.
\<close>

section \<open>Lines\<close>

text \<open>C38: The lines read from an event stream do not depend on how the text arrives in chunks: they
  are the pieces of the whole text that CR, LF or CRLF ends, the unterminated last piece dropped.\<close>

theorem sse_lines_chunk_independent: "sse_lines chunks = stream_lines (concat chunks)"
  by (simp add: sse_lines_def stream_lines_def sse_lines_from_spec tail_ok_def)

section \<open>Charges\<close>

lemma half_even_close: "\<bar>of_int (half_even q) - q\<bar> \<le> 1 / 2"
proof -
  have "of_int \<lfloor>q\<rfloor> \<le> q" "q < of_int \<lfloor>q\<rfloor> + 1" by linarith+
  then show ?thesis unfolding half_even_def Let_def by (simp add: abs_if) linarith
qed

lemma power_int_rat_pos: "0 < b \<Longrightarrow> 0 < power_int_rat b e"
  by (simp add: power_int_rat_def)

lemma power_int_rat_le: "k \<le> - 15 \<Longrightarrow> power_int_rat 10 k \<le> 1 / 10 ^ 15"
proof -
  assume k: "k \<le> - 15"
  then have "(10::rat) ^ 15 \<le> 10 ^ nat (- k)" by (intro power_increasing) auto
  then have "1 / (10::rat) ^ nat (- k) \<le> 1 / 10 ^ 15"
    by (intro divide_left_mono) auto
  with k show ?thesis by (simp add: power_int_rat_def)
qed

lemma ilog10_le:
  assumes "q \<le> 10 ^ 12" shows "ilog10 q \<le> 12"
proof (cases "1 \<le> q")
  case True
  have "of_int \<lfloor>q\<rfloor> \<le> (10 ^ 12 :: rat)" using assms of_int_floor_le order_trans by blast
  then have "\<lfloor>q\<rfloor> \<le> 10 ^ 12" by (metis of_int_le_iff of_int_numeral of_int_power)
  then have "\<lfloor>q\<rfloor> < 10 ^ 13" by (rule le_less_trans) simp
  moreover have "0 \<le> \<lfloor>q\<rfloor>" using True by simp
  ultimately have "nat \<lfloor>q\<rfloor> < nat (10 ^ 13)" by (simp only: nat_less_eq_zless)
  then have "nat \<lfloor>q\<rfloor> < 10 ^ 13" by (simp only: nat_power_eq) simp
  then have "length (digits_of (nat \<lfloor>q\<rfloor>)) \<le> 13" by (rule length_digits_of_le) simp
  with True show ?thesis by (simp add: ilog10_def)
qed (simp add: ilog10_def)

lemma context_round_close:
  assumes "q \<le> 10 ^ 12"
  shows "\<bar>context_round q - q\<bar> \<le> 1 / 2 * (1 / 10 ^ 15)"
proof (cases "q = 0")
  case False
  define k where "k = ilog10 q - 27"
  define u where "u = power_int_rat 10 k"
  have u: "0 < u" "u \<le> 1 / 10 ^ 15"
    using ilog10_le [OF assms] power_int_rat_le [of k]
    by (auto simp: u_def k_def power_int_rat_pos)
  have "context_round q - q = (of_int (half_even (q / u)) - q / u) * u"
    using False u(1) by (simp add: context_round_def Let_def k_def u_def field_simps)
  then have "\<bar>context_round q - q\<bar> = \<bar>of_int (half_even (q / u)) - q / u\<bar> * u"
    using u(1) by (simp add: abs_mult)
  also have "\<dots> \<le> 1 / 2 * (1 / 10 ^ 15)"
    using u half_even_close by (intro mult_mono) auto
  finally show ?thesis .
qed (simp add: context_round_def)

lemma microusd_close:
  assumes "d \<le> max_cost_usd"
  shows "\<bar>of_int (microusd d) - d * 10 ^ 6\<bar> \<le> 1 / 2 + 1 / 2 * (1 / 10 ^ 15)"
proof -
  define p where "p = context_round (d * 1000000)"
  have "\<bar>p - d * 1000000\<bar> \<le> 1 / 2 * (1 / 10 ^ 15)"
    using context_round_close [of "d * 1000000"] assms by (simp add: p_def max_cost_usd_def)
  moreover have "\<bar>of_int \<lfloor>p + 1 / 2\<rfloor> - p\<bar> \<le> 1 / 2"
    unfolding abs_le_iff by linarith
  ultimately have "\<bar>of_int \<lfloor>p + 1 / 2\<rfloor> - d * 1000000\<bar> \<le> 1 / 2 + 1 / 2 * (1 / 10 ^ 15)"
    unfolding abs_le_iff by linarith
  then show ?thesis by (simp add: microusd_def p_def)
qed

lemma cost_cases:
  assumes "cost v = (u, m)"
  shows "(u = None \<and> m = None) \<or> (\<exists>d. u = Some d \<and> m = Some (microusd d) \<and> 0 \<le> d \<and> d \<le> max_cost_usd)"
  using assms by (auto simp: cost_def not_less split: option.splits decimal.splits if_splits)

lemma microusd_range:
  assumes "0 \<le> d" "d \<le> max_cost_usd"
  shows "0 \<le> microusd d" "microusd d \<le> 10 ^ 12"
proof -
  have "\<bar>of_int (microusd d) - d * 10 ^ 6\<bar> < 1"
    using microusd_close [OF assms(2)] by (rule le_less_trans) simp
  then have "of_int (microusd d) < d * 10 ^ 6 + (1::rat)" "d * 10 ^ 6 - 1 < (of_int (microusd d) :: rat)"
    by (auto simp: abs_less_iff)
  moreover have "d * 10 ^ 6 \<le> 10 ^ 12" "0 \<le> d * 10 ^ 6" using assms by (auto simp: max_cost_usd_def)
  ultimately have "of_int (microusd d) < (of_int (10 ^ 12 + 1) :: rat)" "of_int (- 1) < (of_int (microusd d) :: rat)"
    by auto
  then show "0 \<le> microusd d" "microusd d \<le> 10 ^ 12" by (auto simp only: of_int_less_iff)
qed

text \<open>C39: A charge is refused, or is a decimal amount of at most a million dollars together with a
  number of microdollars between 0 and 10^12 that differs from the amount by at most half a
  microdollar and the 28-digit context's rounding of 5 * 10^-16.\<close>

theorem cost_nearest_microdollar:
  "cost v = (None, None) \<or>
   (\<exists>d m. cost v = (Some d, Some m) \<and> 0 \<le> d \<and> d \<le> 1000000 \<and> 0 \<le> m \<and> m \<le> 10 ^ 12
      \<and> \<bar>of_int m - d * 10 ^ 6\<bar> \<le> 1 / 2 + 1 / (2 * 10 ^ 15))"
proof -
  obtain u m where c: "cost v = (u, m)" by fastforce
  from cost_cases [OF c] consider "u = None" "m = None"
    | d where "u = Some d" "m = Some (microusd d)" "0 \<le> d" "d \<le> max_cost_usd" by blast
  then show ?thesis
  proof cases
    case (2 d)
    with microusd_range [OF 2(3,4)] microusd_close [OF 2(4)] c show ?thesis
      by (simp add: max_cost_usd_def)
  qed (simp add: c)
qed

section \<open>Invariants of an attempt\<close>

definition surrogate_free :: "pystr \<Rightarrow> bool" where
  "surrogate_free s \<longleftrightarrow> \<not> list_ex surrogate s"

lemma surrogate_halves: "surrogate c \<longleftrightarrow> high_surrogate c \<or> low_surrogate c"
  by (auto simp: surrogate_def high_surrogate_def low_surrogate_def)

lemma joined_pair: "high_surrogate h \<Longrightarrow> low_surrogate l \<Longrightarrow> \<not> surrogate (join_surrogates h l)"
  by (simp add: join_surrogates_def surrogate_def)

lemma join_pairs_free: "join_pairs s = Some t \<Longrightarrow> surrogate_free t"
proof (induction s arbitrary: t rule: join_pairs.induct)
  case (2 c s)
  then show ?case
    by (auto simp: surrogate_free_def surrogate_halves joined_pair [simplified surrogate_halves]
        split: if_splits list.splits)
qed (simp add: surrogate_free_def)

lemma joined_surrogates_free: "joined_surrogates s = Inr t \<Longrightarrow> surrogate_free t"
  by (auto simp: joined_surrogates_def surrogate_free_def dest: join_pairs_free
      split: if_splits option.splits)

text \<open>A predicate that survives each assignment of the attempt survives the whole exchange.\<close>

locale attempt_invariant =
  fixes cb :: "'s callbacks" and inv :: "'s attempt \<Rightarrow> bool"
  assumes inv_held: "inv a \<Longrightarrow> inv (a\<lparr>at_held := h\<rparr>)"
    and inv_delta: "inv a \<Longrightarrow> d \<noteq> [] \<Longrightarrow> surrogate_free d \<Longrightarrow> on_delta cb (at_sink a) d = (s, err) \<Longrightarrow>
      inv (a\<lparr>at_parts := at_parts a @ [d], at_emitted := True, at_sink := s\<rparr>)"
    and inv_ids: "inv a \<Longrightarrow> announce_ids cb (at_generation a = None)
        (a\<lparr>at_generation := or_known (safe_string v) (at_generation a)\<rparr>) = (a', err) \<Longrightarrow> inv a'"
    and inv_named: "inv a \<Longrightarrow> inv (a\<lparr>at_provider := or_known (safe_string v) (at_provider a),
        at_usage := or_known (parse_usage w) (at_usage a)\<rparr>)"
    and inv_finish: "inv a \<Longrightarrow> inv (a\<lparr>at_finish := f\<rparr>)"
    and inv_done: "inv a \<Longrightarrow> inv (a\<lparr>at_done := True\<rparr>)"
    and inv_request: "inv a \<Longrightarrow> inv (a\<lparr>at_request := header_string r\<rparr>)"
begin

lemma inv_deliver: "inv a \<Longrightarrow> inv (fst (deliver cb cs a))"
proof (induction cs arbitrary: a)
  case (Cons c cs)
  obtain raw held where sp: "split_trailing_surrogate (at_held a @ c) = (raw, held)" by fastforce
  let ?a1 = "a\<lparr>at_held := held\<rparr>"
  have a1: "inv ?a1" using Cons.prems by (rule inv_held)
  show ?case
  proof (cases "joined_surrogates raw")
    case (Inl f)
    with sp a1 show ?thesis by simp
  next
    case (Inr d)
    obtain s err where cbk: "on_delta cb (at_sink ?a1) d = (s, err)" by fastforce
    with inv_delta [OF a1 _ joined_surrogates_free [OF Inr]] Cons.IH sp a1 Inr show ?thesis
      by (cases "d = []"; cases err) (simp_all add: Let_def)
  qed
qed simp

lemma inv_on_payload: "inv a \<Longrightarrow> inv (fst (on_payload cb p a))"
proof -
  assume a: "inv a"
  obtain a2 err where ids: "announce_ids cb (at_generation a = None)
      (a\<lparr>at_generation := or_known (safe_string (payload_field p ''id'')) (at_generation a)\<rparr>) = (a2, err)"
    by fastforce
  note a2 = inv_ids [OF a ids]
  note a3 = inv_named [OF a2, where v = "payload_field p ''provider''" and w = "payload_field p ''usage''"]
  show ?thesis
    using ids a2 a3 inv_deliver [OF inv_finish [OF a3]] inv_finish [OF a3]
    by (auto simp: on_payload_def Let_def split: option.splits sum.splits)
qed

lemma inv_on_line: "inv a \<Longrightarrow> inv (fst (on_line cb limit l a))"
  by (auto simp: on_line_def Let_def inv_done inv_on_payload split: sum.splits)

lemma inv_on_lines: "inv a \<Longrightarrow> inv (fst (on_lines cb limit ls a))"
  by (induction ls arbitrary: a) (auto simp: continue_with_def inv_on_line)

lemma inv_read_body: "inv a \<Longrightarrow> inv (fst (read_body cb limit t chunks ending a))"
proof (induction chunks arbitrary: t a)
  case (Cons c cs)
  then show ?case
    by (auto simp: continue_with_def inv_on_lines split: prod.splits)
qed (auto simp: inv_on_lines split: option.splits)

lemma inv_run_exchange: "inv a \<Longrightarrow> inv (fst (run_exchange cb limit x a))"
  by (auto simp: run_exchange_def Let_def inv_request inv_read_body split: exchange.splits)

end

text \<open>What an attempt may know: texts without surrogates, non-empty names, a usage that is one.\<close>

definition named :: "pystr option \<Rightarrow> bool" where
  "named n \<longleftrightarrow> n \<noteq> Some []"

definition count_ok :: "int option \<Rightarrow> bool" where
  "count_ok n \<longleftrightarrow> (case n of None \<Rightarrow> True | Some i \<Rightarrow> 0 \<le> i)"

definition usage_ok :: "provider_usage \<Rightarrow> bool" where
  "usage_ok u \<longleftrightarrow>
     count_ok (input_tokens u) \<and> count_ok (output_tokens u) \<and> count_ok (total_tokens u)
     \<and> count_ok (reasoning_tokens u) \<and> count_ok (cost_microusd u)
     \<and> (cost_usd u = None \<longleftrightarrow> cost_microusd u = None)
     \<and> (input_tokens u \<noteq> None \<or> output_tokens u \<noteq> None \<or> total_tokens u \<noteq> None
          \<or> cost_usd u \<noteq> None)"

definition usage_opt_ok :: "provider_usage option \<Rightarrow> bool" where
  "usage_opt_ok u \<longleftrightarrow> (case u of None \<Rightarrow> True | Some u \<Rightarrow> usage_ok u)"

definition attempt_ok :: "'s attempt \<Rightarrow> bool" where
  "attempt_ok a \<longleftrightarrow>
     (at_emitted a \<longleftrightarrow> at_parts a \<noteq> []) \<and> list_all surrogate_free (at_parts a)
     \<and> list_all (\<lambda>d. d \<noteq> []) (at_parts a)
     \<and> named (at_request a) \<and> named (at_generation a) \<and> named (at_provider a)
     \<and> usage_opt_ok (at_usage a)"

lemma count_ok_simps [simp]: "count_ok None" "count_ok (Some i) \<longleftrightarrow> 0 \<le> i"
  "count_ok (nonnegative_int v)"
  by (auto simp: count_ok_def nonnegative_int_def split: json.splits)

lemma named_simps [simp]: "named None" "named (safe_string v)" "named (header_string h)"
  by (auto simp: named_def safe_string_def header_string_def split: json.splits option.splits)

lemma named_or_else [simp]: "named a \<Longrightarrow> named b \<Longrightarrow> named (or_known a b)"
  by (auto simp: or_known_def split: option.splits)

lemma usage_or_else [simp]: "usage_opt_ok a \<Longrightarrow> usage_opt_ok b \<Longrightarrow> usage_opt_ok (or_known a b)"
  by (auto simp: or_known_def split: option.splits)

lemma parse_usage_ok [simp]: "usage_opt_ok (parse_usage v)"
proof (cases v)
  case (JDict kvs)
  obtain u m where c: "cost (payload_field kvs ''cost'') = (u, m)" by fastforce
  have "count_ok m \<and> (u = None \<longleftrightarrow> m = None)"
    using cost_cases [OF c] by (auto dest: microusd_range)
  with c show ?thesis
    by (auto simp: JDict parse_usage_def usage_opt_ok_def usage_ok_def Let_def split: json.splits)
qed (simp_all add: parse_usage_def usage_opt_ok_def)

lemma usage_opt_ok_None [simp]: "usage_opt_ok None"
  by (simp add: usage_opt_ok_def)

lemma announce_cases:
  "announce_ids cb f a = (a', err) \<Longrightarrow> (\<exists>s. a' = a\<lparr>at_sink := s\<rparr>)"
  by (auto simp: announce_ids_def split: bool.splits option.splits prod.splits)
     (metis attempt.surjective attempt.update_convs(10))+

interpretation attempts: attempt_invariant cb attempt_ok for cb :: "'s callbacks"
  by unfold_locales (auto simp: attempt_ok_def dest!: announce_cases)

lemma new_attempt_ok [simp]: "attempt_ok (new_attempt sink)"
  by (simp add: attempt_ok_def new_attempt_def)


text \<open>The same for the failures an exchange raises: \<open>good a f\<close> speaks of the attempt \<open>a\<close> in
  which \<open>f\<close> is raised.\<close>

locale attempt_failures = attempt_invariant +
  fixes good :: "'a attempt \<Rightarrow> failure \<Rightarrow> bool"
  assumes good_delta: "inv a \<Longrightarrow> on_delta cb s d = (s', Some f) \<Longrightarrow> good a f"
    and good_ids: "inv a \<Longrightarrow> announce_ids cb b a0 = (a, Some f) \<Longrightarrow> good a f"
    and good_malformed: "inv a \<Longrightarrow> good a malformed"
    and good_transport: "inv a \<Longrightarrow> good a (Transport t)"
    and good_payload: "inv a \<Longrightarrow> good a (ProviderFailure (failure_of a
        (if b then ''provider_transient'' else ''provider_rejected'') b))"
    and good_http: "inv a \<Longrightarrow> good a (ProviderFailure (http_error status (at_request a) r))"
begin

lemma joined_good: "inv a \<Longrightarrow> joined_surrogates s = Inl f \<Longrightarrow> good a f"
  using good_malformed by (auto simp: joined_surrogates_def malformed_def split: if_splits option.splits)

lemma choices_good: "choice_deltas cs = Inl f \<Longrightarrow> f = malformed"
  by (induction cs arbitrary: f) (auto simp: res_simps split: json.splits)

lemma deltas_good: "inv a \<Longrightarrow> content_deltas p = Inl f \<Longrightarrow> good a f"
  using good_malformed by (auto simp: content_deltas_def split: json.splits dest: choices_good)

lemma code_good: "inv a \<Longrightarrow> is_transient_code c = Inl f \<Longrightarrow> good a f"
  using good_transport by (cases c) (auto split: if_splits option.splits)

lemma decode_good: "inv a \<Longrightarrow> decode_stream_payload limit d = Inl f \<Longrightarrow> good a f"
  using good_transport good_malformed
  by (auto simp: decode_stream_payload_def split: sum.splits json_exn.splits json.splits)

lemma deliver_good: "inv a \<Longrightarrow> deliver cb cs a = (a', Raise f) \<Longrightarrow> good a' f"
proof (induction cs arbitrary: a)
  case (Cons c cs)
  obtain raw held where sp: "split_trailing_surrogate (at_held a @ c) = (raw, held)" by fastforce
  let ?a1 = "a\<lparr>at_held := held\<rparr>"
  have a1: "inv ?a1" using Cons.prems(1) by (rule inv_held)
  show ?case
  proof (cases "joined_surrogates raw")
    case (Inl g)
    with sp Cons.prems(2) joined_good [OF a1 Inl] show ?thesis by simp
  next
    case (Inr d)
    obtain s err where cbk: "on_delta cb (at_sink ?a1) d = (s, err)" by fastforce
    with inv_delta [OF a1 _ joined_surrogates_free [OF Inr] cbk] Cons.IH sp a1 Inr Cons.prems(2)
    show ?thesis
      by (cases "d = []"; cases err) (auto simp: Let_def intro: good_delta)
  qed
qed simp

lemma on_payload_good: "inv a \<Longrightarrow> on_payload cb p a = (a', Raise f) \<Longrightarrow> good a' f"
proof -
  assume a: "inv a" and run: "on_payload cb p a = (a', Raise f)"
  obtain a2 err where ids: "announce_ids cb (at_generation a = None)
      (a\<lparr>at_generation := or_known (safe_string (payload_field p ''id'')) (at_generation a)\<rparr>) = (a2, err)"
    by fastforce
  note a2 = inv_ids [OF a ids]
  note a3 = inv_named [OF a2, where v = "payload_field p ''provider''" and w = "payload_field p ''usage''"]
  note a4 = inv_finish [OF a3]
  let ?a3 = "a2\<lparr>at_provider := or_known (safe_string (payload_field p ''provider'')) (at_provider a2),
    at_usage := or_known (parse_usage (payload_field p ''usage'')) (at_usage a2)\<rparr>"
  show ?thesis
  proof (cases err)
    case (Some g)
    with run ids good_ids [OF a2] show ?thesis by (simp add: on_payload_def)
  next
    case None
    note go = run [unfolded on_payload_def Let_def ids prod.case None option.case]
    show ?thesis
    proof (cases "payload_field p ''error'' = JNull")
      case True
      with go show ?thesis
        by (auto intro: deltas_good [OF a4] deliver_good [OF a4] split: sum.splits)
    next
      case False
      with go show ?thesis
        by (auto intro: code_good [OF a3] good_payload [OF a3, of True, simplified]
            good_payload [OF a3, of False, simplified] split: sum.splits)
    qed
  qed
qed

lemma on_line_good: "inv a \<Longrightarrow> on_line cb limit l a = (a', Raise f) \<Longrightarrow> good a' f"
  by (auto simp: on_line_def Let_def intro: decode_good on_payload_good
      split: sum.splits if_splits)

lemma on_lines_good: "inv a \<Longrightarrow> on_lines cb limit ls a = (a', Raise f) \<Longrightarrow> good a' f"
proof (induction ls arbitrary: a)
  case (Cons l ls)
  obtain a1 fl where l: "on_line cb limit l a = (a1, fl)" by fastforce
  with inv_on_line [OF Cons.prems(1), of limit l] have "inv a1" by simp
  with Cons l on_line_good [OF Cons.prems(1)] show ?case by (cases fl) auto
qed simp

lemma read_body_good: "inv a \<Longrightarrow> read_body cb limit t chunks ending a = (a', Raise f) \<Longrightarrow> good a' f"
proof (induction chunks arbitrary: t a)
  case (Cons c cs)
  obtain ls t' where s: "sse_feed t c = (ls, t')" by fastforce
  obtain a1 fl where l: "on_lines cb limit ls a = (a1, fl)" by fastforce
  with inv_on_lines [OF Cons.prems(1), of limit ls] have "inv a1" by simp
  with Cons l s on_lines_good [OF Cons.prems(1)] show ?case by (cases fl) auto
qed (auto intro: good_transport on_lines_good split: option.splits)

lemma run_exchange_good:
  "inv a \<Longrightarrow> run_exchange cb limit x a = (a', Raise f) \<Longrightarrow> good a' f"
  by (cases x) (auto simp: run_exchange_def Let_def
      intro: good_transport inv_request read_body_good good_http [OF inv_request, simplified]
      split: if_splits)

end

definition provider_codes :: "code list" where
  "provider_codes =
     [''provider_transient'', ''provider_rejected'', ''provider_malformed_stream'',
      ''provider_timeout'', ''provider_misconfigured'', ''provider_network'',
      ''provider_output_limit'', ''provider_content_filter'', ''provider_incomplete_stream'']"

definition error_ok :: "provider_error \<Rightarrow> bool" where
  "error_ok e \<longleftrightarrow>
     pe_code e \<in> set provider_codes
     \<and> (pe_retryable e \<longleftrightarrow> pe_code e \<in> {''provider_transient'', ''provider_network'',
          ''provider_incomplete_stream''})
     \<and> named (pe_request e) \<and> named (pe_generation e) \<and> named (pe_provider e)
     \<and> usage_opt_ok (pe_usage e)"

definition completion_ok :: "provider_completion \<Rightarrow> bool" where
  "completion_ok c \<longleftrightarrow>
     surrogate_free (co_text c) \<and> named (co_request c) \<and> named (co_generation c)
     \<and> named (co_provider c) \<and> usage_opt_ok (co_usage c)"

fun result_ok :: "failure + provider_completion \<Rightarrow> bool" where
  "result_ok (Inr c) = completion_ok c"
| "result_ok (Inl (ProviderFailure e)) = error_ok e"
| "result_ok (Inl (Transport t)) = (case t of Interrupted c \<Rightarrow> True | _ \<Rightarrow> False)"

text \<open>The caller's callbacks raise no error of this module.\<close>

definition callbacks_ok :: "'s callbacks \<Rightarrow> bool" where
  "callbacks_ok cb \<longleftrightarrow>
     (\<forall>s d s' e. on_delta cb s d \<noteq> (s', Some (ProviderFailure e)))
     \<and> (\<forall>ids s r g s' e. on_ids cb = Some ids \<longrightarrow> ids s r g \<noteq> (s', Some (ProviderFailure e)))"

definition failure_ok :: "'s attempt \<Rightarrow> failure \<Rightarrow> bool" where
  "failure_ok a f \<longleftrightarrow>
     (case f of ProviderFailure e \<Rightarrow> error_ok e \<and> (pe_partial e \<longrightarrow> at_emitted a) | Transport t \<Rightarrow> True)"

interpretation attempts: attempt_failures cb attempt_ok "\<lambda>a f. callbacks_ok cb \<longrightarrow> failure_ok a f"
  for cb :: "'s callbacks"
proof (unfold_locales, goal_cases)
  case (1 a s d s' f)
  then show ?case by (cases f) (auto simp: callbacks_ok_def failure_ok_def)
next
  case (2 a b a0 f)
  then show ?case
    by (cases f) (auto simp: callbacks_ok_def failure_ok_def announce_ids_def
        split: bool.splits option.splits prod.splits)
qed (auto simp: failure_ok_def malformed_def plain_error_def error_ok_def provider_codes_def
    failure_of_def attempt_ok_def http_error_def Let_def)

lemma surrogate_free_concat: "list_all surrogate_free ds \<Longrightarrow> surrogate_free (concat ds)"
  by (auto simp: surrogate_free_def list_all_iff list_ex_iff)

lemma failure_of_ok:
  "attempt_ok a \<Longrightarrow> c \<in> set provider_codes \<Longrightarrow>
   b = (c \<in> {''provider_transient'', ''provider_network'', ''provider_incomplete_stream''}) \<Longrightarrow>
   error_ok (failure_of a c b)"
  by (auto simp: failure_of_def plain_error_def error_ok_def attempt_ok_def)

lemma conclude_ok: "attempt_ok a \<Longrightarrow> result_ok (conclude_attempt a)"
  by (auto simp: conclude_attempt_def failure_of_ok provider_codes_def completion_ok_def attempt_ok_def
      surrogate_free_concat)

lemma in_attempt_ok: "attempt_ok a \<Longrightarrow> error_ok e \<Longrightarrow> error_ok (in_attempt e a)"
  by (simp add: error_ok_def in_attempt_def attempt_ok_def)

lemma handled_ok:
  assumes "attempt_ok a" "failure_ok a f" shows "result_ok (Inl (handled a f))"
proof (cases f)
  case (ProviderFailure e)
  with assms show ?thesis by (simp add: failure_ok_def in_attempt_ok)
next
  case (Transport t)
  with assms(1) show ?thesis by (cases t) (simp_all add: failure_of_ok provider_codes_def)
qed

lemma stream_once_cases:
  assumes "callbacks_ok cb"
  obtains a f where "attempt_ok a" "failure_ok a f" "run_exchange cb limit x (new_attempt sink) = (a, Raise f)"
      "stream_once cb limit x sink = (at_sink a, Inl (handled a f))"
    | a where "attempt_ok a" "stream_once cb limit x sink = (at_sink a, conclude_attempt a)"
      "fst (run_exchange cb limit x (new_attempt sink)) = a"
proof -
  obtain a fl where run: "run_exchange cb limit x (new_attempt sink) = (a, fl)" by fastforce
  have a: "attempt_ok a"
    using attempts.inv_run_exchange [OF new_attempt_ok, of cb limit x sink] by (simp add: run)
  show thesis
  proof (cases fl)
    case (Raise f)
    with run attempts.run_exchange_good [OF new_attempt_ok, of cb limit x sink a f] assms
    show thesis by (intro that(1) [OF a, of f]) (simp_all add: stream_once_def)
  qed (use run that(2) [OF a] in \<open>simp_all add: stream_once_def\<close>)
qed

lemma stream_once_ok: "callbacks_ok cb \<Longrightarrow> result_ok (snd (stream_once cb limit x sink))"
  by (erule stream_once_cases [of cb limit x sink]) (simp_all add: handled_ok conclude_ok)

lemma retry_loop_ok:
  "callbacks_ok cb \<Longrightarrow> result_ok (snd (snd (retry_loop cb limit world attempts n k sink)))"
proof (induction n arbitrary: k sink)
  case (Suc n)
  obtain s r where once: "stream_once cb limit (world k) sink = (s, r)" by fastforce
  with stream_once_ok [OF Suc.prems, of limit "world k" sink] have "result_ok r" by simp
  with Suc once show ?case by (auto split: sum.splits failure.splits prod.splits) (metis snd_conv)+
qed simp

section \<open>What an attempt delivers\<close>

lemma accepts_pairs_plain: "accepts_pairs plain_hooks"
proof -
  have put: "k \<notin> fst ` set d \<Longrightarrow> dict_put d k v = d @ [(k, v)]" for d :: "(pystr \<times> json) list" and k v
    by (induction d) auto
  have "distinct (map fst (d @ ps)) \<Longrightarrow> foldl (\<lambda>d (k, v). dict_put d k v) d ps = d @ ps"
    for d ps :: "(pystr \<times> json) list"
    by (induction ps arbitrary: d) (auto simp: put)
  from this [of "[]"] show ?thesis by (simp add: accepts_pairs_def plain_hooks_def dict_of_def)
qed

text \<open>Callbacks that record the deltas and the announced identifiers.\<close>

type_synonym delivery = "pystr list \<times> (pystr option \<times> pystr) list"

definition recording :: "delivery callbacks" where
  "recording =
     \<lparr>on_delta = (\<lambda>(ds, ids) d. ((ds @ [d], ids), None)),
      on_ids = Some (\<lambda>(ds, ids) r g. ((ds, ids @ [(r, g)]), None))\<rparr>"

lemma recording_ok [simp]: "callbacks_ok recording"
  by (auto simp: callbacks_ok_def recording_def)

definition recorded :: "nat \<Rightarrow> delivery attempt \<Rightarrow> bool" where
  "recorded n a \<longleftrightarrow> fst (at_sink a) = at_parts a
     \<and> length (snd (at_sink a)) \<le> n + (if at_generation a = None then 0 else 1)"

interpretation recordings: attempt_invariant recording "recorded n" for n
  by unfold_locales
     (auto simp: recorded_def recording_def announce_ids_def or_known_def
       split: option.splits bool.splits prod.splits if_splits)

definition outcome_matches :: "pystr list \<Rightarrow> failure + provider_completion \<Rightarrow> bool" where
  "outcome_matches ds r =
     (case r of
        Inr c \<Rightarrow> co_text c = concat ds
      | Inl (ProviderFailure e) \<Rightarrow> pe_partial e = (ds \<noteq> [])
      | Inl (Transport _) \<Rightarrow> True)"

lemma conclude_matches: "attempt_ok a \<Longrightarrow> outcome_matches (at_parts a) (conclude_attempt a)"
  by (auto simp: conclude_attempt_def outcome_matches_def failure_of_def attempt_ok_def)

lemma handled_matches:
  assumes "attempt_ok a" "failure_ok a f"
  shows "outcome_matches (at_parts a) (Inl (handled a f))"
proof (cases f)
  case (ProviderFailure e)
  with assms show ?thesis
    by (auto simp: outcome_matches_def in_attempt_def attempt_ok_def failure_ok_def)
next
  case (Transport t)
  with assms show ?thesis
    by (cases t) (simp_all add: outcome_matches_def failure_of_def attempt_ok_def)
qed

lemma stream_once_recording:
  assumes "stream_once recording limit x ([], ids) = ((ds, ids'), r)"
  shows "outcome_matches ds r" "length ids' \<le> length ids + 1"
proof -
  have new: "recorded (length ids) (new_attempt ([], ids))"
    by (simp add: recorded_def new_attempt_def)
  note rec = recordings.inv_run_exchange [OF new, of limit x]
  consider (raise) a f where "attempt_ok a" "failure_ok a f"
      "fst (run_exchange recording limit x (new_attempt ([], ids))) = a"
      "at_sink a = (ds, ids')" "r = Inl (handled a f)"
    | (over) a where "attempt_ok a" "fst (run_exchange recording limit x (new_attempt ([], ids))) = a"
      "at_sink a = (ds, ids')" "r = conclude_attempt a"
    by (rule stream_once_cases [OF recording_ok, of limit x "([], ids)"])
       (use assms raise over in auto)
  then have "outcome_matches ds r \<and> length ids' \<le> length ids + 1"
  proof cases
    case (raise a f)
    with rec handled_matches [of a f] show ?thesis
      by (auto simp: recorded_def split: if_splits)
  next
    case (over a)
    with rec conclude_matches [of a] show ?thesis
      by (auto simp: recorded_def split: if_splits)
  qed
  then show "outcome_matches ds r" "length ids' \<le> length ids + 1" by simp_all
qed

lemma retry_delay_bounds: "2 ^ k \<le> retry_delay k e" "retry_delay k e \<le> max (2 ^ k) 30"
  by (auto simp: retry_delay_def max_retry_after_def)

lemma retry_loop_recording:
  assumes "0 < n" "n + k = attempts"
    and "retry_loop recording limit world attempts n k ([], ids) = ((ds, ids'), delays, r)"
  shows "outcome_matches ds r \<and> length delays < n \<and> length ids' \<le> length ids + length delays + 1
    \<and> (\<forall>i<length delays. 2 ^ (k + i) \<le> delays ! i \<and> delays ! i \<le> max (2 ^ (k + i)) 30)"
  using assms
proof (induction n arbitrary: k ids delays)
  case (Suc n)
  obtain ds1 ids1 r1 where once: "stream_once recording limit (world k) ([], ids) = ((ds1, ids1), r1)"
    by (metis prod.exhaust)
  note one = stream_once_recording [OF once]
  show ?case
  proof (cases "\<exists>e. r1 = Inl (ProviderFailure e) \<and> pe_retryable e \<and> \<not> pe_partial e \<and> \<not> attempts \<le> k + 1")
    case False
    with Suc.prems(3) once have "ds = ds1 \<and> ids' = ids1 \<and> delays = [] \<and> r = r1"
      by (auto split: sum.splits failure.splits if_splits)
    with one show ?thesis by simp
  next
    case True
    then obtain e where e: "r1 = Inl (ProviderFailure e)" "pe_retryable e" "\<not> pe_partial e"
        "\<not> attempts \<le> k + 1" by blast
    with one(1) have ds1: "ds1 = []" by (simp add: outcome_matches_def)
    obtain sink2 delays2 r2 where
      rest: "retry_loop recording limit world attempts n (Suc k) ([], ids1) = (sink2, delays2, r2)"
      by (metis prod.exhaust)
    with Suc.prems(3) once e ds1 have eq: "sink2 = (ds, ids')" "delays = retry_delay k e # delays2" "r2 = r"
      by auto
    have n: "0 < n" "n + Suc k = attempts" using Suc.prems(2) e(4) by auto
    from Suc.IH [OF n, of ids1 delays2] rest eq have IH: "outcome_matches ds r"
        "length delays2 < n" "length ids' \<le> length ids1 + length delays2 + 1"
        "\<forall>i<length delays2. 2 ^ (Suc k + i) \<le> delays2 ! i \<and> delays2 ! i \<le> max (2 ^ (Suc k + i)) 30"
      by simp_all
    have "2 ^ (k + i) \<le> delays ! i \<and> delays ! i \<le> max (2 ^ (k + i)) 30" if "i < length delays" for i
      using that IH(4) retry_delay_bounds [of k e] by (cases i) (simp_all add: eq)
    with IH one(2) eq show ?thesis by simp
  qed
qed simp

text \<open>C11: A call delivers each delta once.  The completed text is the concatenation of all deltas
  that any attempt handed to the callback, and an error is marked partial exactly when a delta was
  handed out, so that no attempt follows one that delivered text.  The call makes at most the
  configured number of attempts, announces at most one generation identifier per attempt, and
  waits before attempt k + 1 between 2^k seconds and the larger of 2^k and 30.\<close>

theorem stream_chat_never_replays:
  assumes "stream_chat recording limit (Suc n) world ms max_tokens effort ([], []) = ((ds, ids), delays, r)"
  shows "outcome_matches ds r \<and> length delays \<le> n \<and> length ids \<le> length delays + 1
    \<and> (\<forall>i<length delays. 2 ^ i \<le> delays ! i \<and> delays ! i \<le> max (2 ^ i) 30)"
proof (cases "build_request_body ms max_tokens effort")
  case (Inl c)
  with assms show ?thesis by (auto simp: stream_chat_def outcome_matches_def)
next
  case (Inr body)
  with assms have "retry_loop recording limit (world body) (Suc n) (Suc n) 0 ([], []) = ((ds, ids), delays, r)"
    by (simp add: stream_chat_def del: retry_loop.simps)
  from retry_loop_recording [OF _ _ this] show ?thesis by (simp add: less_Suc_eq_le)
qed

definition demo_payload :: json where
  "demo_payload =
     JDict [(lit ''id'', JStr (lit ''g1'')),
       (lit ''choices'', JList [JDict [(lit ''delta'', JDict [(lit ''content'', JStr (lit ''Bon''))])]])]"

definition demo_data :: pystr where
  "demo_data = lit ''data: '' @ dump esc demo_payload"

definition demo_world :: "json \<Rightarrow> nat \<Rightarrow> exchange" where
  "demo_world body k =
     (if k = 0 then Response 503 None None [] None
      else Response 200 (Some (lit ''r1'')) None
        [demo_data @ [10], lit ''data:[DONE]'' @ [10]] None)"

abbreviation demo_chat where
  "demo_chat \<equiv> stream_chat recording 9 (Suc 2) demo_world
      [\<lparr>pm_role = lit ''user'', pm_content = lit ''hi''\<rparr>] 10 (lit ''high'') ([], [])"

definition demo_completion :: provider_completion where
  "demo_completion = \<lparr>co_text = lit ''Bon'', co_request = Some (lit ''r1''),
     co_generation = Some (lit ''g1''), co_provider = None, co_usage = None\<rparr>"

lemma demo_payload_text:
  "dump esc demo_payload = lit ''{\"id\":\"g1\",\"choices\":[{\"delta\":{\"content\":\"Bon\"}}]}''"
  by (simp add: demo_payload_def esc_def esc_char_def lit_def)

lemma demo_data_text:
  "demo_data = lit ''data: {\"id\":\"g1\",\"choices\":[{\"delta\":{\"content\":\"Bon\"}}]}''"
  by (simp add: demo_data_def demo_payload_text lit_append [symmetric])

lemma demo_data_free: "13 \<notin> set demo_data" "10 \<notin> set demo_data" "demo_data \<noteq> []"
  by (simp_all add: demo_data_text lit_def)

lemma demo_payload_reads:
  "decode_stream_payload 9 (dump esc demo_payload) = (case demo_payload of JDict kvs \<Rightarrow> Inr kvs)"
proof -
  have "loads plain_hooks 9 (dump esc demo_payload) = Inr demo_payload"
    by (rule plain_codec.loads_dump) (simp_all add: demo_payload_def accepts_pairs_plain)
  then show ?thesis
    by (simp add: decode_stream_payload_def demo_payload_def del: dump.simps)
qed

lemma demo_first: "stream_once recording 9 (demo_world body 0) ([], []) =
    (([], []), Inl (ProviderFailure (http_error 503 None None)))"
  by (simp add: stream_once_def run_exchange_def demo_world_def new_attempt_def in_attempt_def or_known_def
      http_error_def transient_status_def plain_error_def header_string_def Let_def)

lemma demo_second: "stream_once recording 9 (demo_world body (Suc 0)) ([], []) =
    (([lit ''Bon''], [(Some (lit ''r1''), lit ''g1'')]), Inr demo_completion)"
proof -
  have lines: "sse_feed [] (demo_data @ [10]) = ([demo_data], [])"
    using demo_data_free by (simp add: sse_feed_def break_lines_lf ends_cr_def)
  have lines2: "sse_feed [] (lit ''data:[DONE]'' @ [10]) = ([lit ''data:[DONE]''], [])"
    by (simp add: sse_feed_def break_lines_lf ends_cr_def lit_def)
  have "dropWhile py_space (drop 5 demo_data) = dump esc demo_payload"
    by (simp add: demo_data_def demo_payload_text) (simp add: lit_def py_space_def)
  moreover have "demo_data \<noteq> []" "\<not> prefix (lit '':'') demo_data" "prefix (lit ''data:'') demo_data"
    by (simp_all add: demo_data_text lit_def)
  moreover have "dump esc demo_payload \<noteq> lit ''[DONE]''" by (simp add: demo_payload_text)
  ultimately have l1: "on_line recording 9 demo_data a =
      (case demo_payload of JDict kvs \<Rightarrow> on_payload recording kvs a)" for a
    using demo_payload_reads by (simp add: on_line_def Let_def) (simp add: demo_payload_def)
  have l2: "on_line recording 9 (lit ''data:[DONE]'') a = (a\<lparr>at_done := True\<rparr>, Break)" for a
    by (simp add: on_line_def Let_def lit_def py_space_def)
  have pay: "(case demo_payload of JDict kvs \<Rightarrow> on_payload recording kvs a) =
      (a\<lparr>at_generation := Some (lit ''g1''), at_sink := ([lit ''Bon''], [(Some (lit ''r1''), lit ''g1'')]),
         at_parts := [lit ''Bon''], at_emitted := True\<rparr>, Go)"
    if "at_sink a = ([], [])" "at_request a = Some (lit ''r1'')" "at_generation a = None"
      "at_parts a = []" "at_held a = []" "at_provider a = None" "at_usage a = None" "at_finish a = None"
    for a
    using that
    by (simp add: demo_payload_def on_payload_def announce_ids_def payload_field_def get_def recording_def
        or_known_def safe_string_def parse_usage_def finish_reason_def content_deltas_def Let_def
        split_trailing_surrogate_def joined_surrogates_def high_surrogate_def surrogate_def lit_def)
  show ?thesis
    by (simp add: stream_once_def run_exchange_def demo_world_def new_attempt_def lines lines2 l1 l2
        Let_def pay header_string_def safe_string_def conclude_attempt_def demo_completion_def)
qed

lemma demo_chat_run:
  "demo_chat = (([lit ''Bon''], [(Some (lit ''r1''), lit ''g1'')]), [1], Inr demo_completion)"
proof -
  have "build_request_body [\<lparr>pm_role = lit ''user'', pm_content = lit ''hi''\<rparr>] 10 (lit ''high'') \<noteq> Inl c" for c
    by (simp add: build_request_body_def reasoning_efforts_def serialized_message_def provider_roles_def)
  then show ?thesis
    by (auto simp: stream_chat_def numeral_2_eq_2 demo_first demo_second http_error_def transient_status_def
        plain_error_def retry_delay_def seconds_of_def max_retry_after_def retry_after_seconds_def
        split: sum.split)
qed

theorem stream_chat_never_replays_witness:
  "outcome_matches [lit ''Bon''] (snd (snd demo_chat))"
  using stream_chat_never_replays [OF demo_chat_run] by (simp only: demo_chat_run snd_conv)

text \<open>C37: Every result of a call is well typed: a completed text holds no surrogate (it encodes as
  UTF-8), identifiers are non-empty, usage counts are non-negative with both forms of the cost or
  neither; an error carries one of the fixed codes, never provider text, and is retryable exactly
  for the three transient codes; every other exception is the caller's own or a Python error.\<close>

theorem stream_chat_results_typed:
  assumes "callbacks_ok cb"
  shows "result_ok (snd (snd (stream_chat cb limit attempts world ms max_tokens effort sink)))"
  using retry_loop_ok [OF assms] by (simp add: stream_chat_def split: sum.split)

theorem stream_chat_results_typed_witness: "result_ok (snd (snd demo_chat))"
  by (rule stream_chat_results_typed) simp

section \<open>Token estimates\<close>

text \<open>Every cached entry is the count of each text with that digest; the cache is bounded.\<close>

definition cache_ok :: "(bytes \<Rightarrow> bytes) \<Rightarrow> (pystr \<Rightarrow> nat) \<Rightarrow> token_cache \<Rightarrow> bool" where
  "cache_ok digest encode_len cache \<longleftrightarrow>
     length cache \<le> token_cache_size
     \<and> (\<forall>e\<in>set cache. \<exists>s. e = (digest (utf8_encode s), encode_len s))"

definition tokens_of :: "(pystr \<Rightarrow> nat) \<Rightarrow> provider_message list \<Rightarrow> nat" where
  "tokens_of encode_len ms = sum_list (map (\<lambda>m. 4 + encode_len (pm_role m) + encode_len (pm_content m)) ms)"

lemma length_filter_absent:
  "x \<in> set xs \<Longrightarrow> \<not> P x \<Longrightarrow> Suc (length (filter P xs)) \<le> length xs"
  by (induction xs) (auto simp: less_Suc_eq_le)

definition collision_free :: "(bytes \<Rightarrow> bytes) \<Rightarrow> (pystr \<Rightarrow> nat) \<Rightarrow> bool" where
  "collision_free digest encode_len \<longleftrightarrow>
     (\<forall>s t. digest (utf8_encode s) = digest (utf8_encode t) \<longrightarrow> encode_len s = encode_len t)"

lemma cache_ok_Cons:
  assumes "cache_ok digest encode_len cache" "length c \<le> token_cache_size"
    "set c \<subseteq> insert (digest (utf8_encode s), encode_len s) (set cache)"
  shows "cache_ok digest encode_len c"
  using assms unfolding cache_ok_def by blast

lemma count_text_tokens_ok:
  assumes "collision_free digest encode_len" "cache_ok digest encode_len cache"
    and "count_text_tokens digest encode_len cache s = (n, cache')"
  shows "n = encode_len s \<and> cache_ok digest encode_len cache'"
proof (cases "map_of cache (digest (utf8_encode s))")
  case (Some m)
  then have mem: "(digest (utf8_encode s), m) \<in> set cache" by (rule map_of_SomeD)
  then obtain t where "(digest (utf8_encode s), m) = (digest (utf8_encode t), encode_len t)"
    using assms(2) unfolding cache_ok_def by blast
  then have m: "m = encode_len s"
    using assms(1) unfolding collision_free_def by (metis prod.inject)
  have "Suc (length (filter (\<lambda>e. fst e \<noteq> digest (utf8_encode s)) cache)) \<le> length cache"
    by (rule length_filter_absent [OF mem]) simp
  with assms(2) have "length (move_to_end (digest (utf8_encode s)) m cache) \<le> token_cache_size"
    by (simp add: move_to_end_def cache_ok_def)
  then have "cache_ok digest encode_len (move_to_end (digest (utf8_encode s)) m cache)"
    by (rule cache_ok_Cons [OF assms(2)]) (auto simp: move_to_end_def m)
  with assms(3) Some m show ?thesis by (auto simp: count_text_tokens_def Let_def)
next
  case None
  have "cache_ok digest encode_len (cache_put (digest (utf8_encode s)) (encode_len s) cache)"
    by (rule cache_ok_Cons [OF assms(2)])
       (auto simp: cache_put_def Let_def move_to_end_def dest!: in_set_dropD)
  with assms(3) None show ?thesis by (auto simp: count_text_tokens_def Let_def)
qed

lemma count_messages_ok:
  assumes "collision_free digest encode_len" "cache_ok digest encode_len cache"
    and "count_messages digest encode_len acc cache ms = (n, cache')"
  shows "n = acc + tokens_of encode_len ms \<and> cache_ok digest encode_len cache'"
  using assms(2,3)
proof (induction ms arbitrary: acc cache)
  case (Cons m ms)
  obtain r c1 where r: "count_text_tokens digest encode_len cache (pm_role m) = (r, c1)" by fastforce
  obtain k c2 where k: "count_text_tokens digest encode_len c1 (pm_content m) = (k, c2)" by fastforce
  note r' = count_text_tokens_ok [OF assms(1) Cons.prems(1) r]
  note k' = count_text_tokens_ok [OF assms(1) r' [THEN conjunct2] k]
  from Cons.IH [OF k' [THEN conjunct2], of "acc + 4 + r + k"] Cons.prems(2) r k r' k'
  show ?case by (simp add: tokens_of_def)
qed (simp add: tokens_of_def)

text \<open>The estimated tokens of a request are the encoder's counts plus the framing allowance,
  whatever the cache holds; they never exceed the cheap bound, and the cache stays within its 64
  entries and true.\<close>

theorem input_tokens_bounded:
  assumes "collision_free digest encode_len" and "\<And>s. encode_len s \<le> utf8_len s"
    and "cache_ok digest encode_len cache"
    and "count_input_tokens digest encode_len cache ms = (n, cache')"
  shows "n = 3 + tokens_of encode_len ms \<and> n \<le> input_tokens_upper_bound ms
    \<and> cache_ok digest encode_len cache'"
proof -
  have "tokens_of encode_len ms \<le>
      sum_list (map (\<lambda>m. 4 + utf8_len (pm_role m) + utf8_len (pm_content m)) ms)"
    unfolding tokens_of_def by (rule sum_list_mono) (simp add: add_mono assms(2))
  with count_messages_ok [OF assms(1,3) assms(4) [unfolded count_input_tokens_def]] show ?thesis
    by (simp add: input_tokens_upper_bound_def)
qed

theorem input_tokens_bounded_witness:
  "\<exists>cache'. count_input_tokens id utf8_len [] [\<lparr>pm_role = lit ''user'', pm_content = [233, 65]\<rparr>] = (14, cache')
     \<and> 14 \<le> input_tokens_upper_bound [\<lparr>pm_role = lit ''user'', pm_content = [233, 65]\<rparr>]"
proof -
  let ?ms = "[\<lparr>pm_role = lit ''user'', pm_content = [233, 65]\<rparr>]"
  obtain n cache' where run: "count_input_tokens id utf8_len [] ?ms = (n, cache')" by fastforce
  have "n = 3 + tokens_of utf8_len ?ms \<and> n \<le> input_tokens_upper_bound ?ms \<and> cache_ok id utf8_len cache'"
    by (rule input_tokens_bounded [OF _ _ _ run]) (simp_all add: collision_free_def utf8_len_def cache_ok_def)
  moreover have "tokens_of utf8_len ?ms = 11"
    by (simp add: tokens_of_def utf8_len_def utf8_encode_def utf8_char_def lit_def)
  ultimately show ?thesis using run by simp
qed

end
