(* ===== verification/Lifecycle_Laws.thy ===== *)
theory Lifecycle_Laws
  imports Lifecycle
begin

text \<open>
  The invariant of the stored state and why every operation of \<^verbatim>\<open>generation.py\<close> keeps it:
  generation rows (one activity per conversation, one row per request, results only of completed
  rows), message ordinals, results that point to messages, canonical work, files of attachments.
\<close>

section \<open>The tables\<close>

definition one_active :: "generation_row list \<Rightarrow> bool" where
  "one_active gs \<longleftrightarrow> (\<forall>r\<in>set gs. \<forall>r'\<in>set gs. is_active (gen_status r) \<and> is_active (gen_status r')
     \<and> gen_thread r \<noteq> None \<and> gen_thread r = gen_thread r' \<longrightarrow> gen_id r = gen_id r')"

definition unique_requests :: "generation_row list \<Rightarrow> bool" where
  "unique_requests gs \<longleftrightarrow> (\<forall>r\<in>set gs. \<forall>r'\<in>set gs. gen_requester r = gen_requester r'
     \<and> gen_client_request r = gen_client_request r' \<longrightarrow> gen_id r = gen_id r')"

definition results_completed :: "generation_row list \<Rightarrow> bool" where
  "results_completed gs \<longleftrightarrow> (\<forall>r\<in>set gs. gen_result r \<noteq> None \<longrightarrow> gen_status r = Completed)"

definition finished_marked :: "generation_row list \<Rightarrow> bool" where
  "finished_marked gs \<longleftrightarrow> (\<forall>r\<in>set gs. is_terminal (gen_status r) \<longleftrightarrow> gen_finished r \<noteq> None)"

definition generations_ok :: "generation_row list \<Rightarrow> bool" where
  "generations_ok gs \<longleftrightarrow> distinct (map gen_id gs) \<and> one_active gs \<and> unique_requests gs
     \<and> results_completed gs \<and> finished_marked gs"

definition messages_ok :: "database \<Rightarrow> bool" where
  "messages_ok db \<longleftrightarrow> distinct (map msg_id (messages db))
     \<and> (\<forall>t. map msg_ordinal (thread_messages db t) = [1..<Suc (length (thread_messages db t))])"

text \<open>A result is an assistant message of the generation's conversation, and belongs to it alone.\<close>

definition results_ok :: "database \<Rightarrow> bool" where
  "results_ok db \<longleftrightarrow>
     (\<forall>r\<in>set (generations db). \<forall>m. gen_result r = Some m \<longrightarrow>
        (\<exists>x\<in>set (messages db). msg_id x = m \<and> msg_role x = AssistantRole \<and> gen_thread r = Some (msg_thread x)))
     \<and> (\<forall>r\<in>set (generations db). \<forall>r'\<in>set (generations db).
          gen_result r \<noteq> None \<and> gen_result r = gen_result r' \<longrightarrow> gen_id r = gen_id r')"

definition files_ok :: "system \<Rightarrow> bool" where
  "files_ok s \<longleftrightarrow> distinct (map att_storage (attachments (sys_db s)))
     \<and> set (map att_storage (attachments (sys_db s))) \<subseteq> set (sys_files s)"

definition db_ok :: "nat \<Rightarrow> database \<Rightarrow> bool" where
  "db_ok m db \<longleftrightarrow> generations_ok (generations db) \<and> messages_ok db \<and> results_ok db \<and> work_ok m db"

definition sys_ok :: "nat \<Rightarrow> system \<Rightarrow> bool" where
  "sys_ok m s \<longleftrightarrow> db_ok m (sys_db s) \<and> files_ok s"

section \<open>Updates of generation rows\<close>

text \<open>A change of one row that keeps its identity, starts no second activity and keeps the link between
  status, result and finish time.\<close>

definition row_update :: "(generation_row \<Rightarrow> generation_row) \<Rightarrow> bool" where
  "row_update f \<longleftrightarrow> (\<forall>r. gen_id (f r) = gen_id r \<and> gen_thread (f r) = gen_thread r
     \<and> gen_requester (f r) = gen_requester r \<and> gen_client_request (f r) = gen_client_request r
     \<and> gen_result (f r) = gen_result r
     \<and> (is_active (gen_status (f r)) \<longrightarrow> is_active (gen_status r))
     \<and> (is_terminal (gen_status r) \<and> (gen_result r = None \<or> gen_status r = Completed) \<longrightarrow> f r = r)
     \<and> ((is_terminal (gen_status r) \<longleftrightarrow> gen_finished r \<noteq> None) \<longrightarrow>
          (is_terminal (gen_status (f r)) \<longleftrightarrow> gen_finished (f r) \<noteq> None)))"

lemma active_terminal: "is_active s \<longleftrightarrow> \<not> is_terminal s"
  by (cases s) (simp_all add: is_active_def active_statuses_def is_terminal_def)

lemma generations_ok_map:
  assumes "row_update f" "generations_ok gs"
  shows "generations_ok (map f gs)"
proof -
  have f: "gen_id (f r) = gen_id r" "gen_thread (f r) = gen_thread r" "gen_requester (f r) = gen_requester r"
    "gen_client_request (f r) = gen_client_request r" "gen_result (f r) = gen_result r"
    "is_active (gen_status (f r)) \<Longrightarrow> is_active (gen_status r)" for r
    using assms(1) unfolding row_update_def by blast+
  have "distinct (map gen_id (map f gs))" using assms(2) by (simp add: f(1) generations_ok_def o_def)
  moreover have "one_active (map f gs)" using assms(2) by (auto simp: generations_ok_def one_active_def f(1,2) dest!: f(6))
  moreover have "unique_requests (map f gs)" using assms(2)
    unfolding generations_ok_def unique_requests_def set_map ball_simps f(1,3,4) by blast
  moreover have "results_completed (map f gs)"
  proof -
    have "f r = r" if "gen_status r = Completed" for r
      using assms(1) that unfolding row_update_def is_terminal_def by blast
    then show ?thesis using assms(2) unfolding generations_ok_def results_completed_def set_map ball_simps f(5) by metis
  qed
  moreover have "finished_marked (map f gs)"
    using assms unfolding generations_ok_def finished_marked_def set_map ball_simps row_update_def by blast
  ultimately show ?thesis by (simp add: generations_ok_def)
qed

lemma results_ok_map:
  assumes "row_update f" "results_ok db" "generations db' = map f (generations db)" "set (messages db) \<subseteq> set (messages db')"
  shows "results_ok db'"
proof -
  have f: "gen_id (f r) = gen_id r" "gen_thread (f r) = gen_thread r" "gen_result (f r) = gen_result r" for r
    using assms(1) unfolding row_update_def by blast+
  show ?thesis
    using assms(2,4) unfolding results_ok_def assms(3) set_map ball_simps f by blast
qed

definition only_generations :: "database \<Rightarrow> database \<Rightarrow> bool" where
  "only_generations db db' \<longleftrightarrow> db' = db\<lparr>generations := generations db'\<rparr>"

lemma thread_messages_generations [simp]: "thread_messages (db\<lparr>generations := gs\<rparr>) t = thread_messages db t"
  by (simp add: thread_messages_def)

lemma work_ok_generations [simp]: "work_ok m (db\<lparr>generations := gs\<rparr>) \<longleftrightarrow> work_ok m db"
  by (simp add: work_ok_def item_versions_def)

lemma db_ok_map:
  assumes "row_update f" "db_ok m db"
  shows "db_ok m (db\<lparr>generations := map f (generations db)\<rparr>)"
  using assms generations_ok_map [OF assms(1)] results_ok_map [OF assms(1), of db]
  by (simp add: db_ok_def messages_ok_def)

text \<open>Which updates the program passes to \<^verbatim>\<open>_transition\<close>.\<close>

definition keeps_identity :: "(generation_row \<Rightarrow> generation_row) \<Rightarrow> bool" where
  "keeps_identity upd \<longleftrightarrow> (\<forall>r. gen_id (upd r) = gen_id r \<and> gen_thread (upd r) = gen_thread r
     \<and> gen_requester (upd r) = gen_requester r \<and> gen_client_request (upd r) = gen_client_request r
     \<and> gen_result (upd r) = gen_result r)"

lemma keeps_identity_intros [simp]:
  "keeps_identity id" "keeps_identity (cleared c bs)" "keeps_identity (\<lambda>r. r\<lparr>gen_started := t\<rparr>)"
  "keeps_identity (\<lambda>r. r\<lparr>gen_partial := p, gen_provider_request := f r, gen_provider_generation := h r\<rparr>)"
  by (simp_all add: keeps_identity_def cleared_def)

definition advance :: "time \<Rightarrow> row_id \<Rightarrow> status list \<Rightarrow> status \<Rightarrow> (generation_row \<Rightarrow> generation_row) \<Rightarrow> generation_row \<Rightarrow> generation_row" where
  "advance now g allowed s upd r =
     (if gen_id r = g \<and> gen_status r \<in> set allowed
      then (upd r)\<lparr>gen_status := s, gen_revision := gen_revision r + 1,
             gen_finished := (if is_terminal s then Some now else gen_finished r)\<rparr>
      else r)"

lemma transition_eq:
  "transition now g allowed s upd db =
     (db\<lparr>generations := map (advance now g allowed s upd) (generations db)\<rparr>,
      length (filter (\<lambda>r. gen_id r = g \<and> gen_status r \<in> set allowed) (generations db)) = 1)"
  by (simp add: transition_def advance_def Let_def)

lemma row_update_advance:
  assumes "keeps_identity upd" "\<forall>a\<in>set allowed. is_active a"
  shows "row_update (advance now g allowed s upd)"
proof -
  have "\<not> is_terminal a" if "a \<in> set allowed" for a
    using assms(2) that by (auto simp: active_terminal)
  with assms show ?thesis
    by (auto simp: row_update_def advance_def keeps_identity_def active_terminal)
qed

lemma active_lists [simp]:
  "\<forall>a\<in>set [Queued]. is_active a" "\<forall>a\<in>set [Queued, Running]. is_active a" "\<forall>a\<in>set [Running]. is_active a"
  "\<forall>a\<in>set [Stopping]. is_active a" "\<forall>a\<in>set active_statuses. is_active a"
  by (simp_all add: is_active_def active_statuses_def)

lemma db_ok_transition:
  assumes "db_ok m db" "keeps_identity upd" "\<forall>a\<in>set allowed. is_active a"
  shows "db_ok m (fst (transition now g allowed s upd db))"
  using db_ok_map [OF row_update_advance [OF assms(2,3)] assms(1)] by (simp add: transition_eq)

lemma db_ok_set_running: "db_ok m db \<Longrightarrow> db_ok m (fst (set_running now g db))"
  using db_ok_transition [of m db "\<lambda>r. r\<lparr>gen_started := Some now\<rparr>" "[Queued]" now g Running]
  by (auto simp: set_running_def split: prod.split)

lemma db_ok_finish_stopped: "db_ok m db \<Longrightarrow> db_ok m (finish_stopped now g db)"
  by (simp add: finish_stopped_def db_ok_transition)

lemma db_ok_fail: "db_ok m db \<Longrightarrow> db_ok m (fst (fail now g code bs db))"
  using db_ok_transition [of m db "cleared (Some (recorded_code code)) bs" "[Queued, Running]" now g Failed]
    db_ok_transition [of m "fst (transition now g [Queued, Running] Failed (cleared (Some (recorded_code code)) bs) db)"
      "cleared None []" "[Stopping]" now g Stopped]
  by (auto simp: fail_def split: prod.split bool.split)

lemma db_ok_stop: "stop now live g db = Inr db' \<Longrightarrow> db_ok m db \<Longrightarrow> db_ok m db'"
  using db_ok_transition [of m db id "[Queued, Running]" now g Stopping] db_ok_finish_stopped
  by (auto simp: stop_def split: prod.splits if_splits option.splits)

lemma db_ok_finalize_rows: "db_ok m db \<Longrightarrow> db_ok m (fst (finalize_rows now live rows db))"
proof (induction now live rows db rule: finalize_rows.induct)
  case (2 now live g s rows db)
  then show ?case
    using db_ok_transition [of m db "cleared None []" "[Stopping]" now g Stopped]
      db_ok_transition [of m db "cleared (Some ''generation_interrupted'') []" "[Queued, Running]" now g Failed]
    by (auto split: prod.splits)
qed simp

lemma db_ok_finalize: "db_ok m db \<Longrightarrow> db_ok m (fst (finalize_orphans now live t db))"
  by (simp add: finalize_orphans_def db_ok_finalize_rows)


section \<open>Restart\<close>

definition reconciled :: "time \<Rightarrow> generation_row \<Rightarrow> generation_row" where
  "reconciled now r =
     (let bump = (\<lambda>r. r\<lparr>gen_revision := gen_revision r + 1\<rparr>);
          r1 = (if gen_result r \<noteq> None \<and> gen_status r \<noteq> Completed
                then (bump r)\<lparr>gen_status := Completed, gen_error := None,
                       gen_finished := (case gen_finished r of None \<Rightarrow> Some now | Some t \<Rightarrow> Some t)\<rparr> else r);
          r2 = (if gen_status r1 = Stopping
                then (cleared None [] (bump r1))\<lparr>gen_status := Stopped, gen_finished := Some now\<rparr> else r1)
      in if gen_status r2 \<in> {Queued, Running}
         then (cleared (Some ''restart_interrupted'') [] (bump r2))\<lparr>gen_status := Failed, gen_finished := Some now\<rparr>
         else r2)"

lemma reconcile_eq: "fst (reconcile_orphans now db) = db\<lparr>generations := map (reconciled now) (generations db)\<rparr>"
  by (simp add: reconcile_orphans_def reconciled_def Let_def o_def)

lemma reconciled_terminal: "is_terminal (gen_status (reconciled now r))"
  by (cases "gen_status r"; cases "gen_result r") (simp_all add: reconciled_def Let_def is_terminal_def cleared_def)

lemma row_update_reconciled: "row_update (reconciled now)"
  unfolding row_update_def
proof (intro allI conjI impI)
  fix r
  show "gen_id (reconciled now r) = gen_id r" "gen_thread (reconciled now r) = gen_thread r"
    "gen_requester (reconciled now r) = gen_requester r"
    "gen_client_request (reconciled now r) = gen_client_request r" "gen_result (reconciled now r) = gen_result r"
    by (simp_all add: reconciled_def cleared_def Let_def)
  show "is_active (gen_status r)" if "is_active (gen_status (reconciled now r))"
    using that reconciled_terminal [of now r] by (simp add: active_terminal)
  show "reconciled now r = r" if "is_terminal (gen_status r) \<and> (gen_result r = None \<or> gen_status r = Completed)"
    using that by (cases "gen_status r"; cases "gen_result r") (simp_all add: reconciled_def is_terminal_def Let_def)
  show "is_terminal (gen_status (reconciled now r)) \<longleftrightarrow> gen_finished (reconciled now r) \<noteq> None"
    if "is_terminal (gen_status r) \<longleftrightarrow> gen_finished r \<noteq> None"
    using that
    by (cases "gen_status r"; cases "gen_result r"; cases "gen_finished r")
      (simp_all add: reconciled_def Let_def is_terminal_def cleared_def)
qed

lemma db_ok_reconcile: "db_ok m db \<Longrightarrow> db_ok m (fst (reconcile_orphans now db))"
  by (simp add: reconcile_eq db_ok_map row_update_reconciled)

section \<open>Insertion\<close>

lemma work_ok_frame:
  "work_items db' = work_items db \<Longrightarrow> work_versions db' = work_versions db \<Longrightarrow> work_ok m db' \<longleftrightarrow> work_ok m db"
  by (simp add: work_ok_def item_versions_def)

lemma db_ok_insert_generation:
  assumes "db_ok m db" "insert_generation g db = Inr db'" "gen_status g = Queued" "gen_result g = None" "gen_finished g = None"
  shows "db_ok m db'"
proof -
  have db': "db' = db\<lparr>generations := generations db @ [g]\<rparr>" and c: "\<not> generation_conflict g db"
    using assms(2) by (auto simp: insert_generation_def split: if_splits)
  note c = c [unfolded generation_conflict_def]
  have q: "is_active (gen_status g)" "\<not> is_terminal (gen_status g)"
    using assms(3) by (simp_all add: active_terminal is_terminal_def)
  have "generations_ok (generations db @ [g])"
    unfolding generations_ok_def
  proof (intro conjI)
    show "distinct (map gen_id (generations db @ [g]))"
      using assms(1) c by (auto simp: db_ok_def generations_ok_def)
    show "one_active (generations db @ [g])"
    proof (unfold one_active_def, intro ballI impI)
      fix r r'
      assume rr: "r \<in> set (generations db @ [g])" "r' \<in> set (generations db @ [g])"
        and a: "is_active (gen_status r) \<and> is_active (gen_status r') \<and> gen_thread r \<noteq> None \<and> gen_thread r = gen_thread r'"
      have "one_active (generations db)" using assms(1) by (simp add: db_ok_def generations_ok_def)
      moreover have "x \<notin> set (generations db)" if "is_active (gen_status x)" "gen_thread x \<noteq> None" "gen_thread x = gen_thread g" for x
        using c that q by blast
      ultimately show "gen_id r = gen_id r'"
        using rr a unfolding one_active_def by (metis Un_iff empty_iff empty_set insert_iff list.simps(15) set_append)
    qed
    show "unique_requests (generations db @ [g])"
    proof (unfold unique_requests_def, intro ballI impI)
      fix r r'
      assume rr: "r \<in> set (generations db @ [g])" "r' \<in> set (generations db @ [g])"
        and a: "gen_requester r = gen_requester r' \<and> gen_client_request r = gen_client_request r'"
      have "unique_requests (generations db)" using assms(1) by (simp add: db_ok_def generations_ok_def)
      moreover have "x \<notin> set (generations db)"
        if "gen_requester x = gen_requester g" "gen_client_request x = gen_client_request g" for x
        using c that by blast
      ultimately show "gen_id r = gen_id r'"
        using rr a unfolding unique_requests_def by (metis Un_iff empty_iff empty_set insert_iff list.simps(15) set_append)
    qed
    show "results_completed (generations db @ [g])" "finished_marked (generations db @ [g])"
      using assms(1,4,5) q by (auto simp: db_ok_def generations_ok_def results_completed_def finished_marked_def)
  qed
  moreover have "results_ok db'"
    using assms(1,4) by (simp add: db' db_ok_def results_ok_def) (metis option.distinct(1))
  ultimately show ?thesis using assms(1) by (simp add: db_ok_def db' messages_ok_def)
qed

lemma next_ordinal_ok: "messages_ok db \<Longrightarrow> next_ordinal db t = Suc (length (thread_messages db t))"
proof -
  assume "messages_ok db"
  then have "map msg_ordinal (thread_messages db t) = [1..<Suc (length (thread_messages db t))]"
    by (simp add: messages_ok_def)
  moreover have "fold max [1..<Suc n] 0 = n" for n :: nat
    by (induction n) simp_all
  ultimately show ?thesis unfolding next_ordinal_def by simp
qed

lemma results_ok_more_messages:
  assumes "results_ok db" "generations db' = generations db" "set (messages db) \<subseteq> set (messages db')"
  shows "results_ok db'"
  using assms(1,3) unfolding results_ok_def assms(2) by blast

lemma db_ok_insert_message:
  assumes "db_ok m db" "mid \<notin> msg_id ` set (messages db)"
  shows "db_ok m (insert_message mid t role actor content db)"
proof -
  let ?db = "insert_message mid t role actor content db"
  have n: "next_ordinal db t = Suc (length (thread_messages db t))"
    using assms(1) next_ordinal_ok by (simp add: db_ok_def)
  have "thread_messages ?db u = thread_messages db u @ (if u = t then [last (messages ?db)] else [])" for u
    by (simp add: thread_messages_def insert_message_def)
  moreover have "msg_ordinal (last (messages ?db)) = Suc (length (thread_messages db t))"
    by (simp add: insert_message_def n)
  moreover have "distinct (map msg_id (messages ?db))"
    using assms by (simp add: db_ok_def messages_ok_def insert_message_def)
  ultimately have "messages_ok ?db"
    using assms(1) by (auto simp: messages_ok_def db_ok_def)
  moreover have "results_ok ?db"
    using assms(1) unfolding db_ok_def by (auto intro: results_ok_more_messages simp: insert_message_def)
  moreover have "generations ?db = generations db" "work_ok m ?db = work_ok m db"
    by (simp_all add: insert_message_def work_ok_frame [of "db\<lparr>messages := _\<rparr>" db])
  ultimately show ?thesis using assms(1) by (simp add: db_ok_def)
qed

lemma db_ok_frame:
  assumes "db_ok m db" "generations db' = generations db" "messages db' = messages db"
    "work_items db' = work_items db" "work_versions db' = work_versions db"
  shows "db_ok m db'"
  using assms(1)
  unfolding db_ok_def messages_ok_def results_ok_def thread_messages_def work_ok_def item_versions_def assms(2-5) .

lemma db_ok_threads: "db_ok m db \<Longrightarrow> db_ok m (db\<lparr>threads := ts\<rparr>)"
  by (rule db_ok_frame) simp_all

lemma db_ok_usage: "db_ok m db \<Longrightarrow> db_ok m (db\<lparr>usage_events := es\<rparr>)"
  by (rule db_ok_frame) simp_all

lemma db_ok_record_ids:
  assumes "db_ok m db"
  shows "db_ok m (record_ids g request gen db)"
proof -
  define f :: "generation_row \<Rightarrow> generation_row" where "f r = (if gen_id r = g then r\<lparr>gen_provider_request := request, gen_provider_generation := Some gen\<rparr>
      else r)" for r
  have f: "gen_id (f r) = gen_id r" "gen_thread (f r) = gen_thread r" "gen_requester (f r) = gen_requester r"
    "gen_client_request (f r) = gen_client_request r" "gen_result (f r) = gen_result r"
    "gen_status (f r) = gen_status r" "gen_finished (f r) = gen_finished r" for r by (simp_all add: f_def)
  have db': "record_ids g request gen db = db\<lparr>generations := map f (generations db)\<rparr>"
    by (simp add: record_ids_def f_def cong: map_cong)
  have "generations_ok (map f (generations db))"
    using assms unfolding db_ok_def generations_ok_def one_active_def unique_requests_def results_completed_def
      finished_marked_def set_map ball_simps f map_map comp_def by blast
  moreover have "results_ok (record_ids g request gen db)"
    using assms unfolding db' db_ok_def results_ok_def by (simp add: f) blast
  ultimately show ?thesis using assms by (simp add: db_ok_def db' messages_ok_def)
qed

lemma db_ok_touch: "db_ok m db \<Longrightarrow> db_ok m (touch_thread now t db)"
  by (rule db_ok_frame) (simp_all add: touch_thread_def)

section \<open>Commit\<close>

lemma apply_state_frame:
  assumes "apply_state_operation m iid vid ts g th doc db = Inr db'"
  shows "generations db' = generations db" "messages db' = messages db" "attachments db' = attachments db"
    "threads db' = threads db"
  using assms by (auto elim!: apply_state_operation_cases)

lemma db_ok_claim: "db_ok m db \<Longrightarrow> db_ok m (fst (claim_completed now g d c db))"
  unfolding claim_completed_def by (rule db_ok_transition) simp_all

lemma transition_hit:
  assumes "transition now g allowed s upd db = (db1, True)" "distinct (map gen_id (generations db))"
    "keeps_identity upd" "r \<in> set (generations db1)" "gen_id r = g"
  shows "gen_status r = s"
proof -
  let ?h = "\<lambda>r. gen_id r = g \<and> gen_status r \<in> set allowed"
  have gs: "generations db1 = map (advance now g allowed s upd) (generations db)" and "length (filter ?h (generations db)) = 1"
    using assms(1) unfolding transition_eq prod.inject by auto
  then obtain x where "filter ?h (generations db) = [x]" by (auto simp: length_Suc_conv)
  then have x: "x \<in> set (generations db)" "?h x" by (auto simp: filter_eq_Cons_iff)
  obtain r0 where r0: "r0 \<in> set (generations db)" "r = advance now g allowed s upd r0"
    using assms(4) unfolding gs by (auto simp only: set_map)
  have "gen_id (advance now g allowed s upd r0) = gen_id r0"
    using assms(3) by (simp add: advance_def keeps_identity_def)
  then have "gen_id r0 = gen_id x" using r0 x(2) assms(5) by simp
  then have "r0 = x" using assms(2) r0(1) x(1) by (metis distinct_map inj_onD)
  then show ?thesis using x(2) r0(2) by (simp add: advance_def)
qed

lemma transition_was:
  assumes "transition now g allowed s upd db = (db1, True)" "distinct (map gen_id (generations db))"
    "r \<in> set (generations db)" "gen_id r = g"
  shows "gen_status r \<in> set allowed"
proof -
  let ?h = "\<lambda>r. gen_id r = g \<and> gen_status r \<in> set allowed"
  have "length (filter ?h (generations db)) = 1"
    using assms(1) unfolding transition_eq prod.inject by auto
  then obtain x where "filter ?h (generations db) = [x]" by (auto simp: length_Suc_conv)
  then have x: "x \<in> set (generations db)" "?h x" by (auto simp: filter_eq_Cons_iff)
  then have "r = x" using assms(2-4) by (metis distinct_map inj_onD)
  then show ?thesis using x by simp
qed

lemma claimed_was_running:
  assumes "claim_completed now g d c db = (db1, True)" "db_ok m db" "r \<in> set (generations db)" "gen_id r = g"
  shows "gen_status r = Running"
  using transition_was [OF assms(1) [unfolded claim_completed_def] _ assms(3,4)] assms(2)
  by (simp add: db_ok_def generations_ok_def)

lemma claimed_row:
  assumes "claim_completed now g d c db = (db1, True)" "db_ok m db" "r \<in> set (generations db1)" "gen_id r = g"
  shows "gen_status r = Completed"
  by (rule transition_hit [OF assms(1) [unfolded claim_completed_def] _ _ assms(3,4)])
    (use assms(2) in \<open>simp_all add: db_ok_def generations_ok_def\<close>)

lemma unique_generation:
  assumes "db_ok m db" "r \<in> set (generations db)" "r' \<in> set (generations db)" "gen_id r = gen_id r'"
  shows "r = r'"
  using assms by (metis db_ok_def distinct_map generations_ok_def inj_onD)

lemma db_ok_set_result:
  assumes ok: "db_ok m db" and g: "\<forall>r\<in>set (generations db). gen_id r = g \<longrightarrow> gen_status r = Completed \<and> gen_thread r = Some t"
    and x: "\<exists>x\<in>set (messages db). msg_id x = mid \<and> msg_role x = AssistantRole \<and> msg_thread x = t"
    and fresh: "\<forall>r\<in>set (generations db). gen_result r \<noteq> Some mid"
  shows "db_ok m (set_result g mid db)"
proof -
  let ?f = "\<lambda>r. if gen_id r = g then r\<lparr>gen_result := Some mid\<rparr> else r"
  have f: "gen_id (?f r) = gen_id r" "gen_thread (?f r) = gen_thread r" "gen_requester (?f r) = gen_requester r"
    "gen_client_request (?f r) = gen_client_request r" "gen_status (?f r) = gen_status r" "gen_finished (?f r) = gen_finished r" for r
    by simp_all
  have "generations_ok (map ?f (generations db))"
  proof -
    have "results_completed (map ?f (generations db))"
      using ok g by (auto simp: db_ok_def generations_ok_def results_completed_def)
    then show ?thesis
      using ok unfolding db_ok_def generations_ok_def one_active_def unique_requests_def finished_marked_def
        set_map ball_simps f map_map o_def f by blast
  qed
  moreover have "results_ok (set_result g mid db)"
  proof -
    have r1: "\<exists>x\<in>set (messages db). msg_id x = n \<and> msg_role x = AssistantRole \<and> gen_thread r = Some (msg_thread x)"
      if "r \<in> set (generations db)" "gen_result (?f r) = Some n" for r n
    proof (cases "gen_id r = g")
      case True
      then have "n = mid" "gen_thread r = Some t" using that g by simp_all
      then show ?thesis using x by auto
    next
      case False
      then have "gen_result r = Some n" using that(2) by simp
      then show ?thesis using ok that(1) unfolding db_ok_def results_ok_def by blast
    qed
    have r2: "gen_id r = gen_id r'"
      if "r \<in> set (generations db)" "r' \<in> set (generations db)" "gen_result (?f r) \<noteq> None"
        "gen_result (?f r) = gen_result (?f r')" for r r'
    proof (cases "gen_id r = g \<or> gen_id r' = g")
      case True
      have "gen_id z = g" if "z \<in> set (generations db)" "gen_result (?f z) = Some mid" for z
        using that fresh by (cases "gen_id z = g") auto
      moreover have "gen_result (?f r) = Some mid" "gen_result (?f r') = Some mid" using True that(4) by auto
      ultimately show ?thesis using that(1,2) by metis
    next
      case False
      then have "gen_result r \<noteq> None" "gen_result r = gen_result r'" using that by simp_all
      then show ?thesis using ok that(1,2) unfolding db_ok_def results_ok_def by blast
    qed
    have gs: "generations (set_result g mid db) = map ?f (generations db)" "messages (set_result g mid db) = messages db"
      by (simp_all add: set_result_def)
    show ?thesis unfolding results_ok_def gs set_map ball_simps f using r1 r2 by blast
  qed
  ultimately show ?thesis
    using ok by (simp add: db_ok_def messages_ok_def set_result_def)
qed

lemma the_generation_Some: "the_generation db g = Some r \<Longrightarrow> r \<in> set (generations db) \<and> gen_id r = g"
  unfolding the_generation_def by (drule find_Some_member) simp

definition commit_fresh :: "drawn \<Rightarrow> database \<Rightarrow> bool" where
  "commit_fresh ids db \<longleftrightarrow> new_message_id ids \<notin> msg_id ` set (messages db)
     \<and> new_item_id ids \<notin> wi_id ` set (work_items db)"

text \<open>A successful commit is the claim, the assistant message, the change of canonical work and the
  result, in this order; or only the claim when the generation is no conversation turn.\<close>

lemma commit_cases:
  assumes "commit_success_once now mw ids ts g d c db = Inr (Some db')"
  obtains (turn) db1 r t th db3 where "claim_completed now g d c db = (db1, True)" "the_generation db1 g = Some r"
      "gen_purpose r = Chat" "gen_thread r = Some t" "the_thread db1 t = Some th"
      "apply_state_operation mw (new_item_id ids) (new_version_id ids) ts r (Some th) d
         (insert_message (new_message_id ids) t AssistantRole None (doc_blocks d) db1) = Inr db3"
      "db' = touch_thread now t (set_result g (new_message_id ids) db3)"
  | (other) r where "claim_completed now g d c db = (db', True)" "the_generation db' g = Some r"
      "gen_purpose r \<noteq> Chat \<or> gen_thread r = None" "gen_purpose r \<noteq> Chat \<Longrightarrow> doc_state d = NoState"
      "gen_purpose r = PromptHandoff \<Longrightarrow> handoff_ok d"
proof -
  obtain db1 where cl: "claim_completed now g d c db = (db1, True)"
    using assms by (auto simp: commit_success_once_def split: prod.splits bool.splits)
  then obtain r where r: "the_generation db1 g = Some r"
    using assms by (auto simp: commit_success_once_def split: option.splits)
  note c = assms [unfolded commit_success_once_def cl r prod.case bool.case option.case]
  have guards: "\<not> (gen_purpose r \<noteq> Chat \<and> doc_state d \<noteq> NoState)" "\<not> (gen_purpose r = PromptHandoff \<and> \<not> handoff_ok d)"
    using c by (auto split: if_splits)
  note c = c [unfolded if_not_P [OF guards(1)] if_not_P [OF guards(2)]]
  show thesis
  proof (cases "gen_purpose r = Chat \<and> gen_thread r \<noteq> None")
    case True
    then obtain t where t: "gen_purpose r = Chat" "gen_thread r = Some t" by auto
    then obtain th where "the_thread db1 t = Some th" using c by (auto split: option.splits)
    moreover from this c t obtain db3 where
      "apply_state_operation mw (new_item_id ids) (new_version_id ids) ts r (Some th) d
         (insert_message (new_message_id ids) t AssistantRole None (doc_blocks d) db1) = Inr db3"
      "db' = touch_thread now t (set_result g (new_message_id ids) db3)"
      by (auto simp: Let_def split: sum.splits)
    ultimately show thesis using cl r t by (intro turn)
  next
    case False
    then have "db' = db1" using c by (cases "gen_purpose r"; cases "gen_thread r") auto
    with False cl r guards show thesis by (intro other) auto
  qed
qed

lemma insert_message_frame [simp]:
  "generations (insert_message i t ro a co db) = generations db"
  "work_items (insert_message i t ro a co db) = work_items db"
  "work_versions (insert_message i t ro a co db) = work_versions db"
  "attachments (insert_message i t ro a co db) = attachments db"
  "threads (insert_message i t ro a co db) = threads db"
  by (simp_all add: insert_message_def)

lemma claim_frame:
  assumes "claim_completed now g d c db = (db1, b)"
  shows "messages db1 = messages db" "work_items db1 = work_items db" "attachments db1 = attachments db"
    "threads db1 = threads db" "work_versions db1 = work_versions db"
  using assms by (auto simp: claim_completed_def transition_eq)

lemma db_ok_commit:
  assumes ok: "db_ok m db" and c: "commit_success_once now m ids ts g d c db = Inr (Some db')" and fresh: "commit_fresh ids db"
  shows "db_ok m db'"
  using c
proof (cases rule: commit_cases)
  case (turn db1 r t th db3)
  let ?db2 = "insert_message (new_message_id ids) t AssistantRole None (doc_blocks d) db1"
  have ok1: "db_ok m db1" using db_ok_claim [OF ok, of now g d c] turn(1) by simp
  note f1 = claim_frame [OF turn(1)]
  have ok2: "db_ok m ?db2"
    by (rule db_ok_insert_message [OF ok1]) (use fresh in \<open>simp add: commit_fresh_def f1\<close>)
  note f3 = apply_state_frame [OF turn(6)]
  have "work_ok m db3"
    by (rule work_ok_preserved [OF _ _ turn(6)]) (use ok2 fresh in \<open>simp_all add: db_ok_def commit_fresh_def f1\<close>)
  then have ok3: "db_ok m db3"
    using ok2 f3 unfolding db_ok_def messages_ok_def results_ok_def thread_messages_def by metis
  have "db_ok m (set_result g (new_message_id ids) db3)"
  proof (rule db_ok_set_result [OF ok3, of _ t])
    show "\<forall>x\<in>set (generations db3). gen_id x = g \<longrightarrow> gen_status x = Completed \<and> gen_thread x = Some t"
      using claimed_row [OF turn(1) ok] unique_generation [OF ok1] the_generation_Some [OF turn(2)] turn(4)
      by (metis f3(1) insert_message_frame(1))
    show "\<exists>x\<in>set (messages db3). msg_id x = new_message_id ids \<and> msg_role x = AssistantRole \<and> msg_thread x = t"
      by (simp add: f3 insert_message_def)
    have "\<forall>x\<in>set (generations db1). gen_result x \<noteq> Some (new_message_id ids)"
      using ok1 fresh unfolding db_ok_def results_ok_def commit_fresh_def f1 [symmetric] by (metis imageI)
    then show "\<forall>x\<in>set (generations db3). gen_result x \<noteq> Some (new_message_id ids)"
      by (simp add: f3)
  qed
  then show ?thesis by (simp add: turn(7) db_ok_touch)
next
  case (other r)
  then show ?thesis using db_ok_claim [OF ok, of now g d c] by simp
qed

section \<open>Deletion\<close>

lemma generations_ok_filter: "generations_ok gs \<Longrightarrow> generations_ok (filter P gs)"
  unfolding generations_ok_def one_active_def unique_requests_def results_completed_def finished_marked_def set_filter
  by (intro conjI) (simp add: distinct_map_filter, blast+)

lemma work_ok_delete:
  assumes "work_ok m db"
  shows "work_ok m (delete_rows t db)"
proof -
  let ?db = "delete_rows t db"
  let ?gone = "wi_id ` {i \<in> set (work_items db). wi_thread i = t}"
  have wi: "work_items ?db = filter (\<lambda>i. wi_thread i \<noteq> t) (work_items db)"
    and wv: "work_versions ?db = filter (\<lambda>v. wv_item v \<notin> ?gone) (work_versions db)"
    by (simp_all add: delete_rows_def Let_def image_Collect)
  have inj: "inj_on wi_id (set (work_items db))" using assms by (simp add: work_ok_def distinct_map)
  have kept: "wi_id i \<notin> ?gone" if "i \<in> set (work_items db)" "wi_thread i \<noteq> t" for i
    using inj that by (auto dest: inj_onD)
  have iv: "item_versions ?db i = (if i \<in> ?gone then [] else item_versions db i)" for i
    unfolding item_versions_def wv by (auto intro: filter_cong simp: filter_empty_conv)
  show ?thesis unfolding work_ok_def
  proof (intro conjI)
    show "distinct (map wi_id (work_items ?db))" using assms by (simp add: wi work_ok_def distinct_map_filter)
    show "\<forall>u. length (filter (\<lambda>i. wi_thread i = u \<and> wi_active i) (work_items ?db)) \<le> 1"
    proof
      fix u
      have "length (filter (\<lambda>i. wi_thread i = u \<and> wi_active i) (work_items ?db))
          = length (filter (\<lambda>i. wi_thread i \<noteq> t) (filter (\<lambda>i. wi_thread i = u \<and> wi_active i) (work_items db)))"
        by (simp add: wi conj_commute)
      also have "\<dots> \<le> length (filter (\<lambda>i. wi_thread i = u \<and> wi_active i) (work_items db))"
        by (rule length_filter_le)
      also have "\<dots> \<le> 1" using assms by (simp add: work_ok_def)
      finally show "length (filter (\<lambda>i. wi_thread i = u \<and> wi_active i) (work_items ?db)) \<le> 1" .
    qed
    show "\<forall>v\<in>set (work_versions ?db). version_fields_ok m v \<and> wv_item v \<in> wi_id ` set (work_items ?db)"
      using assms unfolding wv wi work_ok_def set_filter by blast
    show "\<forall>i\<in>wi_id ` set (work_items ?db). item_versions ?db i \<noteq> [] \<and> history_ok (item_versions ?db i)"
      using assms kept unfolding wi work_ok_def by (auto simp: iv)
  qed
qed

lemma db_ok_delete:
  assumes "db_ok m db"
  shows "db_ok m (delete_rows t db)"
proof -
  let ?db = "delete_rows t db"
  have gs: "generations ?db = filter (\<lambda>g. gen_thread g \<noteq> Some t) (generations db)"
    and ms: "messages ?db = filter (\<lambda>m. msg_thread m \<noteq> t) (messages db)"
    by (simp_all add: delete_rows_def Let_def)
  have tm: "thread_messages ?db u = (if u = t then [] else thread_messages db u)" for u
    unfolding thread_messages_def ms by (auto intro: filter_cong simp: filter_empty_conv)
  have "messages_ok ?db"
    using assms unfolding db_ok_def messages_ok_def tm ms by (simp add: distinct_map_filter del: upt_Suc)
  moreover have "results_ok ?db"
    unfolding results_ok_def gs ms
  proof (intro conjI ballI allI impI)
    fix r n assume "r \<in> set (filter (\<lambda>g. gen_thread g \<noteq> Some t) (generations db))" "gen_result r = Some n"
    then show "\<exists>x\<in>set (filter (\<lambda>m. msg_thread m \<noteq> t) (messages db)).
        msg_id x = n \<and> msg_role x = AssistantRole \<and> gen_thread r = Some (msg_thread x)"
      using assms unfolding db_ok_def results_ok_def set_filter by blast
  next
    fix r r' assume "r \<in> set (filter (\<lambda>g. gen_thread g \<noteq> Some t) (generations db))"
      "r' \<in> set (filter (\<lambda>g. gen_thread g \<noteq> Some t) (generations db))"
      "gen_result r \<noteq> None \<and> gen_result r = gen_result r'"
    then show "gen_id r = gen_id r'"
      using assms unfolding db_ok_def results_ok_def set_filter by blast
  qed
  ultimately show ?thesis
    using assms work_ok_delete generations_ok_filter unfolding db_ok_def gs by blast
qed

lemma db_ok_stop_all: "stop_all now live gs db = Inr db' \<Longrightarrow> db_ok m db \<Longrightarrow> db_ok m db'"
proof (induction gs arbitrary: db)
  case (Cons g gs)
  then obtain db1 where "stop now (g \<in> set live) g db = Inr db1" "stop_all now live gs db1 = Inr db'"
    by (auto simp: res_simps)
  then show ?case using Cons db_ok_stop by blast
qed simp

section \<open>Files\<close>

text \<open>Changes of generation rows leave the attachments alone.\<close>

lemma attachments_frame [simp]:
  "attachments (fst (transition now g al s upd db)) = attachments db"
  "attachments (fst (set_running now g db)) = attachments db"
  "attachments (finish_stopped now g db) = attachments db"
  "attachments (touch_thread now t db) = attachments db"
  "attachments (set_result g mid db) = attachments db"
  "attachments (fst (reconcile_orphans now db)) = attachments db"
  by (simp_all add: transition_eq set_running_def finish_stopped_def touch_thread_def set_result_def reconcile_eq split: prod.split)

lemma attachments_fail [simp]: "attachments (fst (fail now g code bs db)) = attachments db"
  by (simp add: fail_def transition_eq split: prod.split bool.split)

lemma attachments_stop: "stop now live g db = Inr db' \<Longrightarrow> attachments db' = attachments db"
  by (auto simp: stop_def transition_eq split: if_splits option.splits)

lemma attachments_stop_all: "stop_all now live gs db = Inr db' \<Longrightarrow> attachments db' = attachments db"
proof (induction gs arbitrary: db)
  case (Cons g gs)
  then obtain db1 where "stop now (g \<in> set live) g db = Inr db1" "stop_all now live gs db1 = Inr db'"
    by (auto simp: res_simps)
  then show ?case using Cons.IH attachments_stop by metis
qed simp

lemma attachments_finalize_rows [simp]: "attachments (fst (finalize_rows now live rows db)) = attachments db"
proof (induction now live rows db rule: finalize_rows.induct)
  case (2 now live g s rows db)
  then show ?case by (auto simp: transition_eq split: prod.splits)
qed simp

lemma attachments_finalize [simp]: "attachments (fst (finalize_orphans now live t db)) = attachments db"
  by (simp add: finalize_orphans_def)

lemma attachments_commit:
  "commit_success_once now mw ids ts g d c db = Inr (Some db') \<Longrightarrow> attachments db' = attachments db"
  by (elim commit_cases) (auto simp: claim_frame apply_state_frame)

lemma attachments_insert_generation: "insert_generation g db = Inr db' \<Longrightarrow> attachments db' = attachments db"
  by (auto simp: insert_generation_def split: if_splits)

lemma files_ok_db: "files_ok s \<Longrightarrow> attachments db = attachments (sys_db s) \<Longrightarrow> files_ok (s\<lparr>sys_db := db\<rparr>)"
  by (simp add: files_ok_def)

lemma files_ok_delete:
  assumes "files_ok s" "attachments db = attachments (sys_db s)"
  shows "files_ok (s\<lparr>sys_db := delete_rows t db, sys_files := filter (\<lambda>f. f \<notin> set (thread_files t db)) (sys_files s)\<rparr>)"
proof -
  have inj: "inj_on att_storage (set (attachments db))" using assms by (simp add: files_ok_def distinct_map)
  have "a \<in> set (attachments db) \<Longrightarrow> att_message a \<notin> msg_id ` set (thread_messages db t)
      \<Longrightarrow> att_storage a \<notin> set (thread_files t db)" for a
    using inj by (auto simp: thread_files_def dest: inj_onD)
  then show ?thesis
    using assms by (auto simp: files_ok_def delete_rows_def Let_def distinct_map_filter)
qed

lemma files_ok_sweep: "files_ok s \<Longrightarrow> files_ok (sweep_orphan_attachments s)"
  by (auto simp: files_ok_def sweep_orphan_attachments_def)

section \<open>Starting a generation\<close>

lemma existing_request_Some:
  "existing_request db u q = Inr (Some r) \<Longrightarrow>
     r \<in> set (generations db) \<and> gen_requester r = u \<and> gen_client_request r = q \<and> gen_thread r \<noteq> None"
  by (auto simp: existing_request_def split: option.splits if_splits dest: find_Some_member)

lemma existing_request_None:
  "existing_request db u q = Inr None \<Longrightarrow> r \<in> set (generations db) \<Longrightarrow> gen_requester r = u \<Longrightarrow> gen_client_request r \<noteq> q"
  by (auto simp: existing_request_def find_None_iff split: option.splits if_splits)

lemma queued_generation_simps [simp]:
  "gen_id (queued_generation now g t u q p src ro) = g" "gen_thread (queued_generation now g t u q p src ro) = Some t"
  "gen_requester (queued_generation now g t u q p src ro) = u" "gen_client_request (queued_generation now g t u q p src ro) = q"
  "gen_status (queued_generation now g t u q p src ro) = Queued" "gen_result (queued_generation now g t u q p src ro) = None"
  "gen_finished (queued_generation now g t u q p src ro) = None" "gen_purpose (queued_generation now g t u q p src ro) = p"
  "gen_source (queued_generation now g t u q p src ro) = src" "gen_retry_of (queued_generation now g t u q p src ro) = ro"
  by (simp_all add: queued_generation_def)

lemma prepare_queued:
  "prepare_handoff now g t u q db = Inr r \<Longrightarrow> \<exists>t p src ro. r = queued_generation now g t u q p src ro"
  "prepare_retry now g o' u q db = Inr r \<Longrightarrow> \<exists>t p src ro. r = queued_generation now g t u q p src ro"
  by (auto simp: prepare_handoff_def prepare_retry_def split: option.splits if_splits)

lemma start_generation_cases:
  assumes "start_generation now u q prep s = Inr (s', i)"
  obtains (repeated) r where "existing_request (sys_db s) u q = Inr (Some r)" "s' = s" "i = gen_id r"
  | (started) r db' where "existing_request (sys_db s) u q = Inr None" "prep (sys_db s) = Inr r" "i = gen_id r"
      "insert_generation r (fst (finalize_orphans now (gen_id r # sys_live s) (the (gen_thread r)) (sys_db s))) = Inr db'"
      "s' = s\<lparr>sys_db := db', sys_live := sys_live s @ [gen_id r]\<rparr>"
proof -
  obtain e where e: "existing_request (sys_db s) u q = Inr e"
    using assms by (auto simp: start_generation_def res_simps)
  show thesis
  proof (cases e)
    case (Some r)
    then show thesis using assms e by (intro repeated) (auto simp: start_generation_def)
  next
    case None
    with assms e obtain r where r: "prep (sys_db s) = Inr r" by (auto simp: start_generation_def res_simps)
    note q = assms [unfolded start_generation_def e None bind_res_Inr option.case r]
    then obtain db' where
      "insert_generation r (fst (finalize_orphans now (gen_id r # sys_live s) (the (gen_thread r)) (sys_db s))) = Inr db'"
      by (auto split: sum.splits)
    with q show thesis using e None r by (intro started) auto
  qed
qed

lemma sys_ok_start:
  assumes "sys_ok m s" "start_generation now u q prep s = Inr (s', i)"
    and "\<And>r. prep (sys_db s) = Inr r \<Longrightarrow> \<exists>t p src ro. r = queued_generation now g t u q p src ro"
  shows "sys_ok m s'"
  using assms(2)
proof (cases rule: start_generation_cases)
  case (started r db')
  obtain t p src ro where r: "r = queued_generation now g t u q p src ro" using assms(3) started(2) by blast
  have "db_ok m db'"
    using db_ok_insert_generation [OF _ started(4)] db_ok_finalize assms(1) by (simp add: r sys_ok_def)
  moreover have "attachments db' = attachments (sys_db s)"
    using attachments_insert_generation [OF started(4)] by simp
  ultimately show ?thesis using assms(1) files_ok_db [of s db'] by (simp add: started(5) sys_ok_def files_ok_def)
qed (use assms(1) in simp)

section \<open>Submitting a turn\<close>

definition turn_fresh :: "turn_ids \<Rightarrow> database \<Rightarrow> bool" where
  "turn_fresh ids db \<longleftrightarrow> id_message ids \<notin> msg_id ` set (messages db) \<and> id_thread ids \<notin> th_id ` set (threads db)"

lemma messages_finalize_rows [simp]: "messages (fst (finalize_rows now live rows db)) = messages db"
proof (induction now live rows db rule: finalize_rows.induct)
  case (2 now live g s rows db)
  then show ?case by (auto simp: transition_eq split: prod.splits)
qed simp

lemma turn_thread_row_Inr:
  assumes "turn_thread_row now ids live t db = Inr (tid, db1)" "db_ok m db"
  shows "db_ok m db1" "messages db1 = messages db" "attachments db1 = attachments db"
proof -
  show "messages db1 = messages db" "attachments db1 = attachments db"
    using assms by (auto simp: turn_thread_row_def finalize_orphans_def split: option.splits if_splits prod.splits)
  show "db_ok m db1"
    using assms db_ok_finalize db_ok_frame [OF assms(2), of "db\<lparr>threads := _\<rparr>"]
    by (auto simp: turn_thread_row_def split: option.splits if_splits prod.splits)
qed

lemma insert_turn_cases:
  assumes "insert_turn now lm ids t s = Inr (s', tid, i)"
  obtains (repeated) r where "existing_request (sys_db s) (turn_requester t) (turn_request_id t) = Inr (Some r)"
      "s' = s" "gen_thread r = Some tid" "i = gen_id r"
  | (inserted) db1 content db3 files db4 where
      "existing_request (sys_db s) (turn_requester t) (turn_request_id t) = Inr None"
      "turn_thread_row now ids (id_generation ids # sys_live s) t (sys_db s) = Inr (tid, db1)"
      "turn_word_checks lm t tid db1 = Inr ()"
      "(case turn_attachment t of
          None \<Rightarrow> db3 = insert_message (id_message ids) tid UserRole (Some (turn_requester t)) content db1 \<and> files = sys_files s
        | Some a \<Rightarrow> db3 = insert_message (id_message ids) tid UserRole (Some (turn_requester t)) content db1
                    \<lparr>attachments := attachments db1 @ [attachment_row_of ids t a]\<rparr>
            \<and> persist_attachment (sys_files s) (id_attachment ids @ ''.docx'') = Inr files)"
      "insert_generation (queued_generation now (id_generation ids) tid (turn_requester t) (turn_request_id t) Chat
          (Some (id_message ids)) None) db3 = Inr db4"
      "s' = s\<lparr>sys_db := touch_thread now tid db4, sys_files := files, sys_live := sys_live s @ [id_generation ids]\<rparr>"
      "i = id_generation ids"
proof -
  obtain e where e: "existing_request (sys_db s) (turn_requester t) (turn_request_id t) = Inr e"
    using assms by (auto simp: insert_turn_def res_simps)
  show thesis
  proof (cases e)
    case (Some r)
    then show thesis using assms e by (intro repeated) (auto simp: insert_turn_def res_simps split: option.splits)
  next
    case None
    with assms e obtain tid' db1 where a: "turn_thread_row now ids (id_generation ids # sys_live s) t (sys_db s) = Inr (tid', db1)"
      "turn_word_checks lm t tid' db1 = Inr ()"
      by (auto simp: insert_turn_def res_simps)
    define content where "content = (if strip (turn_text t) = [] then []
                            else [\<lparr>block_type = Conversation, block_text = turn_text t\<rparr>])"
    note q = assms [unfolded insert_turn_def e None bind_res_Inr option.case a prod.case Let_def, folded content_def]
    show thesis
    proof (cases "turn_attachment t")
      case None
      with q obtain db4 where b: "tid' = tid" "i = id_generation ids"
        "insert_generation (queued_generation now (id_generation ids) tid (turn_requester t) (turn_request_id t) Chat
          (Some (id_message ids)) None) (insert_message (id_message ids) tid UserRole (Some (turn_requester t)) content db1) = Inr db4"
        "s' = s\<lparr>sys_db := touch_thread now tid db4, sys_files := sys_files s, sys_live := sys_live s @ [id_generation ids]\<rparr>"
        by (auto simp: res_simps)
      show thesis
        by (rule inserted [OF _ _ _ _ b(3,4,2), of db1 content]) (use a b(1) e \<open>e = None\<close> None in simp_all)
    next
      case (Some x)
      with q obtain files db4 where b: "tid' = tid" "i = id_generation ids"
        "persist_attachment (sys_files s) (id_attachment ids @ ''.docx'') = Inr files"
        "insert_generation (queued_generation now (id_generation ids) tid (turn_requester t) (turn_request_id t) Chat
          (Some (id_message ids)) None)
          (insert_message (id_message ids) tid UserRole (Some (turn_requester t)) content db1
            \<lparr>attachments := attachments db1 @ [attachment_row_of ids t x]\<rparr>) = Inr db4"
        "s' = s\<lparr>sys_db := touch_thread now tid db4, sys_files := files, sys_live := sys_live s @ [id_generation ids]\<rparr>"
        by (auto simp: res_simps)
      show thesis
        by (rule inserted [OF _ _ _ _ b(4,5,2), of db1 content]) (use a b(1,3) e \<open>e = None\<close> Some in simp_all)
    qed
  qed
qed

lemma sys_ok_insert_turn:
  assumes "sys_ok m s" "insert_turn now lm ids t s = Inr (s', tid, i)" "turn_fresh ids (sys_db s)"
  shows "sys_ok m s'"
  using assms(2)
proof (cases rule: insert_turn_cases)
  case (inserted db1 content db3 files db4)
  note t1 = turn_thread_row_Inr [OF inserted(2), of m]
  have ok: "db_ok m (sys_db s)" and files: "files_ok s" using assms(1) by (simp_all add: sys_ok_def)
  let ?db2 = "insert_message (id_message ids) tid UserRole (Some (turn_requester t)) content db1"
  have ok2: "db_ok m ?db2"
    by (rule db_ok_insert_message) (use t1 ok assms(3) in \<open>simp_all add: turn_fresh_def\<close>)
  then have "db_ok m db3"
    using inserted(4) by (auto split: option.splits intro: db_ok_frame [OF ok2])
  then have "db_ok m (touch_thread now tid db4)"
    by (intro db_ok_touch db_ok_insert_generation [OF _ inserted(5)]) simp_all
  moreover have "files_ok s'"
    using inserted(4) files attachments_insert_generation [OF inserted(5)] t1(3) ok
    by (auto simp: inserted(6) files_ok_def persist_attachment_def attachment_row_of_def
        split: option.splits if_splits)
  ultimately show ?thesis by (simp add: sys_ok_def inserted(6))
qed (use assms(1) in simp)

lemma submit_turn_cases:
  assumes "submit_turn tokens busy now lm ids t s = Inr (s', tid, i)"
  obtains (turn) "insert_turn now lm ids t s = Inr (s', tid, i)" | (conflict) "s' = s"
    "\<exists>r. existing_request (sys_db s) (turn_requester t) (turn_request_id t) = Inr (Some r) \<and> i = gen_id r \<and> gen_thread r = Some tid"
proof (cases "insert_turn now lm ids t s")
  case (Inl e)
  then have "resolve_submission_conflict t s = Inr (s', tid, i)"
    using assms by (auto simp: submit_turn_def res_simps split: if_splits)
  then show thesis
    by (intro conflict) (auto simp: resolve_submission_conflict_def res_simps split: option.splits if_splits)
next
  case (Inr r)
  then show thesis using assms by (intro turn) (auto simp: submit_turn_def res_simps)
qed

lemma sys_ok_submit:
  "sys_ok m s \<Longrightarrow> submit_turn tokens busy now lm ids t s = Inr (s', tid, i) \<Longrightarrow> turn_fresh ids (sys_db s) \<Longrightarrow> sys_ok m s'"
  by (erule submit_turn_cases) (auto intro: sys_ok_insert_turn)

end
