(* ===== verification/Lifecycle_Runs.thy ===== *)
theory Lifecycle_Runs
  imports Lifecycle_Laws Usage_Ledger
begin

text \<open>
  Runs of the system as a step relation over its committed transactions, restarts and deletions.
  Two interfaces, a property that steps keep and an order that steps respect, are interpreted on the
  system invariant and on the order of statuses; then what a missed transition, a stop, a commit and
  the finishing of orphans do to the rows.
\<close>

section \<open>Runs of the system\<close>

text \<open>What a run may do next.  The \<open>work\<close> steps are the committed transactions of a running
  process and its restarts; \<open>step\<close> adds the deletion of a conversation.  The identifiers that
  \<^verbatim>\<open>new_id\<close> draws are not in use yet.\<close>

inductive work :: "nat \<Rightarrow> system \<Rightarrow> system \<Rightarrow> bool" for m where
  submit: "submit_turn tokens busy now lm ids t s = Inr (s', tid, i) \<Longrightarrow> turn_fresh ids (sys_db s) \<Longrightarrow> work m s s'"
| handoff: "submit_handoff now g t u q s = Inr (s', i) \<Longrightarrow> work m s s'"
| retry: "retry now g orig u q s = Inr (s', i) \<Longrightarrow> work m s s'"
| start: "work m s (s\<lparr>sys_db := fst (set_running now g (sys_db s))\<rparr>)"
| commit: "commit_success_once now m ids ts g d c (sys_db s) = Inr (Some db') \<Longrightarrow> commit_fresh ids (sys_db s)
    \<Longrightarrow> work m s (s\<lparr>sys_db := db'\<rparr>)"
| fail: "work m s (s\<lparr>sys_db := fst (fail now g code bs (sys_db s))\<rparr>)"
| stopped: "work m s (s\<lparr>sys_db := finish_stopped now g (sys_db s)\<rparr>)"
| stop: "stop now (g \<in> set (sys_live s)) g (sys_db s) = Inr db' \<Longrightarrow> work m s (s\<lparr>sys_db := db'\<rparr>)"
| task_end: "work m s (s\<lparr>sys_live := filter (\<lambda>i. i \<noteq> g) (sys_live s)\<rparr>)"
| restart: "work m s (s\<lparr>sys_db := fst (reconcile_orphans now (sys_db s)), sys_live := []\<rparr>)"
| sweep: "work m s (sweep_orphan_attachments s)"
| ids: "work m s (s\<lparr>sys_db := record_provider_ids e now u p request gen b (sys_db s)\<rparr>)"
| usage: "work m s (s\<lparr>sys_db := record_usage e now u c p scope request gen' (sys_db s)\<rparr>)"
| settled: "reconcile_pending_costs now cost es b (sys_db s) = (db', b', n) \<Longrightarrow> work m s (s\<lparr>sys_db := db'\<rparr>)"
| title: "work m s (s\<lparr>sys_db := set_title now t txt (sys_db s)\<rparr>)"
| summary: "work m s (s\<lparr>sys_db := store_summary t txt k (sys_db s)\<rparr>)"

inductive step :: "nat \<Rightarrow> system \<Rightarrow> system \<Rightarrow> bool" for m where
  work: "work m s s' \<Longrightarrow> step m s s'"
| delete: "delete_thread now u t s = Inr s' \<Longrightarrow> step m s s'"

inductive_cases step_cases: "step m s s'"

lemma sys_ok_set_db: "sys_ok m s \<Longrightarrow> db_ok m db \<Longrightarrow> attachments db = attachments (sys_db s) \<Longrightarrow> sys_ok m (s\<lparr>sys_db := db\<rparr>)"
  by (simp add: sys_ok_def files_ok_def)

lemma sys_ok_live [simp]: "sys_ok m (s\<lparr>sys_live := l\<rparr>) \<longleftrightarrow> sys_ok m s"
  by (simp add: sys_ok_def files_ok_def)

lemma sys_ok_db: "sys_ok m s \<Longrightarrow> db_ok m (sys_db s)" by (simp add: sys_ok_def)

lemma append_usage_frame: "\<exists>es. fst (append_usage_event e db) = db\<lparr>usage_events := es\<rparr>"
  unfolding append_usage_event_def by (intro exI [of _ "usage_events (fst (append_usage_event e db))"])
    (simp add: append_usage_event_def)

lemma record_usage_frame: "\<exists>es. record_usage eid now u c p scope request gen db = db\<lparr>usage_events := es\<rparr>"
  using append_usage_frame unfolding record_usage_def append_reconcilable_def Let_def
  by (auto split: option.split intro: exI [of _ "usage_events db"])

lemma record_provider_ids_frame:
  "\<exists>es. record_provider_ids eid now u p request gen own db
     = (if own then record_ids (uc_generation u) request gen (db\<lparr>usage_events := es\<rparr>) else db\<lparr>usage_events := es\<rparr>)"
  using append_usage_frame unfolding record_provider_ids_def append_reconcilable_def Let_def by metis

lemma settle_frame: "settle now cost ids es b db = (db', b', n) \<Longrightarrow> \<exists>us. db' = db\<lparr>usage_events := us\<rparr>"
proof (induction es arbitrary: ids b db db' b' n)
  case Nil
  then show ?case by (intro exI [of _ "usage_events db"]) simp
next
  case (Cons e es)
  show ?case
  proof (cases "ue_provider_generation e")
    case None
    with Cons show ?thesis by simp
  next
    case (Some g)
    show ?thesis
    proof (cases "cost g")
      case None
      with Some Cons show ?thesis by simp
    next
      case c: (Some c)
      define e' where "e' = e\<lparr>ue_id := hd ids, ue_dedupe := charge_key g (ue_purpose e), ue_type := Charge,
        ue_amount := Some c, ue_created := now\<rparr>"
      obtain us where us: "fst (append_usage_event e' db) = db\<lparr>usage_events := us\<rparr>" using append_usage_frame by blast
      obtain db1 b1 n1 where
        "settle now cost (tl ids) es (filter (\<lambda>x. fst x \<noteq> ue_id e) b) (fst (append_usage_event e' db)) = (db1, b1, n1)"
        by (metis prod_cases3)
      with Cons.prems Some c Cons.IH [OF this] us show ?thesis
        by (auto simp: e'_def split: prod.splits)
    qed
  qed
qed

lemma reconcile_frame:
  "reconcile_pending_costs now cost es bo db = (db', b', n) \<Longrightarrow> \<exists>us. db' = db\<lparr>usage_events := us\<rparr>"
  unfolding reconcile_pending_costs_def Let_def by (rule settle_frame)

lemma bookkeeping_frames:
  "attachments (record_usage e now u c p scope request gen' db) = attachments db"
  "attachments (record_provider_ids e now u p request gen b db) = attachments db"
  "reconcile_pending_costs now cost es bo db = (db', b', n) \<Longrightarrow> attachments db' = attachments db"
  "attachments (set_title now t txt db) = attachments db" "attachments (store_summary t txt k db) = attachments db"
  using record_usage_frame [of e now u c p scope request gen' db]
    record_provider_ids_frame [of e now u p request gen b db] reconcile_frame [of now cost es bo db db' b' n]
  by (auto simp: record_ids_def set_title_def store_summary_def split: if_splits)

lemma db_ok_bookkeeping:
  assumes "db_ok m db"
  shows "db_ok m (record_usage e now u c p scope request gen' db)"
    "db_ok m (record_provider_ids e now u p request gen b db)"
    "reconcile_pending_costs now cost es bo db = (db', b', n) \<Longrightarrow> db_ok m db'"
    "db_ok m (set_title now t txt db)" "db_ok m (store_summary t txt k db)"
  using assms record_usage_frame [of e now u c p scope request gen' db]
    record_provider_ids_frame [of e now u p request gen b db] reconcile_frame [of now cost es bo db db' b' n]
  by (auto simp: set_title_def store_summary_def db_ok_usage db_ok_record_ids db_ok_threads split: if_splits)

lemma sys_ok_work:
  assumes "sys_ok m s" "work m s s'"
  shows "sys_ok m s'"
  using assms(2)
proof (cases rule: work.cases)
  case submit
  then show ?thesis using sys_ok_submit assms(1) by blast
next
  case (handoff now g t u q i)
  then show ?thesis using sys_ok_start [OF assms(1), of now u q _ s' i g] prepare_queued(1) unfolding submit_handoff_def by blast
next
  case (retry now g orig u q i)
  then show ?thesis using sys_ok_start [OF assms(1), of now u q _ s' i g] prepare_queued(2) unfolding retry_def by blast
next
  case (start now g)
  then show ?thesis using assms(1) by (simp add: sys_ok_set_db db_ok_set_running sys_ok_db)
next
  case (commit now ids ts g d c db')
  then show ?thesis using assms(1) sys_ok_set_db db_ok_commit sys_ok_db attachments_commit by metis
next
  case (fail now g code bs)
  then show ?thesis using assms(1) by (simp add: sys_ok_set_db db_ok_fail sys_ok_db)
next
  case (stopped now g)
  then show ?thesis using assms(1) by (simp add: sys_ok_set_db db_ok_finish_stopped sys_ok_db)
next
  case (stop now g db')
  then show ?thesis using assms(1) sys_ok_set_db db_ok_stop sys_ok_db attachments_stop by metis
next
  case (restart now)
  then show ?thesis using assms(1) by (simp add: sys_ok_set_db db_ok_reconcile sys_ok_db)
next
  case sweep
  then show ?thesis using assms(1) files_ok_sweep by (simp add: sys_ok_def sweep_orphan_attachments_def)
next
  case (settled now cost es b db' b' n)
  then show ?thesis
    using assms(1) sys_ok_set_db [OF assms(1) db_ok_bookkeeping(3) [OF sys_ok_db [OF assms(1)] settled(2)]]
      bookkeeping_frames(3) [OF settled(2)] by simp
qed (use assms(1) in \<open>simp_all add: sys_ok_set_db db_ok_bookkeeping bookkeeping_frames sys_ok_db\<close>)

lemma sys_ok_delete:
  assumes "sys_ok m s" "delete_thread now u t s = Inr s'"
  shows "sys_ok m s'"
proof -
  obtain db where db: "cancel_thread now (sys_live s) t (sys_db s) = Inr db"
      "s' = s\<lparr>sys_db := delete_rows t db, sys_files := filter (\<lambda>f. f \<notin> set (thread_files t db)) (sys_files s)\<rparr>"
    using assms(2) by (auto simp: delete_thread_def res_simps split: option.splits if_splits)
  then have "db_ok m db" "attachments db = attachments (sys_db s)"
    using assms(1) db_ok_stop_all attachments_stop_all sys_ok_db unfolding cancel_thread_def by blast+
  then show ?thesis using db_ok_delete files_ok_delete assms(1) by (simp add: db(2) sys_ok_def)
qed

lemma sys_ok_step: "sys_ok m s \<Longrightarrow> step m s s' \<Longrightarrow> sys_ok m s'"
  by (erule step_cases) (auto intro: sys_ok_work sys_ok_delete)

interpretation run: preserved "step m" "sys_ok m" for m
  by unfold_locales (rule sys_ok_step)

section \<open>The order of statuses\<close>

instantiation status :: order
begin

definition less_eq_status :: "status \<Rightarrow> status \<Rightarrow> bool" where
  "less_eq_status s s' \<longleftrightarrow> s = s' \<or> s = Queued \<or> (s = Running \<and> s' \<noteq> Queued) \<or> (s = Stopping \<and> s' = Stopped)"

definition less_status :: "status \<Rightarrow> status \<Rightarrow> bool" where
  "less_status s s' \<longleftrightarrow> s \<le> s' \<and> s \<noteq> s'"

instance
  by standard (auto simp: less_eq_status_def less_status_def)

end

text \<open>A row and what became of it: same identity, a later status, a greater revision number with
  every change, and no change at all once it is terminal, the identifiers of its provider call aside,
  which \<^verbatim>\<open>_record_provider_ids\<close> writes whenever the provider names them.\<close>

definition unidentified :: "generation_row \<Rightarrow> generation_row" where
  "unidentified r = r\<lparr>gen_provider_request := None, gen_provider_generation := None\<rparr>"

definition follows :: "generation_row \<Rightarrow> generation_row \<Rightarrow> bool" where
  "follows r r' \<longleftrightarrow> gen_id r' = gen_id r \<and> gen_thread r' = gen_thread r \<and> gen_requester r' = gen_requester r
     \<and> gen_client_request r' = gen_client_request r
     \<and> (unidentified r' = unidentified r \<or> gen_status r < gen_status r' \<and> gen_revision r < gen_revision r')"

lemma unidentified_same:
  assumes "unidentified r' = unidentified r"
  shows "gen_id r' = gen_id r" "gen_thread r' = gen_thread r" "gen_requester r' = gen_requester r"
    "gen_client_request r' = gen_client_request r" "gen_status r' = gen_status r" "gen_revision r' = gen_revision r"
    "gen_result r' = gen_result r" "gen_error r' = gen_error r" "gen_finished r' = gen_finished r"
    "gen_partial r' = gen_partial r" "gen_purpose r' = gen_purpose r"
  using assms by (cases r; cases r'; simp add: unidentified_def)+

definition rows_follow :: "database \<Rightarrow> database \<Rightarrow> bool" where
  "rows_follow db db' \<longleftrightarrow> (\<forall>r\<in>set (generations db). \<exists>r'\<in>set (generations db'). follows r r')"

lemma follows_refl [simp]: "follows r r" by (simp add: follows_def)

lemma follows_trans: "follows r r' \<Longrightarrow> follows r' r'' \<Longrightarrow> follows r r''"
  unfolding follows_def using less_trans unidentified_same(5,6) by metis

lemma rows_follow_refl [simp]: "rows_follow db db"
  unfolding rows_follow_def using follows_refl by blast

lemma rows_follow_trans: "rows_follow a b \<Longrightarrow> rows_follow b c \<Longrightarrow> rows_follow a c"
  unfolding rows_follow_def using follows_trans by blast

lemma terminal_maximal: "is_terminal s \<Longrightarrow> \<not> s < s'"
  by (auto simp: less_status_def less_eq_status_def is_terminal_def)

lemma rows_follow_map: "generations db' = map f (generations db) \<Longrightarrow> (\<And>r. follows r (f r)) \<Longrightarrow> rows_follow db db'"
  by (auto simp: rows_follow_def)

lemma rows_follow_more: "generations db' = generations db @ gs \<Longrightarrow> rows_follow db db'"
  unfolding rows_follow_def using follows_refl by force

lemma rows_follow_same: "generations db' = generations db \<Longrightarrow> rows_follow db db'"
  by (rule rows_follow_more [where gs = "[]"]) simp

lemma follows_advance:
  assumes "keeps_identity upd" "\<forall>a\<in>set allowed. a < s"
  shows "follows r (advance now g allowed s upd r)"
  using assms by (simp add: follows_def advance_def keeps_identity_def)

lemma rows_follow_transition:
  assumes "keeps_identity upd" "\<forall>a\<in>set allowed. a < s"
  shows "rows_follow db (fst (transition now g allowed s upd db))"
  by (rule rows_follow_map [where f = "advance now g allowed s upd"]) (simp_all add: transition_eq follows_advance [OF assms])

lemma status_less [simp]:
  "Queued < Running" "Queued < Stopping" "Running < Stopping" "Running < Completed" "Queued < Failed"
  "Running < Failed" "Queued < Stopped" "Running < Stopped" "Stopping < Stopped"
  by (simp_all add: less_status_def less_eq_status_def)

lemma rows_follow_set_running: "rows_follow db (fst (set_running now g db))"
  using rows_follow_transition [of "\<lambda>r. r\<lparr>gen_started := Some now\<rparr>" "[Queued]" Running db now g]
  by (auto simp: set_running_def split: prod.split)

lemma rows_follow_finish_stopped: "rows_follow db (finish_stopped now g db)"
  unfolding finish_stopped_def by (rule rows_follow_transition) (simp_all add: active_statuses_def)

lemma rows_follow_fail: "rows_follow db (fst (fail now g code bs db))"
  using rows_follow_transition [of "cleared (Some (recorded_code code)) bs" "[Queued, Running]" Failed db now g]
    rows_follow_transition [of "cleared None []" "[Stopping]" Stopped
      "fst (transition now g [Queued, Running] Failed (cleared (Some (recorded_code code)) bs) db)" now g]
  by (auto simp: fail_def split: prod.split bool.split intro: rows_follow_trans)

lemma rows_follow_stop: "stop now live g db = Inr db' \<Longrightarrow> rows_follow db db'"
  using rows_follow_transition [of id "[Queued, Running]" Stopping db now g] rows_follow_finish_stopped
  by (auto simp: stop_def split: prod.splits if_splits option.splits intro: rows_follow_trans)

lemma rows_follow_finalize_rows: "rows_follow db (fst (finalize_rows now live rows db))"
proof (induction now live rows db rule: finalize_rows.induct)
  case (2 now live g s rows db)
  then show ?case
    using rows_follow_transition [of "cleared None []" "[Stopping]" Stopped db now g]
      rows_follow_transition [of "cleared (Some ''generation_interrupted'') []" "[Queued, Running]" Failed db now g]
    by (auto split: prod.splits intro: rows_follow_trans)
qed simp

lemma rows_follow_finalize: "rows_follow db (fst (finalize_orphans now live t db))"
  by (simp add: finalize_orphans_def rows_follow_finalize_rows)

lemma rows_follow_insert_generation: "insert_generation g db = Inr db' \<Longrightarrow> rows_follow db db'"
  by (rule rows_follow_more [where gs = "[g]"]) (auto simp: insert_generation_def split: if_splits)

lemma rows_follow_start:
  assumes "start_generation now u q prep s = Inr (s', i)"
  shows "rows_follow (sys_db s) (sys_db s')"
  using assms
proof (cases rule: start_generation_cases)
  case (started r db')
  then show ?thesis
    using rows_follow_trans [OF rows_follow_finalize rows_follow_insert_generation [OF started(4)]] by simp
qed simp

lemma rows_follow_submit:
  assumes "submit_turn tokens busy now lm ids t s = Inr (s', tid, i)"
  shows "rows_follow (sys_db s) (sys_db s')"
  using assms
proof (cases rule: submit_turn_cases)
  case turn
  then show ?thesis
  proof (cases rule: insert_turn_cases)
    case (inserted db1 content db3 files db4)
    have "rows_follow (sys_db s) db1"
      using inserted(2) rows_follow_finalize rows_follow_same
      by (auto simp: turn_thread_row_def split: option.splits if_splits prod.splits)
    moreover have "rows_follow db1 db3" using inserted(4) by (auto intro!: rows_follow_same split: option.splits)
    moreover have "rows_follow db4 (touch_thread now tid db4)" by (auto intro: rows_follow_same simp: touch_thread_def)
    moreover note rows_follow_insert_generation [OF inserted(5)]
    ultimately have "rows_follow (sys_db s) (touch_thread now tid db4)" by (blast intro: rows_follow_trans)
    then show ?thesis by (simp add: inserted(6))
  qed simp
qed simp

lemma rows_follow_reconcile:
  assumes "db_ok m db"
  shows "rows_follow db (fst (reconcile_orphans now db))"
proof -
  have "follows r (reconciled now r)" if "r \<in> set (generations db)" for r
  proof -
    have a: "gen_result r = None \<or> gen_status r = Completed"
      using assms that by (auto simp: db_ok_def generations_ok_def results_completed_def)
    have same: "is_terminal (gen_status r) \<Longrightarrow> reconciled now r = r"
      using a row_update_reconciled [of now] unfolding row_update_def by blast
    have "gen_status r < gen_status (reconciled now r) \<and> gen_revision r < gen_revision (reconciled now r)"
      if "\<not> is_terminal (gen_status r)"
      using a that by (cases "gen_status r") (simp_all add: reconciled_def Let_def cleared_def is_terminal_def)
    moreover have "gen_id (reconciled now r) = gen_id r" "gen_thread (reconciled now r) = gen_thread r"
      "gen_requester (reconciled now r) = gen_requester r"
      "gen_client_request (reconciled now r) = gen_client_request r"
      using row_update_reconciled [of now] unfolding row_update_def by blast+
    ultimately show ?thesis
      using same by (cases "is_terminal (gen_status r)") (simp_all add: follows_def)
  qed
  then show ?thesis unfolding rows_follow_def reconcile_eq by auto
qed

lemma rows_follow_claim: "rows_follow db (fst (claim_completed now g d c db))"
  unfolding claim_completed_def by (rule rows_follow_transition) simp_all

text \<open>The result is written in the transaction that claims the row, so the claimed row is seen with
  its result or not at all.\<close>

lemma rows_follow_commit:
  assumes ok: "db_ok m db" and c: "commit_success_once now mw ids ts g d c db = Inr (Some db')"
  shows "rows_follow db db'"
  using c
proof (cases rule: commit_cases)
  case (turn db1 r t th db3)
  have ok1: "db_ok m db1" using db_ok_claim [OF ok, of now g d c] turn(1) by simp
  have f: "rows_follow db db1" using rows_follow_claim [of db now g d c] turn(1) by simp
  let ?f = "\<lambda>r. if gen_id r = g then r\<lparr>gen_result := Some (new_message_id ids)\<rparr> else r"
  have gs: "generations db' = map ?f (generations db1)"
    using apply_state_frame(1) [OF turn(6)] by (simp add: turn(7) touch_thread_def set_result_def)
  have "\<exists>r'\<in>set (generations db'). follows x r'" if x: "x \<in> set (generations db)" for x
  proof -
    obtain x1 where x1: "x1 \<in> set (generations db1)" "follows x x1" using f x unfolding rows_follow_def by blast
    have "follows x (?f x1)"
    proof (cases "gen_id x1 = g")
      case True
      then have "gen_status x1 = Completed" using claimed_row [OF turn(1) ok x1(1)] by simp
      moreover have "gen_status x = Running"
        using True x x1(2) claimed_was_running [OF turn(1) ok x] by (simp add: follows_def)
      ultimately show ?thesis using x1(2) True unidentified_same(5) [of x1 x] by (auto simp: follows_def)
    qed (use x1 in simp)
    then show ?thesis using x1(1) unfolding gs set_map by blast
  qed
  then show ?thesis by (simp add: rows_follow_def)
next
  case (other r)
  then show ?thesis using rows_follow_claim [of db now g d c] by simp
qed

lemma rows_follow_bookkeeping:
  "rows_follow db (record_usage e now u c p scope request gen' db)"
  "rows_follow db (record_provider_ids e now u p request gen b db)"
  "reconcile_pending_costs now cost es bo db = (db', b', n) \<Longrightarrow> rows_follow db db'"
  "rows_follow db (set_title now t txt db)" "rows_follow db (store_summary t txt k db)"
proof -
  show "rows_follow db (record_usage e now u c p scope request gen' db)"
    using record_usage_frame [of e now u c p scope request gen' db] by (auto intro: rows_follow_same)
  have ids: "rows_follow db (record_ids g request gen (db\<lparr>usage_events := es\<rparr>))" for g es
    by (rule rows_follow_map [where f = "\<lambda>r. if gen_id r = g then
        r\<lparr>gen_provider_request := request, gen_provider_generation := Some gen\<rparr> else r"])
      (simp_all add: record_ids_def follows_def unidentified_def)
  show "rows_follow db (record_provider_ids e now u p request gen b db)"
    using record_provider_ids_frame [of e now u p request gen b db] ids
    by (auto intro: rows_follow_same split: if_splits)
  show "reconcile_pending_costs now cost es bo db = (db', b', n) \<Longrightarrow> rows_follow db db'"
    using reconcile_frame [of now cost es bo db db' b' n] by (auto intro: rows_follow_same)
  show "rows_follow db (set_title now t txt db)" "rows_follow db (store_summary t txt k db)"
    by (auto simp: set_title_def store_summary_def intro: rows_follow_same)
qed

lemma rows_follow_work:
  assumes "sys_ok m s" "work m s s'"
  shows "rows_follow (sys_db s) (sys_db s')"
  using assms(2)
proof (cases rule: work.cases)
  case (handoff now g t u q i)
  then show ?thesis using rows_follow_start unfolding submit_handoff_def by blast
next
  case (retry now g orig u q i)
  then show ?thesis using rows_follow_start unfolding retry_def by blast
next
  case (commit now ids ts g d c db')
  then show ?thesis using rows_follow_commit [OF sys_ok_db [OF assms(1)]] by simp
qed (use rows_follow_submit rows_follow_set_running rows_follow_fail rows_follow_finish_stopped rows_follow_stop
      rows_follow_reconcile [OF sys_ok_db [OF assms(1)]] rows_follow_bookkeeping in \<open>auto simp: sweep_orphan_attachments_def\<close>)

interpretation running: ordered "work m" "sys_ok m" "\<lambda>s s'. rows_follow (sys_db s) (sys_db s')" for m
proof
  show "sys_ok m s'" if "sys_ok m s" "work m s s'" for s s' using that by (rule sys_ok_work)
  show "rows_follow (sys_db s) (sys_db s)" for s :: system by simp
  show "rows_follow (sys_db s) (sys_db u)" if "rows_follow (sys_db s) (sys_db t)" "rows_follow (sys_db t) (sys_db u)" for s t u :: system
    using that by (rule rows_follow_trans)
  show "rows_follow (sys_db s) (sys_db s')" if "sys_ok m s" "work m s s'" for s s' using that by (rule rows_follow_work)
qed

section \<open>Transitions that miss\<close>

lemma transition_miss:
  assumes "\<forall>r\<in>set (generations db). gen_id r = g \<longrightarrow> gen_status r \<notin> set allowed"
  shows "transition now g allowed s upd db = (db, False)"
proof -
  have "map (advance now g allowed s upd) (generations db) = generations db"
    using assms by (intro map_idI) (auto simp: advance_def)
  moreover have "filter (\<lambda>r. gen_id r = g \<and> gen_status r \<in> set allowed) (generations db) = []"
    using assms by (auto simp: filter_empty_conv)
  ultimately show ?thesis by (simp add: transition_eq)
qed

lemma transition_keeps_row:
  assumes "the_generation db g = Some r" "keeps_identity upd"
  shows "the_generation (fst (transition now h al s upd db)) g = Some (advance now h al s upd r)"
proof -
  have id: "gen_id (advance now h al s upd x) = gen_id x" for x
    using assms(2) by (simp add: advance_def keeps_identity_def)
  have "find (\<lambda>r. gen_id r = g) (map (advance now h al s upd) xs) = map_option (advance now h al s upd) (find (\<lambda>r. gen_id r = g) xs)" for xs
    by (induction xs) (simp_all add: id)
  then show ?thesis using assms(1) by (simp add: the_generation_def transition_eq)
qed

lemma transition_hits:
  assumes "distinct (map gen_id (generations db))" "r \<in> set (generations db)" "gen_id r = g" "gen_status r \<in> set allowed"
  shows "\<exists>db'. transition now g allowed s upd db = (db', True)"
proof -
  have "filter (\<lambda>x. gen_id x = g \<and> gen_status x \<in> set allowed) gs = [r]"
    if "distinct (map gen_id gs)" "r \<in> set gs" for gs
    using that assms(3,4) by (induction gs) (auto simp: filter_empty_conv image_iff)
  then show ?thesis using assms by (simp add: transition_eq)
qed

lemma the_generation_unique:
  assumes "db_ok m db" "r \<in> set (generations db)" "gen_id r = g"
  shows "the_generation db g = Some r"
proof (cases "the_generation db g")
  case None
  then show ?thesis using assms by (auto simp: the_generation_def find_None_iff)
next
  case (Some r')
  then show ?thesis using unique_generation [OF assms(1,2)] the_generation_Some [OF Some] assms(3) by metis
qed

lemma db_ok_distinct: "db_ok m db \<Longrightarrow> distinct (map gen_id (generations db))"
  by (simp add: db_ok_def generations_ok_def)

lemma finish_stopped_terminal:
  assumes "r \<in> set (generations (finish_stopped now g db))" "gen_id r = g"
  shows "is_terminal (gen_status r)"
proof -
  obtain r0 where r0: "r0 \<in> set (generations db)" "r = advance now g active_statuses Stopped (cleared None []) r0"
    using assms(1) unfolding finish_stopped_def transition_eq by auto
  moreover have "gen_id r = gen_id r0" using r0(2) by (simp add: advance_def cleared_def)
  ultimately show ?thesis
    using assms(2) by (auto simp: advance_def is_terminal_def is_active_def [symmetric] active_terminal)
qed

lemma stop_outcome:
  assumes ok: "db_ok m db" and st: "stop now live g db = Inr db1" and r: "r \<in> set (generations db1)" "gen_id r = g"
  shows "gen_status r = Stopping \<and> live \<or> is_terminal (gen_status r)"
proof -
  note d = db_ok_distinct [OF ok]
  show ?thesis
  proof (cases "\<exists>x\<in>set (generations db). gen_id x = g \<and> gen_status x \<in> set [Queued, Running]")
    case True
    then obtain db2 where t: "transition now g [Queued, Running] Stopping id db = (db2, True)"
      using transition_hits [OF d] by blast
    then have "db1 = (if live then db2 else finish_stopped now g db2)" using st by (auto simp: stop_def)
    moreover have "gen_status x = Stopping" if "x \<in> set (generations db2)" "gen_id x = g" for x
      by (rule transition_hit [OF t d _ that]) simp
    ultimately show ?thesis using r finish_stopped_terminal by (cases live) auto
  next
    case False
    then have miss: "transition now g [Queued, Running] Stopping id db = (db, False)"
      by (intro transition_miss) blast
    then obtain r0 where r0: "the_generation db g = Some r0" using st by (auto simp: stop_def split: option.splits)
    then have db1: "db1 = (if gen_status r0 = Stopping \<and> \<not> live then finish_stopped now g db else db)"
      using st miss by (auto simp: stop_def split: if_splits)
    have "gen_status r0 = Stopping \<or> is_terminal (gen_status r0)"
      using False the_generation_Some [OF r0] by (cases "gen_status r0") (auto simp: is_terminal_def)
    moreover have "r = r0" if "db1 = db"
      using that r unique_generation [OF ok] the_generation_Some [OF r0] by metis
    ultimately show ?thesis using r db1 finish_stopped_terminal by (auto split: if_splits)
  qed
qed

lemma stop_terminal_noop:
  assumes "the_generation db g = Some r" "is_terminal (gen_status r)" "db_ok m db"
  shows "stop now live g db = Inr db"
proof -
  have "transition now g [Queued, Running] Stopping id db = (db, False)"
  proof (rule transition_miss, intro ballI impI)
    fix x assume "x \<in> set (generations db)" "gen_id x = g"
    then have "x = r" using unique_generation [OF assms(3)] the_generation_Some [OF assms(1)] by metis
    then show "gen_status x \<notin> set [Queued, Running]" using assms(2) by (auto simp: is_terminal_def)
  qed
  then show ?thesis using assms(1,2) by (auto simp: stop_def is_terminal_def)
qed

lemma commit_lost: "claim_completed now g d c db = (db1, False) \<Longrightarrow> commit_success_once now mw ids ts g d c db = Inr None"
  by (simp add: commit_success_once_def)

lemma committed_row:
  assumes "db_ok m db" "commit_success_once now mw ids ts g d c db = Inr (Some db')"
  shows "\<exists>r. the_generation db' g = Some r \<and> gen_status r = Completed"
  using assms(2)
proof (cases rule: commit_cases)
  case (turn db1 r t th db3)
  let ?f = "\<lambda>r. if gen_id r = g then r\<lparr>gen_result := Some (new_message_id ids)\<rparr> else r"
  have gs: "generations db' = map ?f (generations db1)"
    using apply_state_frame(1) [OF turn(6)] by (simp add: turn(7) touch_thread_def set_result_def)
  have f: "find (\<lambda>r. gen_id r = g) (map ?f xs) = map_option ?f (find (\<lambda>r. gen_id r = g) xs)" for xs
    by (induction xs) auto
  have "the_generation db' g = Some (?f r)"
    unfolding the_generation_def gs f turn(2) [unfolded the_generation_def] by simp
  moreover have "gen_status r = Completed"
    using claimed_row [OF turn(1) assms(1)] the_generation_Some [OF turn(2)] by blast
  ultimately show ?thesis by simp
next
  case (other r)
  then show ?thesis using claimed_row [OF other(1) assms(1)] the_generation_Some by blast
qed

section \<open>Orphans\<close>

lemma transition_other_row:
  "r \<in> set (generations db) \<Longrightarrow> gen_id r \<noteq> g \<Longrightarrow> r \<in> set (generations (fst (transition now g al s upd db)))"
  by (force simp: transition_eq advance_def)

definition finalize_row :: "time \<Rightarrow> row_id \<Rightarrow> status \<Rightarrow> database \<Rightarrow> database" where
  "finalize_row now g s db = fst (if s = Stopping then transition now g [Stopping] Stopped (cleared None []) db
     else transition now g [Queued, Running] Failed (cleared (Some ''generation_interrupted'') []) db)"

lemma finalize_rows_Cons:
  "fst (finalize_rows now live ((g, s) # rows) db) =
     fst (finalize_rows now live rows (if g \<in> set live then db else finalize_row now g s db))"
  by (simp add: finalize_row_def split: prod.split)

lemma finalize_rows_live:
  "r \<in> set (generations db) \<Longrightarrow> gen_id r \<in> set live \<Longrightarrow> r \<in> set (generations (fst (finalize_rows now live rows db)))"
proof (induction rows arbitrary: db)
  case (Cons x rows)
  obtain g s where x: "x = (g, s)" by fastforce
  have "r \<in> set (generations (if g \<in> set live then db else finalize_row now g s db))"
    using Cons.prems transition_other_row unfolding finalize_row_def by (cases "gen_id r = g") auto
  then show ?case unfolding x finalize_rows_Cons by (rule Cons.IH) (rule Cons.prems(2))
qed simp

lemma finalize_row_back:
  assumes "r \<in> set (generations (finalize_row now g s db))" "is_active (gen_status r)"
  obtains r0 where "r = r0" "r0 \<in> set (generations db)"
    "gen_id r0 = g \<Longrightarrow> if s = Stopping then gen_status r0 \<noteq> Stopping else gen_status r0 \<notin> {Queued, Running}"
proof (cases "s = Stopping")
  case True
  then obtain r0 where "r0 \<in> set (generations db)" "r = advance now g [Stopping] Stopped (cleared None []) r0"
    using assms(1) by (auto simp: finalize_row_def transition_eq)
  with assms(2) True show thesis by (intro that [of r0]) (auto simp: advance_def active_terminal is_terminal_def split: if_splits)
next
  case False
  then obtain r0 where "r0 \<in> set (generations db)"
    "r = advance now g [Queued, Running] Failed (cleared (Some ''generation_interrupted'') []) r0"
    using assms(1) by (auto simp: finalize_row_def transition_eq)
  with assms(2) False show thesis by (intro that [of r0]) (auto simp: advance_def active_terminal is_terminal_def split: if_splits)
qed

lemma finalize_rows_done:
  assumes "\<forall>r\<in>set (generations db). gen_thread r = Some t \<and> is_active (gen_status r) \<and> gen_id r \<notin> set live
      \<longrightarrow> (gen_id r, gen_status r) \<in> set rows"
    and "r \<in> set (generations (fst (finalize_rows now live rows db)))" "gen_thread r = Some t" "is_active (gen_status r)"
  shows "gen_id r \<in> set live"
  using assms
proof (induction rows arbitrary: db)
  case (Cons x rows)
  obtain g s where x: "x = (g, s)" by fastforce
  let ?db = "if g \<in> set live then db else finalize_row now g s db"
  show ?case
  proof (rule Cons.IH [of ?db])
    show "r \<in> set (generations (fst (finalize_rows now live rows ?db)))"
      using Cons.prems(2) unfolding x finalize_rows_Cons .
    show "\<forall>r\<in>set (generations ?db). gen_thread r = Some t \<and> is_active (gen_status r) \<and> gen_id r \<notin> set live
        \<longrightarrow> (gen_id r, gen_status r) \<in> set rows"
    proof (intro ballI impI)
      fix r assume r: "r \<in> set (generations ?db)" "gen_thread r = Some t \<and> is_active (gen_status r) \<and> gen_id r \<notin> set live"
      show "(gen_id r, gen_status r) \<in> set rows"
      proof (cases "g \<in> set live")
        case True
        then show ?thesis using r Cons.prems(1) unfolding x by auto
      next
        case False
        with r(1) have "r \<in> set (generations (finalize_row now g s db))" by simp
        then obtain r0 where "r = r0" "r0 \<in> set (generations db)"
          "gen_id r0 = g \<Longrightarrow> if s = Stopping then gen_status r0 \<noteq> Stopping else gen_status r0 \<notin> {Queued, Running}"
          using r(2) by (blast elim: finalize_row_back)
        moreover from this have "(gen_id r, gen_status r) \<in> set ((g, s) # rows)" using Cons.prems(1) r(2) unfolding x by blast
        moreover have "gen_status r \<in> {Queued, Running, Stopping}" using r(2) by (simp add: is_active_def active_statuses_def)
        ultimately show ?thesis by (auto split: if_splits)
      qed
    qed
  qed (use Cons.prems in simp_all)
qed auto

end
