(* ===== verification/Generation_Run_Laws.thy ===== *)
theory Generation_Run_Laws
  imports Generation_Run Provider_Guarantees Lifecycle_Runs
begin

text \<open>
  What holds along a task: an interface of relations that suspensions and the transactions of a task respect,
  interpreted on the steps of the system; what a write that is retried leaves; and that every way out of
  the task leaves its row terminal.
\<close>

section \<open>What a call does to the state behind its callbacks\<close>

lemma sink_invariant:
  assumes delta: "\<And>s d s' e. P s \<Longrightarrow> on_delta cb s d = (s', e) \<Longrightarrow> P s'"
    and ids: "\<And>f s r g s' e. on_ids cb = Some f \<Longrightarrow> P s \<Longrightarrow> f s r g = (s', e) \<Longrightarrow> P s'"
  shows "attempt_invariant cb (\<lambda>a. P (at_sink a))"
proof (unfold_locales, goal_cases)
  case (2 a d s err)
  then show ?case using delta [of "at_sink a" d s err] by simp
next
  case (3 a v a' err)
  show ?case
  proof (cases "on_ids cb")
    case None
    with 3 show ?thesis by (auto simp: announce_ids_def split: option.splits bool.splits)
  next
    case (Some f)
    with 3 ids [OF Some, of "at_sink a"] show ?thesis
      by (auto simp: announce_ids_def split: option.splits bool.splits prod.splits)
  qed
qed simp_all

lemma stream_chat_sink:
  assumes "P sink"
    and delta: "\<And>s d s' e. P s \<Longrightarrow> on_delta cb s d = (s', e) \<Longrightarrow> P s'"
    and ids: "\<And>f s r g s' e. on_ids cb = Some f \<Longrightarrow> P s \<Longrightarrow> f s r g = (s', e) \<Longrightarrow> P s'"
  shows "P (fst (stream_chat cb limit attempts answer ms max_tokens effort sink))"
proof -
  have "attempt_invariant cb (\<lambda>a. P (at_sink a))"
    by (rule sink_invariant) (fact delta, fact ids)
  note inv = attempt_invariant.inv_run_exchange [OF this]
  have once: "P (fst (stream_once cb limit x s))" if "P s" for x s
    using inv [where a = "new_attempt s" and limit = limit and x = x] that
    by (auto simp: stream_once_def new_attempt_def split: prod.splits flow.splits)
  have "P (fst (retry_loop cb limit w n j k s))" if "P s" for w n j k s
    using that
  proof (induction j arbitrary: k s)
    case (Suc j)
    obtain s1 r where o: "stream_once cb limit (w k) s = (s1, r)" by fastforce
    with once [OF Suc.prems, of "w k"] Suc.IH [of s1 "Suc k"] show ?case
      by (auto split: sum.splits failure.splits prod.splits)
  qed simp
  with assms(1) show ?thesis by (simp add: stream_chat_def split: sum.split)
qed

section \<open>A relation kept by every step of a task\<close>

text \<open>\<open>R\<close> relates the world before and after; it has to allow what the others do at a suspension, the
  draft, and each of the task's own transactions.\<close>

locale task_relation =
  fixes env :: surroundings and R :: "world \<Rightarrow> world \<Rightarrow> bool"
  assumes R_refl: "R w w"
    and R_trans: "R w w1 \<Longrightarrow> R w1 w2 \<Longrightarrow> R w w2"
    and R_pause: "R w (pause env w)"
    and R_hub: "R w (w\<lparr>wo_hub := h\<rparr>)"
    and R_running: "R w (store (fst (set_running now g (stored w))) w)"
    and R_stopped: "R w (store (finish_stopped now g (stored w)) w)"
    and R_fail: "R w (store (fst (fail now g c bs (stored w))) w)"
    and R_commit: "commit_transaction env g d cm ts now (stored w) = Inr (db, b) \<Longrightarrow> R w (store db w)"
    and R_ids: "R w (store (record_provider_ids e now u p r gen own (stored w)) w)"
    and R_usage: "R w (store (record_usage e now u co p sc r gen' (stored w)) w)"
    and R_title: "R w (store (set_title now t s (stored w)) w)"
    and R_end: "R w (w\<lparr>wo_sys := (wo_sys w)\<lparr>sys_live := filter (\<lambda>i. i \<noteq> g) (sys_live (wo_sys w))\<rparr>\<rparr>)"
begin

definition moves :: "'a action \<Rightarrow> bool" where
  "moves m \<longleftrightarrow> (\<forall>w. R w (fst (m w)))"

lemma moves_at: "moves m \<Longrightarrow> m w = (w', r) \<Longrightarrow> R w w'"
  unfolding moves_def by (metis fst_conv)

lemma moves_from: "R w w1 \<Longrightarrow> moves m \<Longrightarrow> R w (fst (m w1))"
  unfolding moves_def by (rule R_trans) auto

lemma moves_give: "moves (give x)" "moves (raises e)" "moves (on_hub f)"
  by (simp_all add: moves_def give_def raises_def on_hub_def R_refl R_hub)

lemma moves_and_then:
  assumes "moves m" "\<And>x. moves (f x)"
  shows "moves (and_then m f)"
  unfolding moves_def and_then_def
  using R_trans moves_at [OF assms(1)] moves_at [OF assms(2)] 
  by (auto split: prod.splits sum.splits) (metis prod.collapse)

lemma moves_catching: "moves m \<Longrightarrow> moves (catching f m)"
  unfolding moves_def catching_def by (auto split: prod.splits sum.splits) (metis fst_conv)+

lemma moves_write:
  assumes "\<And>now w db x. f now (stored w) = Inr (db, x) \<Longrightarrow> R w (store db w)"
  shows "moves (write_once env f)"
proof -
  have "R w (store db (pause env w))" if "f now (stored (pause env w)) = Inr (db, x)" for w now db x
    using R_trans [OF R_pause assms [OF that]] .
  then show ?thesis
    using R_pause by (auto simp: moves_def write_once_def Let_def split: write_outcome.splits sum.splits)
qed

lemma moves_attempts:
  assumes "moves (write_once env f)"
  shows "moves (write_attempts env f ds)"
proof (induction ds)
  case Nil
  then show ?case using assms by (simp add: moves_def)
next
  case (Cons d ds)
  have "R w (fst (write_attempts env f (d # ds) w))" for w
  proof -
    obtain w1 r where w1: "write_once env f w = (w1, r)" by fastforce
    with moves_at [OF assms w1] Cons show ?thesis
      by (auto simp: moves_def split: sum.splits intro: R_trans)
  qed
  then show ?case by (simp add: moves_def)
qed

lemma moves_retries: "moves (write_once env f) \<Longrightarrow> moves (with_write_retries env f)"
  unfolding with_write_retries_def by (rule moves_attempts)

lemma moves_set_running: "moves (set_running_action env g)"
proof -
  have "R w (store db w)" if "Inr (set_running now g (stored w)) = Inr (db, x)" for now w db x
    using R_running [of w now g] that by (metis Inr_inject fst_conv)
  then show ?thesis
    unfolding set_running_action_def
    by (intro moves_and_then moves_write) (auto intro: moves_give moves_and_then split: option.split)
qed

lemma moves_finish: "moves (finish_stopped_action env g)"
  unfolding finish_stopped_action_def
  by (intro moves_and_then moves_retries moves_write moves_give) (auto intro: R_stopped)

lemma moves_fail: "moves (fail_action env g c bs)"
proof -
  have "R w (store db w)" if "Inr (fail now g c bs (stored w)) = Inr (db, x)" for now w db x
    using R_fail [of w now g c bs] that by (metis Inr_inject fst_conv)
  then show ?thesis
    unfolding fail_action_def by (intro moves_and_then moves_retries moves_write moves_give)
qed

lemma moves_settle_usage: "moves (settle_usage env u c p sc seen)"
proof -
  have "moves (write_once env (\<lambda>now db. Inr (record_usage (su_event env db) now u c p sc r g db, ())))" for r g
    by (rule moves_write) (auto intro: R_usage)
  then show ?thesis unfolding settle_usage_def Let_def by (simp add: moves_give)
qed

lemma generate_moves:
  assumes "\<And>b x. moves (chunk b x)"
  shows "R w (cs_world (fst (generate env chunk u p lp own snap x w)))"
proof -
  have delta: "R w (cs_world s')" if "R w (cs_world s)" "hand_on env own chunk s d = (s', e)" for s d s' e
  proof -
    let ?w1 = "pause env (cs_world s)"
    have w1: "R w ?w1" by (rule R_trans [OF that(1) R_pause])
    moreover have "R w w2" if "chunk b y ?w1 = (w2, r)" for b y w2 r
      using R_trans [OF w1 moves_at [OF assms that]] .
    ultimately show ?thesis
      using that(2) by (auto simp: hand_on_def Let_def split: if_splits prod.splits sum.splits)
  qed
  have ids: "R w (cs_world s')" if "R w (cs_world s)" "note_ids env u lp own s r g = (s', e)" for s r g s' e
  proof -
    let ?f = "\<lambda>now db. Inr (record_provider_ids (su_event env db) now u lp (map_option utf8_text r) (utf8_text g) own db, ())"
    have m: "moves (write_once env ?f)" by (rule moves_write) (auto intro: R_ids)
    obtain w2 q where q: "write_once env ?f (cs_world s) = (w2, q)" by fastforce
    with that R_trans [OF that(1) moves_at [OF m q]] show ?thesis
      by (auto simp: note_ids_def split: sum.splits run_error.splits)
  qed
  show ?thesis
  proof (cases "snapshot_messages ''invalid_request_snapshot'' snap")
    case (Inr ms)
    obtain tokens effort where te: "(case map_of maintenance_limits p of
        Some l \<Rightarrow> l | None \<Rightarrow> (su_chat_tokens env, lit ''high'')) = (tokens, effort)"
      by fastforce
    let ?cb = "\<lparr>on_delta = hand_on env own chunk, on_ids = Some (note_ids env u lp own)\<rparr>"
    let ?k = "\<lparr>cs_world = w, cs_data = x, cs_raised = None, cs_seen = None\<rparr>"
    obtain k1 dl r where run: "stream_chat ?cb (su_depth env) (su_attempts env) (su_net env (wo_count w)) ms tokens effort ?k
        = (k1, dl, r)" by (metis prod_cases3)
    have "R w (cs_world (fst (stream_chat ?cb (su_depth env) (su_attempts env) (su_net env (wo_count w)) ms tokens effort ?k)))"
    proof (rule stream_chat_sink [where P = "\<lambda>k. R w (cs_world k)"])
      show "R w (cs_world ?k)" by (simp add: R_refl)
      show "R w (cs_world s')" if "R w (cs_world s)" "on_delta ?cb s d = (s', e)" for s d s' e
        using delta [OF that(1)] that(2) by simp
      show "R w (cs_world s')" if "on_ids ?cb = Some f" "R w (cs_world s)" "f s r g = (s', e)" for f s r g s' e
        using ids [OF that(2)] that(1,3) by simp
    qed
    then have k1: "R w (cs_world k1)" by (simp only: run fst_conv)
    have "fst (generate env chunk u p lp own snap x w) = k1"
      unfolding generate_def Let_def Inr sum.case te prod.case run
      by (cases r) (simp_all split: failure.split)
    with k1 show ?thesis by simp
  qed (simp add: generate_def Let_def R_refl)
qed

lemma moves_call:
  assumes "\<And>b x. moves (chunk b x)"
  shows "moves (call_provider env chunk u p lp sc own snap x)"
  unfolding moves_def
proof
  fix w
  let ?w1 = "pause env w"
  obtain k r where g: "generate env chunk u p lp own snap x ?w1 = (k, r)" by fastforce
  have "R ?w1 (cs_world (fst (generate env chunk u p lp own snap x ?w1)))"
    by (rule generate_moves) (rule assms)
  then have k: "R w (cs_world k)" unfolding g by (simp only: fst_conv) (rule R_trans [OF R_pause])
  have m: "R w (fst (and_then (settle_usage env u c lp sc (cs_seen k)) f (cs_world k)))" if "\<And>x. moves (f x)"
    for c and f :: "unit \<Rightarrow> ('a \<times> completion) action"
    by (rule moves_from [OF k]) (rule moves_and_then [OF moves_settle_usage that])
  show "R w (fst (call_provider env chunk u p lp sc own snap x w))"
  proof (cases "su_cancelled env (wo_count ?w1)")
    case True
    then show ?thesis by (simp add: call_provider_def Let_def R_pause)
  next
    case False
    show ?thesis
    proof (cases r)
      case (Inr c)
      with False g m [OF moves_give(1)] show ?thesis by (simp add: call_provider_def Let_def)
    next
      case (Inl ec)
      obtain e c where "ec = (e, c)" by fastforce
      with Inl False g have r': "generate env chunk u p lp own snap x ?w1 = (k, Inl (e, c))" by simp
      show ?thesis
      proof (cases "\<exists>c'. e = ProviderFailed c'")
        case True
        then obtain c' where e: "e = ProviderFailed c'" by blast
        have "call_provider env chunk u p lp sc own snap x w
            = and_then (settle_usage env u c lp sc (cs_seen k)) (\<lambda>_. raises (ProviderFailed c')) (cs_world k)"
          unfolding call_provider_def Let_def r' e using False by simp
        then show ?thesis by (simp only:) (rule m, rule moves_give(2))
      next
        case other: False
        then have "call_provider env chunk u p lp sc own snap x w = (cs_world k, Inl e)"
          unfolding call_provider_def Let_def r' using False by (cases e) simp_all
        with k show ?thesis by simp
      qed
    qed
  qed
qed

end

context task_relation
begin

lemma moves_prepare: "moves (prepare_docx_templates env g d)"
proof -
  have "R w (pause env (pause env w))" for w using R_pause R_trans by blast
  then show ?thesis
    using R_pause
    by (auto simp: moves_def prepare_docx_templates_def Let_def split: option.splits sum.splits)
qed

lemma moves_commit: "moves (commit_success env g d c)"
proof -
  have "moves (write_once env (commit_transaction env g d c ts))" for ts
    by (rule moves_write) (rule R_commit)
  note w = moves_catching [OF moves_retries [OF this]]
  show ?thesis
    unfolding commit_success_def Let_def
    by (intro moves_and_then w)
       (simp_all add: moves_catching [OF moves_prepare] moves_give moves_finish)
qed

lemma moves_compose: "moves (compose_request env gen)"
  using R_pause by (simp add: moves_def compose_request_def Let_def)

lemma moves_live_chunk: "moves (live_chunk env b dec)"
  using R_hub R_refl by (auto simp: moves_def live_chunk_def split: sum.splits)

lemma answer_once_moves: "R w (fst (answer_once env gen k snap w))"
proof (cases "new_decoder (su_limits env)")
  case None
  then show ?thesis by (simp add: answer_once_def Let_def R_refl)
next
  case (Some dec)
  let ?p = "purpose_text (gen_purpose gen)"
  let ?sc = "if k = 0 then gen_id gen else gen_id gen @ '':protocol-retry:'' @ show_nat k"
  obtain w1 r where c: "call_provider env (live_chunk env) (usage_of gen) ?p ?p ?sc True snap dec w = (w1, r)"
    by fastforce
  have w1: "R w w1" by (rule moves_at [OF moves_call c]) (rule moves_live_chunk)
  show ?thesis
  proof (cases r)
    case (Inl e)
    with Some c w1 show ?thesis by (simp add: answer_once_def Let_def)
  next
    case (Inr dc)
    obtain dec' cm where dc: "dc = (dec', cm)" by fastforce
    have "R w (fst (commit_success env (gen_id gen) d cm w1))" for d
      by (rule moves_from [OF w1 moves_commit])
    with Some c w1 Inr dc show ?thesis
      by (auto simp: answer_once_def Let_def split: sum.splits prod.splits) (metis fst_conv)+
  qed
qed

lemma moves_answers: "moves (answer_attempts env gen n k snap)"
  unfolding moves_def
proof
  fix w show "R w (fst (answer_attempts env gen n k snap w))"
  proof (induction n arbitrary: k snap w)
    case (Suc n)
    obtain w1 r where a: "answer_once env gen k snap w = (w1, r)" by fastforce
    have w1: "R w w1" using answer_once_moves [of w gen k snap] a by simp
    have rest: "R w (fst (answer_attempts env gen n (k + 1) snap' (w1\<lparr>wo_hub := h\<rparr>)))" for snap' h
      by (rule R_trans [OF R_trans [OF w1 R_hub] Suc.IH])
    show ?case
      using a w1 rest R_trans [OF w1 R_hub]
      by (auto simp: Let_def split: sum.splits prod.splits run_error.splits bool.splits)
  qed (simp add: R_refl)
qed

lemma moves_respond: "moves (respond env gen)"
  unfolding respond_def by (intro moves_and_then moves_compose moves_answers)

lemma moves_collect: "moves (collect_action b x)"
  by (simp add: moves_def collect_action_def R_refl)

lemma moves_title: "moves (generate_title env u t)"
  unfolding moves_def
proof
  fix w
  have w: "moves (write_once env (\<lambda>now db. Inr (set_title now t s db, ())))" for s
    by (rule moves_write) (auto intro: R_title)
  have c: "moves (call_provider env collect_action u ''title'' ''title'' sc False snap ([], 0))" for sc snap
    by (rule moves_call) (rule moves_collect)
  have f: "moves (case utf8_decode b of
      Some (s, []) \<Rightarrow> if title_ok (strip s) then write_once env (\<lambda>now db. Inr (set_title now t (strip s) db, ())) else give ()
    | _ \<Rightarrow> raises e)" for b e
    using w by (auto simp: moves_give split: option.splits prod.splits list.splits)
  have m: "moves (and_then (call_provider env collect_action u ''title'' ''title'' sc False snap ([], 0))
      (\<lambda>(b, _). case utf8_decode (concat (fst b)) of
         Some (s, []) \<Rightarrow> if title_ok (strip s) then write_once env (\<lambda>now db. Inr (set_title now t (strip s) db, ())) else give ()
       | _ \<Rightarrow> raises e))" for sc snap e
    by (rule moves_and_then [OF c]) (simp add: case_prod_beta f)
  show "R w (fst (generate_title env u t w))"
    using R_pause [of w] moves_from [OF R_pause [of w] m]
    by (auto simp: generate_title_def Let_def split: sum.splits option.splits)
qed

lemma moves_maybe_title: "moves (maybe_generate_title env u t)"
  unfolding moves_def
proof
  fix w
  obtain w1 r where "generate_title env u t w = (w1, r)" by fastforce
  with moves_at [OF moves_title this] show "R w (fst (maybe_generate_title env u t w))"
    by (auto simp: maybe_generate_title_def split: sum.splits run_error.splits)
qed

lemma moves_body: "moves (run_body env g)"
  unfolding run_body_def
proof (intro moves_and_then moves_set_running)
  fix r
  show "moves (case r of None \<Rightarrow> finish_stopped_action env g
    | Some gen \<Rightarrow> and_then (respond env gen) (\<lambda>_. case (gen_purpose gen, gen_thread gen) of
        (Chat, Some t) \<Rightarrow> maybe_generate_title env (usage_of gen) t | _ \<Rightarrow> give ()))"
  proof (cases r)
    case (Some gen)
    have "moves (case (gen_purpose gen, gen_thread gen) of
        (Chat, Some t) \<Rightarrow> maybe_generate_title env (usage_of gen) t | _ \<Rightarrow> give ())"
      by (auto simp: moves_maybe_title moves_give split: purpose.splits option.splits)
    with Some show ?thesis by (simp add: moves_and_then moves_respond)
  qed (simp add: moves_finish)
qed

lemma moves_handler: "moves (handle_failure env g e)"
  unfolding moves_def handle_failure_def
  using moves_fail moves_finish by (auto simp: moves_def split: run_error.splits)

lemma moves_run: "moves (run_generation env g)"
  unfolding moves_def
proof
  fix w
  obtain w1 r where b: "run_body env g w = (w1, r)" by fastforce
  note w1 = moves_at [OF moves_body b]
  show "R w (fst (run_generation env g w))"
    using b w1 moves_from [OF w1 moves_handler] by (auto simp: run_generation_def split: sum.splits)
qed

lemma moves_task: "R w (fst (run_task env g w))"
proof -
  obtain w1 r where b: "run_generation env g w = (w1, r)" by fastforce
  let ?w2 = "w1\<lparr>wo_sys := (wo_sys w1)\<lparr>sys_live := filter (\<lambda>i. i \<noteq> g) (sys_live (wo_sys w1))\<rparr>\<rparr>"
  have "R w (?w2\<lparr>wo_hub := task_finished (wo_hub w1)\<rparr>)"
    by (rule R_trans [OF R_trans [OF moves_at [OF moves_run b] R_end] R_hub])
  with b show ?thesis by (simp add: run_task_def)
qed

end

section \<open>A task takes steps of the system\<close>

definition gen_ids :: "system \<Rightarrow> row_id set" where
  "gen_ids s = gen_id ` set (generations (sys_db s))"

text \<open>What a run relies on: the others take steps of the system, none of which draws the identifier \<open>g\<close>
  of the run's generation again, and drawn identifiers are fresh.\<close>

definition other_step :: "nat \<Rightarrow> row_id \<Rightarrow> system \<Rightarrow> system \<Rightarrow> bool" where
  "other_step m g s s' \<longleftrightarrow> step m s s' \<and> (g \<in> gen_ids s' \<longrightarrow> g \<in> gen_ids s)"

definition relies_on :: "surroundings \<Rightarrow> row_id \<Rightarrow> bool" where
  "relies_on env g \<longleftrightarrow>
     (\<forall>n s h. (other_step (su_max_words env) g)\<^sup>*\<^sup>* s (fst (su_others env n (s, h))))
     \<and> (\<forall>db. commit_fresh (su_drawn env db) db)"

definition task_steps :: "nat \<Rightarrow> row_id \<Rightarrow> world \<Rightarrow> world \<Rightarrow> bool" where
  "task_steps m g w w' \<longleftrightarrow> (other_step m g)\<^sup>*\<^sup>* (wo_sys w) (wo_sys w')"

lemma stored_store [simp]: "stored (store db w) = db" "wo_sys (store db w) = (wo_sys w)\<lparr>sys_db := db\<rparr>"
  by (simp_all add: stored_def store_def)

lemma ids_map: "(\<And>r. gen_id (f r) = gen_id r) \<Longrightarrow> gen_id ` set (map f gs) = gen_id ` set gs"
  by (simp add: image_image)

lemma gen_ids_transition: "gen_id ` set (generations (fst (transition now h al s upd db))) = gen_id ` set (generations db)"
  if "keeps_identity upd"
proof -
  have "gen_id (advance now h al s upd r) = gen_id r" for r
    using that by (simp add: advance_def keeps_identity_def)
  then show ?thesis by (force simp: transition_eq image_image)
qed

lemma same_ids:
  "gen_id ` set (generations (fst (set_running now h db))) = gen_id ` set (generations db)"
  "gen_id ` set (generations (finish_stopped now h db)) = gen_id ` set (generations db)"
  "gen_id ` set (generations (fst (fail now h c bs db))) = gen_id ` set (generations db)"
  "gen_id ` set (generations (record_provider_ids e now u p r gen own db)) = gen_id ` set (generations db)"
  "gen_id ` set (generations (record_usage e now u co p sc r gen' db)) = gen_id ` set (generations db)"
  "gen_id ` set (generations (set_title now t s db)) = gen_id ` set (generations db)"
proof -
  have k: "keeps_identity (\<lambda>r. r\<lparr>gen_started := Some now\<rparr>)" "keeps_identity (cleared c' bs')" for c' bs'
    by (simp_all add: keeps_identity_def cleared_def)
  show "gen_id ` set (generations (fst (set_running now h db))) = gen_id ` set (generations db)"
    using gen_ids_transition [OF k(1), of now h "[Queued]" Running db]
    by (auto simp: set_running_def split: prod.split)
  show "gen_id ` set (generations (finish_stopped now h db)) = gen_id ` set (generations db)"
    unfolding finish_stopped_def by (rule gen_ids_transition [OF k(2)])
  show "gen_id ` set (generations (fst (fail now h c bs db))) = gen_id ` set (generations db)"
  proof -
    obtain db1 b1 where t1: "transition now h [Queued, Running] Failed (cleared (Some (recorded_code c)) bs) db = (db1, b1)"
      by fastforce
    obtain db2 b2 where t2: "transition now h [Stopping] Stopped (cleared None []) db1 = (db2, b2)" by fastforce
    have "gen_id ` set (generations db1) = gen_id ` set (generations db)"
      "gen_id ` set (generations db2) = gen_id ` set (generations db1)"
      using gen_ids_transition [OF k(2), of now h "[Queued, Running]" Failed "Some (recorded_code c)" bs db]
        gen_ids_transition [OF k(2), of now h "[Stopping]" Stopped None "[]" db1] by (simp_all add: t1 t2)
    then show ?thesis by (cases b1; cases b2) (simp_all add: fail_def t1 t2)
  qed
  show "gen_id ` set (generations (record_provider_ids e now u p r gen own db)) = gen_id ` set (generations db)"
  proof -
    obtain es where "record_provider_ids e now u p r gen own db =
        (if own then record_ids (uc_generation u) r gen (db\<lparr>usage_events := es\<rparr>) else db\<lparr>usage_events := es\<rparr>)"
      using record_provider_ids_frame by blast
    then show ?thesis by (cases own) (simp_all add: record_ids_def ids_map del: set_map)
  qed
  show "gen_id ` set (generations (record_usage e now u co p sc r gen' db)) = gen_id ` set (generations db)"
    using record_usage_frame [of e now u co p sc r gen' db] by auto
  show "gen_id ` set (generations (set_title now t s db)) = gen_id ` set (generations db)"
    by (simp add: set_title_def)
qed

lemma work_task_steps:
  assumes "work m (wo_sys w) (wo_sys w')" "gen_ids (wo_sys w') = gen_ids (wo_sys w)"
  shows "task_steps m g w w'"
  using assms step.work unfolding task_steps_def other_step_def by blast

lemma commit_ids:
  assumes "commit_success_once now m ids ts g d c db = Inr (Some db')"
  shows "gen_id ` set (generations db') = gen_id ` set (generations db)"
proof -
  have k: "keeps_identity (\<lambda>r. r\<lparr>gen_partial := doc_blocks d,
      gen_provider_request := (case comp_request c of None \<Rightarrow> gen_provider_request r | x \<Rightarrow> x),
      gen_provider_generation := (case comp_generation c of None \<Rightarrow> gen_provider_generation r | x \<Rightarrow> x)\<rparr>)"
    by (simp add: keeps_identity_def)
  have claim: "gen_id ` set (generations db1) = gen_id ` set (generations db)"
    if "claim_completed now g d c db = (db1, True)" for db1
    using gen_ids_transition [OF k, of now g "[Running]" Completed db] that by (simp add: claim_completed_def)
  show ?thesis
    using assms
  proof (cases rule: commit_cases)
    case (turn db1 r t th db3)
    have "generations db3 = generations db1" using apply_state_frame(1) [OF turn(6)] by simp
    then have "gen_id ` set (generations db') = gen_id ` set (generations db1)"
      by (simp add: turn(7) touch_thread_def set_result_def ids_map del: set_map)
    then show ?thesis using claim [OF turn(1)] by simp
  next
    case (other r)
    then show ?thesis using claim by auto
  qed
qed

lemma commit_task_steps:
  assumes "relies_on env g" "commit_transaction env h d c ts now (stored w) = Inr (db, b)"
  shows "task_steps (su_max_words env) g w (store db w)"
proof (cases "commit_success_once now (su_max_words env) (su_drawn env (stored w)) ts h d c (stored w)")
  case (Inl e)
  with assms(2) show ?thesis by (cases e) (simp_all add: commit_transaction_def)
next
  case (Inr r)
  show ?thesis
  proof (cases r)
    case None
    with Inr assms(2) have "db = stored w" by (simp add: commit_transaction_def)
    then show ?thesis by (simp add: task_steps_def stored_def)
  next
    case (Some db')
    with Inr assms(2) have "db' = db" by (simp add: commit_transaction_def)
    with Inr Some have c: "commit_success_once now (su_max_words env) (su_drawn env (stored w)) ts h d c (stored w) = Inr (Some db)"
      by simp
    have "commit_fresh (su_drawn env (stored w)) (stored w)" using assms(1) by (simp add: relies_on_def)
    then have "work (su_max_words env) (wo_sys w) (wo_sys (store db w))"
      using work.commit [of now "su_max_words env" "su_drawn env (stored w)" ts h d c "wo_sys w" db] c
      by (simp add: stored_def)
    then show ?thesis
      by (rule work_task_steps) (use commit_ids [OF c] in \<open>simp add: gen_ids_def stored_def\<close>)
  qed
qed

interpretation stepping: task_relation env "\<lambda>w w'. relies_on env g \<longrightarrow> task_steps (su_max_words env) g w w'" for env g
proof (unfold_locales, goal_cases)
  case (3 w)
  obtain s h where "su_others env (wo_count w) (wo_sys w, wo_hub w) = (s, h)" by fastforce
  then show ?case unfolding relies_on_def by (auto simp: task_steps_def pause_def) (metis fst_conv)
next
  case (5 w now g')
  show ?case
    by (rule impI, rule work_task_steps)
       (use work.start in \<open>simp_all add: stored_def gen_ids_def same_ids\<close>)
next
  case (6 w now g')
  show ?case
    by (rule impI, rule work_task_steps) (use work.stopped in \<open>simp_all add: stored_def gen_ids_def same_ids\<close>)
next
  case (7 w now g' c bs)
  show ?case
    by (rule impI, rule work_task_steps) (use work.fail in \<open>simp_all add: stored_def gen_ids_def same_ids\<close>)
next
  case (8 g' d c ts now w db b)
  then show ?case using commit_task_steps by blast
next
  case (9 w e now u p r gen own)
  show ?case
    by (rule impI, rule work_task_steps) (use work.ids in \<open>simp_all add: stored_def gen_ids_def same_ids\<close>)
next
  case (10 w e now u co p sc r gen')
  show ?case
    by (rule impI, rule work_task_steps) (use work.usage in \<open>simp_all add: stored_def gen_ids_def same_ids\<close>)
next
  case (11 w now t s)
  show ?case
    by (rule impI, rule work_task_steps) (use work.title in \<open>simp_all add: stored_def gen_ids_def same_ids\<close>)
next
  case (12 w g')
  show ?case
    by (rule impI, rule work_task_steps) (use work.task_end in \<open>simp_all add: gen_ids_def\<close>)
qed (auto simp: task_steps_def)

section \<open>Rows that stay terminal\<close>

definition settled :: "row_id \<Rightarrow> database \<Rightarrow> bool" where
  "settled g db \<longleftrightarrow> (\<forall>r\<in>set (generations db). gen_id r = g \<longrightarrow> is_terminal (gen_status r))"

lemma settled_follow:
  assumes "settled g db" "rows_follow db db'" "distinct (map gen_id (generations db'))"
    and "g \<in> gen_id ` set (generations db') \<Longrightarrow> g \<in> gen_id ` set (generations db)"
  shows "settled g db'"
  unfolding settled_def
proof (intro ballI impI)
  fix r' assume r': "r' \<in> set (generations db')" "gen_id r' = g"
  with assms(4) obtain r where r: "r \<in> set (generations db)" "gen_id r = g" by auto
  with assms(2) obtain x where x: "x \<in> set (generations db')" "follows r x" unfolding rows_follow_def by blast
  then have "x = r'" using r' r(2) assms(3) by (auto simp: follows_def distinct_map inj_on_def)
  moreover have "is_terminal (gen_status r)" using assms(1) r unfolding settled_def by blast
  ultimately show "is_terminal (gen_status r')"
    using x(2) terminal_maximal unidentified_same(5) unfolding follows_def by metis
qed

lemma rows_follow_stop_all: "stop_all now live gs db = Inr db' \<Longrightarrow> rows_follow db db'"
proof (induction gs arbitrary: db)
  case (Cons g gs)
  then obtain db1 where "stop now (g \<in> set live) g db = Inr db1" "stop_all now live gs db1 = Inr db'"
    by (auto simp: res_simps)
  with Cons.IH rows_follow_stop rows_follow_trans show ?case by blast
qed simp

lemma stop_ids: "stop now live h db = Inr db' \<Longrightarrow> gen_id ` set (generations db') = gen_id ` set (generations db)"
proof -
  assume st: "stop now live h db = Inr db'"
  obtain db1 b where t: "transition now h [Queued, Running] Stopping id db = (db1, b)" by fastforce
  have "gen_id ` set (generations db1) = gen_id ` set (generations db)"
    using gen_ids_transition [of id now h "[Queued, Running]" Stopping db] t by (simp add: keeps_identity_def)
  moreover have "db' = db1 \<or> db' = finish_stopped now h db1"
    using st t by (auto simp: stop_def split: if_splits option.splits)
  moreover have "gen_id ` set (generations (finish_stopped now h db1)) = gen_id ` set (generations db1)"
    by (rule same_ids(2))
  ultimately show ?thesis by metis
qed

lemma stop_all_ids: "stop_all now live gs db = Inr db' \<Longrightarrow> gen_id ` set (generations db') = gen_id ` set (generations db)"
proof (induction gs arbitrary: db)
  case (Cons g gs)
  then obtain db1 where "stop now (g \<in> set live) g db = Inr db1" "stop_all now live gs db1 = Inr db'"
    by (auto simp: res_simps)
  with Cons.IH [of db1] stop_ids show ?case by metis
qed simp

lemma sys_ok_distinct: "sys_ok m s \<Longrightarrow> distinct (map gen_id (generations (sys_db s)))"
  by (simp add: sys_ok_def db_ok_def generations_ok_def)

lemma settled_step:
  assumes "other_step m g s s'" "sys_ok m s" "settled g (sys_db s)"
  shows "settled g (sys_db s')"
proof -
  have st: "step m s s'" and ids: "g \<in> gen_ids s' \<Longrightarrow> g \<in> gen_ids s"
    using assms(1) by (auto simp: other_step_def)
  note ok = sys_ok_distinct [OF sys_ok_step [OF assms(2) st]]
  show ?thesis
    using st
  proof (cases rule: step.cases)
    case work
    show ?thesis
    proof (rule settled_follow [OF assms(3) _ ok])
      show "rows_follow (sys_db s) (sys_db s')" by (rule rows_follow_work [OF assms(2) work])
      show "g \<in> gen_id ` set (generations (sys_db s))" if "g \<in> gen_id ` set (generations (sys_db s'))"
        using that ids unfolding gen_ids_def by blast
    qed
  next
    case (delete now u t)
    then obtain th db where db: "cancel_thread now (sys_live s) t (sys_db s) = Inr db" "sys_db s' = delete_rows t db"
      by (auto simp: delete_thread_def res_simps split: option.splits if_splits)
    then obtain gs where all: "stop_all now (sys_live s) gs (sys_db s) = Inr db"
      unfolding cancel_thread_def by blast
    have "settled g db"
    proof (rule settled_follow [OF assms(3) rows_follow_stop_all [OF all]])
      show "distinct (map gen_id (generations db))"
        using db_ok_stop_all [OF all sys_ok_db [OF assms(2)]] by (simp add: db_ok_def generations_ok_def)
      show "g \<in> gen_id ` set (generations (sys_db s))" if "g \<in> gen_id ` set (generations db)"
        using that stop_all_ids [OF all] by simp
    qed
    then show ?thesis by (simp add: settled_def db(2) delete_rows_def Let_def)
  qed
qed

lemma sys_ok_others: "(other_step m g)\<^sup>*\<^sup>* s s' \<Longrightarrow> sys_ok m s \<Longrightarrow> sys_ok m s'"
  by (induction rule: rtranclp_induct) (auto simp: other_step_def intro: sys_ok_step)

lemma settled_others:
  assumes "(other_step m g)\<^sup>*\<^sup>* s s'" "sys_ok m s" "settled g (sys_db s)"
  shows "settled g (sys_db s')"
  using assms
proof (induction rule: rtranclp_induct)
  case (step y z)
  with sys_ok_others settled_step show ?case by blast
qed

lemma settled_finish: "settled g (finish_stopped now g db)"
  using finish_stopped_terminal by (simp add: settled_def)

lemma settled_fail:
  assumes "distinct (map gen_id (generations db))"
  shows "settled g (fst (fail now g c bs db))"
proof -
  obtain db1 b1 where t1: "transition now g [Queued, Running] Failed (cleared (Some (recorded_code c)) bs) db = (db1, b1)"
    by fastforce
  obtain db2 b2 where t2: "transition now g [Stopping] Stopped (cleared None []) db1 = (db2, b2)" by fastforce
  have g1: "generations db1 = map (advance now g [Queued, Running] Failed (cleared (Some (recorded_code c)) bs)) (generations db)"
    using t1 by (simp add: transition_eq) (metis database.select_convs(4) database.surjective database.update_convs(4))
  have g2: "generations db2 = map (advance now g [Stopping] Stopped (cleared None [])) (generations db1)"
    using t2 by (simp add: transition_eq) (metis database.select_convs(4) database.surjective database.update_convs(4))
  have s2: "settled g db2"
    unfolding settled_def
  proof (intro ballI impI)
    fix r assume r: "r \<in> set (generations db2)" "gen_id r = g"
    then obtain r0 where r0: "r = advance now g [Stopping] Stopped (cleared None [])
        (advance now g [Queued, Running] Failed (cleared (Some (recorded_code c)) bs) r0)"
      unfolding g2 g1 by auto
    have "gen_id r0 = g" using r(2) unfolding r0 by (simp add: advance_def cleared_def split: if_splits)
    then show "is_terminal (gen_status r)"
      unfolding r0 by (cases "gen_status r0") (simp_all add: advance_def cleared_def is_terminal_def)
  qed
  show ?thesis
  proof (cases b1)
    case True
    then have one: "length (filter (\<lambda>r. gen_id r = g \<and> gen_status r \<in> {Queued, Running}) (generations db)) = 1"
      using t1 by (simp add: transition_eq)
    have "settled g db1"
      unfolding settled_def
    proof (intro ballI impI)
      fix r assume r: "r \<in> set (generations db1)" "gen_id r = g"
      obtain r0 where r0: "r0 \<in> set (generations db)"
        "r = advance now g [Queued, Running] Failed (cleared (Some (recorded_code c)) bs) r0"
        using r(1) unfolding g1 by auto
      have "gen_id r0 = g" using r(2) unfolding r0(2) by (simp add: advance_def cleared_def split: if_splits)
      note r0 = this r0
      have "filter (\<lambda>r. gen_id r = g \<and> gen_status r \<in> {Queued, Running}) (generations db) \<noteq> []"
        using one by (metis length_0_conv zero_neq_one)
      then obtain x where x: "x \<in> set (generations db)" "gen_id x = g" "gen_status x \<in> {Queued, Running}"
        by (auto simp: filter_empty_conv)
      then have "x = r0" using r0 assms by (auto simp: distinct_map inj_on_def)
      with x r0 show "is_terminal (gen_status r)" by (auto simp: advance_def is_terminal_def)
    qed
    with True show ?thesis by (simp add: fail_def t1)
  qed (use s2 in \<open>cases b2; simp add: fail_def t1 t2\<close>)
qed

lemma settled_commit:
  assumes "db_ok m db" "commit_success_once now m ids ts g d c db = Inr (Some db')" "commit_fresh ids db"
  shows "settled g db'"
proof -
  obtain r where r: "the_generation db' g = Some r" "gen_status r = Completed"
    using committed_row [OF assms(1,2)] by blast
  have ok: "db_ok m db'" by (rule db_ok_commit [OF assms])
  have "x = r" if "x \<in> set (generations db')" "gen_id x = g" for x
    using the_generation_unique [OF ok that] r(1) by simp
  with r(2) show ?thesis by (auto simp: settled_def is_terminal_def)
qed

section \<open>What a write leaves\<close>

context task_relation
begin

lemma write_last:
  assumes "write_once env f w = (w', Inr x)"
  shows "\<exists>w0 now db. R w w0 \<and> f now (stored w0) = Inr (db, x) \<and> w' = store db w0"
  using assms R_pause [of w]
  by (auto simp: write_once_def Let_def split: write_outcome.splits sum.splits if_splits)

lemma attempts_last:
  assumes "write_attempts env f ds w = (w', Inr x)" "moves (write_once env f)"
  shows "\<exists>w0 now db. R w w0 \<and> f now (stored w0) = Inr (db, x) \<and> w' = store db w0"
  using assms(1)
proof (induction ds arbitrary: w)
  case Nil
  then show ?case by (intro write_last) simp
next
  case (Cons d ds)
  obtain w1 r where w1: "write_once env f w = (w1, r)" by fastforce
  show ?case
  proof (cases r)
    case (Inl e)
    with Cons.prems w1 have "write_attempts env f ds w1 = (w', Inr x)" by (simp split: if_splits)
    with Cons.IH obtain w0 now db where "R w1 w0" "f now (stored w0) = Inr (db, x)" "w' = store db w0" by blast
    with R_trans [OF moves_at [OF assms(2) w1]] show ?thesis by blast
  next
    case (Inr y)
    with Cons.prems w1 have "write_once env f w = (w', Inr x)" by simp
    then show ?thesis by (rule write_last)
  qed
qed

lemma retries_last:
  assumes "with_write_retries env f w = (w', Inr x)" "moves (write_once env f)"
  shows "\<exists>w0 now db. R w w0 \<and> f now (stored w0) = Inr (db, x) \<and> w' = store db w0"
  using attempts_last [OF assms(1) [unfolded with_write_retries_def] assms(2)] .

end

section \<open>A task ends with its row terminal\<close>

text \<open>Of any seven consecutive attempts to write one succeeds, and none is refused or aborted.\<close>

definition writes_recover :: "surroundings \<Rightarrow> bool" where
  "writes_recover env \<longleftrightarrow>
     (\<forall>n. su_write env n \<in> {Applied, RolledBack, Unconfirmed}) \<and> (\<forall>n. \<exists>k<7. su_write env (n + k) = Applied)"

lemma write_once_total:
  assumes "\<forall>now db. \<exists>r. f now db = Inr r" "su_write env (Suc (wo_count w)) \<in> {Applied, RolledBack, Unconfirmed}"
  shows "\<exists>w' r. write_once env f w = (w', r) \<and> wo_count w' = Suc (wo_count w)
    \<and> (r = Inl operational_error \<or> (\<exists>x. r = Inr x)) \<and> (su_write env (Suc (wo_count w)) = Applied \<longrightarrow> (\<exists>x. r = Inr x))"
proof -
  have c: "wo_count (pause env w) = Suc (wo_count w)" by (simp add: pause_def split: prod.split)
  obtain db x where "f (su_now env (Suc (wo_count w))) (stored (pause env w)) = Inr (db, x)"
    using assms(1) by (metis prod.collapse)
  with assms(2) c show ?thesis by (auto simp: write_once_def Let_def store_def)
qed

lemma attempts_total:
  assumes f: "\<forall>now db. \<exists>r. f now db = Inr r" and all: "\<forall>n. su_write env n \<in> {Applied, RolledBack, Unconfirmed}"
  shows "k \<le> length ds \<Longrightarrow> su_write env (Suc (wo_count w + k)) = Applied \<Longrightarrow>
    \<exists>w' x. write_attempts env f ds w = (w', Inr x)"
proof (induction ds arbitrary: w k)
  case Nil
  then show ?case using write_once_total [OF f, of env w] all by auto
next
  case (Cons d ds)
  obtain w1 r where o: "write_once env f w = (w1, r)" "wo_count w1 = Suc (wo_count w)"
    "r = Inl operational_error \<or> (\<exists>x. r = Inr x)" "su_write env (Suc (wo_count w)) = Applied \<longrightarrow> (\<exists>x. r = Inr x)"
    using write_once_total [OF f, of env w] all by blast
  show ?case
  proof (cases "\<exists>x. r = Inr x")
    case True
    with o(1) show ?thesis by auto
  next
    case False
    with o(3,4) Cons.prems obtain j where j: "k = Suc j" by (cases k) auto
    then have "\<exists>w' x. write_attempts env f ds w1 = (w', Inr x)"
      using Cons.prems o(2) by (intro Cons.IH [of j]) simp_all
    with False o(1,3) show ?thesis by auto
  qed
qed

lemma retries_total:
  assumes "writes_recover env" "\<forall>now db. \<exists>r. f now db = Inr r"
  shows "\<exists>w' x. with_write_retries env f w = (w', Inr x)"
proof -
  obtain k where "k < 7" "su_write env (Suc (wo_count w) + k) = Applied"
    using assms(1) unfolding writes_recover_def by blast
  with attempts_total [OF assms(2), of env k write_retry_delays w] assms(1) show ?thesis
    by (simp add: with_write_retries_def write_retry_delays_def writes_recover_def)
qed

lemma steps_kept:
  assumes "relies_on env g" "sys_ok (su_max_words env) (wo_sys w)" "task_steps (su_max_words env) g w w'"
  shows "sys_ok (su_max_words env) (wo_sys w')"
    "settled g (stored w) \<Longrightarrow> settled g (stored w')"
  using sys_ok_others settled_others assms unfolding task_steps_def stored_def by blast+

lemma finish_settles:
  assumes "finish_stopped_action env g w = (w', Inr x)"
  shows "settled g (stored w')"
proof -
  have m: "task_relation.moves (\<lambda>w w'. relies_on env g \<longrightarrow> task_steps (su_max_words env) g w w')
      (write_once env (\<lambda>now db. Inr (finish_stopped now g db, ())))"
    by (rule stepping.moves_write) (use stepping.R_stopped in auto)
  obtain w1 where "with_write_retries env (\<lambda>now db. Inr (finish_stopped now g db, ())) w = (w1, Inr ())"
    "w' = w1\<lparr>wo_hub := mark_finished Stopped (wo_hub w1)\<rparr>"
    using assms by (auto simp: finish_stopped_action_def and_then_def on_hub_def split: prod.splits sum.splits)
  with stepping.retries_last [OF _ m] settled_finish show ?thesis by (fastforce simp: stored_def store_def)
qed

lemma and_then_Inr:
  assumes "and_then m f w = (w', Inr x)"
  obtains w1 y where "m w = (w1, Inr y)" "f y w1 = (w', Inr x)"
  using assms by (auto simp: and_then_def split: prod.splits sum.splits)

lemma catching_Inr: "catching f m w = (w', Inr x) \<Longrightarrow> m w = (w', Inr x)"
  by (auto simp: catching_def split: prod.splits sum.splits)

lemma on_hub_stored [simp]: "on_hub f w = (w', r) \<Longrightarrow> stored w' = stored w"
  by (auto simp: on_hub_def stored_def)

lemma task_steps_at:
  assumes "relies_on env g"
    and "m w = (w', r)" "task_relation.moves (\<lambda>w w'. relies_on env g \<longrightarrow> task_steps (su_max_words env) g w w') m"
  shows "task_steps (su_max_words env) g w w'"
  using stepping.moves_at [where env = env and g = g and m = m and w = w and w' = w' and r = r] assms by blast

lemma fail_settles:
  assumes "fail_action env g c bs w = (w', Inr x)" "relies_on env g" "sys_ok (su_max_words env) (wo_sys w)"
  shows "settled g (stored w')"
proof -
  let ?f = "\<lambda>now db. Inr (fail now g c bs db)"
  have m: "task_relation.moves (\<lambda>w w'. relies_on env g \<longrightarrow> task_steps (su_max_words env) g w w') (write_once env ?f)"
    by (rule stepping.moves_write) (metis Inr_inject fst_conv stepping.R_fail)
  obtain w1 y where w1: "with_write_retries env ?f w = (w1, Inr y)" "stored w' = stored w1"
    using assms(1) by (auto simp: fail_action_def elim!: and_then_Inr)
  obtain w0 now db where w0: "task_steps (su_max_words env) g w w0" "fail now g c bs (stored w0) = (db, y)" "w1 = store db w0"
    using stepping.retries_last [OF w1(1) m] assms(2) by auto
  have "distinct (map gen_id (generations (stored w0)))"
    using sys_ok_distinct [OF steps_kept(1) [OF assms(2,3) w0(1)]] by (simp add: stored_def)
  from settled_fail [OF this, of g now c bs] w0(2,3) w1(2) show ?thesis by simp
qed

lemma commit_settles:
  assumes "commit_success env g d c w = (w', Inr x)" "relies_on env g" "sys_ok (su_max_words env) (wo_sys w)"
  shows "settled g (stored w')"
proof -
  let ?R = "\<lambda>w w'. relies_on env g \<longrightarrow> task_steps (su_max_words env) g w w'"
  let ?prep = "if doc_state d \<noteq> NoState then catching template_failure (prepare_docx_templates env g d) else give []"
  obtain w1 ts where p: "?prep w = (w1, Inr ts)"
    and rest: "and_then (catching (write_failure (doc_state d \<noteq> NoState)) (with_write_retries env (commit_transaction env g d c ts)))
        (\<lambda>claimed. if claimed then on_hub (mark_finished Completed) else finish_stopped_action env g) w1 = (w', Inr x)"
    using assms(1) unfolding commit_success_def Let_def by (rule and_then_Inr)
  have "task_relation.moves ?R ?prep"
    by (simp add: stepping.moves_catching [OF stepping.moves_prepare] stepping.moves_give)
  then have s1: "task_steps (su_max_words env) g w w1" by (rule task_steps_at [where m = ?prep, OF assms(2) p])
  obtain w2 claimed where w2: "with_write_retries env (commit_transaction env g d c ts) w1 = (w2, Inr claimed)"
    and fin: "(if claimed then on_hub (mark_finished Completed) else finish_stopped_action env g) w2 = (w', Inr x)"
    using rest by (elim and_then_Inr) (auto dest: catching_Inr)
  show ?thesis
  proof (cases claimed)
    case False
    with fin show ?thesis using finish_settles by simp
  next
    case True
    have m: "task_relation.moves ?R (write_once env (commit_transaction env g d c ts))"
      by (rule stepping.moves_write) (rule stepping.R_commit)
    obtain w0 now db where w0: "task_steps (su_max_words env) g w1 w0"
      "commit_transaction env g d c ts now (stored w0) = Inr (db, claimed)" "w2 = store db w0"
      using stepping.retries_last [OF w2 m] assms(2) by auto
    have ok: "db_ok (su_max_words env) (stored w0)"
      using sys_ok_db [OF steps_kept(1) [OF assms(2) steps_kept(1) [OF assms(2,3) s1] w0(1)]] by (simp add: stored_def)
    have "commit_success_once now (su_max_words env) (su_drawn env (stored w0)) ts g d c (stored w0) = Inr (Some db)"
      using w0(2) True
      by (cases "commit_success_once now (su_max_words env) (su_drawn env (stored w0)) ts g d c (stored w0)")
         (auto simp: commit_transaction_def split: commit_error.splits option.splits)
    from settled_commit [OF ok this] assms(2) have "settled g db" by (simp add: relies_on_def)
    with fin True w0(3) show ?thesis by simp
  qed
qed

lemma answer_once_settles:
  assumes "answer_once env gen k snap w = (w', Inr x)" "relies_on env (gen_id gen)"
    and "sys_ok (su_max_words env) (wo_sys w)"
  shows "settled (gen_id gen) (stored w')"
proof -
  let ?p = "purpose_text (gen_purpose gen)"
  let ?sc = "if k = 0 then gen_id gen else gen_id gen @ '':protocol-retry:'' @ show_nat k"
  obtain dec where dec: "new_decoder (su_limits env) = Some dec"
    using assms(1) by (auto simp: answer_once_def Let_def split: option.splits)
  obtain w1 r where c: "call_provider env (live_chunk env) (usage_of gen) ?p ?p ?sc True snap dec w = (w1, r)"
    by fastforce
  have "task_steps (su_max_words env) (gen_id gen) w w1"
    by (rule task_steps_at [where m = "call_provider env (live_chunk env) (usage_of gen) ?p ?p ?sc True snap dec",
        OF assms(2) c], rule stepping.moves_call, rule stepping.moves_live_chunk)
  note ok = steps_kept(1) [OF assms(2,3) this]
  obtain d cm y where "commit_success env (gen_id gen) d cm w1 = (w', Inr y)"
    using assms(1) dec c by (auto simp: answer_once_def Let_def split: sum.splits prod.splits)
  then show ?thesis using commit_settles assms(2) ok by blast
qed

lemma answers_settle:
  assumes "answer_attempts env gen (Suc n) k snap w = (w', Inr x)" "relies_on env (gen_id gen)"
    and "sys_ok (su_max_words env) (wo_sys w)"
  shows "settled (gen_id gen) (stored w')"
  using assms(1,3)
proof (induction n arbitrary: k snap w)
  case 0
  then show ?case
    using answer_once_settles [OF _ assms(2)]
    by (auto split: prod.splits sum.splits run_error.splits)
next
  case (Suc n)
  obtain w1 r where a: "answer_once env gen k snap w = (w1, r)" by fastforce
  show ?case
  proof (cases r)
    case (Inr y)
    with a Suc.prems answer_once_settles [OF _ assms(2)] show ?thesis by simp
  next
    case (Inl q)
    with a Suc.prems(1) obtain h snap' where rest:
      "answer_attempts env gen (Suc n) (Suc k) snap' (w1\<lparr>wo_hub := h\<rparr>) = (w', Inr x)"
      by (auto simp del: answer_attempts.simps simp: answer_attempts.simps(2) [of env gen "Suc n" k]
          split: prod.splits run_error.splits bool.splits sum.splits)
    have "task_steps (su_max_words env) (gen_id gen) w w1"
      using stepping.answer_once_moves [of env "gen_id gen" w gen k snap] a assms(2) by simp
    then have "sys_ok (su_max_words env) (wo_sys (w1\<lparr>wo_hub := h\<rparr>))"
      using steps_kept(1) [OF assms(2) Suc.prems(2)] by simp
    then show ?thesis by (rule Suc.IH [OF rest])
  qed
qed

lemma body_settles:
  assumes "run_body env g w = (w', Inr x)" "relies_on env g" "sys_ok (su_max_words env) (wo_sys w)"
  shows "settled g (stored w')"
proof -
  obtain w1 r where s: "set_running_action env g w = (w1, Inr r)"
    and rest: "(case r of None \<Rightarrow> finish_stopped_action env g
       | Some gen \<Rightarrow> and_then (respond env gen) (\<lambda>_. case (gen_purpose gen, gen_thread gen) of
           (Chat, Some t) \<Rightarrow> maybe_generate_title env (usage_of gen) t | _ \<Rightarrow> give ())) w1 = (w', Inr x)"
    using assms(1) unfolding run_body_def by (rule and_then_Inr)
  note ok1 = steps_kept(1) [OF assms(2,3) task_steps_at [OF assms(2) s stepping.moves_set_running]]
  show ?thesis
  proof (cases r)
    case None
    with rest show ?thesis using finish_settles by simp
  next
    case (Some gen)
    obtain w2 r2 where "write_once env (\<lambda>now db. Inr (set_running now g db)) w = (w2, Inr r2)" "r2 = Some gen"
      using s Some unfolding set_running_action_def
      by (elim and_then_Inr) (auto simp: give_def and_then_def on_hub_def split: option.splits)
    then obtain now db where "snd (set_running now g db) = Some gen"
      by (auto simp: write_once_def Let_def split: write_outcome.splits if_splits prod.splits) (metis snd_conv)
    then have g: "gen_id gen = g"
      by (auto simp: set_running_def split: prod.splits if_splits dest: the_generation_Some)
    obtain w3 y where r3: "respond env gen w1 = (w3, Inr y)"
      and title: "(case (gen_purpose gen, gen_thread gen) of
           (Chat, Some t) \<Rightarrow> maybe_generate_title env (usage_of gen) t | _ \<Rightarrow> give ()) w3 = (w', Inr x)"
      using rest Some by (auto elim: and_then_Inr)
    obtain w4 snap where c: "compose_request env gen w1 = (w4, Inr snap)"
      and ans: "answer_attempts env gen 3 0 snap w4 = (w3, Inr y)"
      using r3 unfolding respond_def by (rule and_then_Inr)
    note ok4 = steps_kept(1) [OF assms(2) ok1 task_steps_at [OF assms(2) c stepping.moves_compose]]
    note ok3 = steps_kept(1) [OF assms(2) ok4 task_steps_at [OF assms(2) ans stepping.moves_answers]]
    have "settled g (stored w3)"
      using answers_settle [of env gen 2 0 snap w4 w3 y] ans ok4 assms(2) g by (simp add: eval_nat_numeral)
    moreover have "task_steps (su_max_words env) g w3 w'"
      by (rule task_steps_at [where m = "case (gen_purpose gen, gen_thread gen) of
          (Chat, Some t) \<Rightarrow> maybe_generate_title env (usage_of gen) t | _ \<Rightarrow> give ()", OF assms(2) title])
        (simp add: stepping.moves_give stepping.moves_maybe_title split: purpose.split option.split)
    ultimately show ?thesis using steps_kept(2) [OF assms(2) ok3] by blast
  qed
qed

lemma handler_total:
  assumes "writes_recover env"
  shows "\<exists>w'. handle_failure env g e w = (w', Inr ())"
proof -
  have f: "\<exists>w'. fail_action env g c bs w = (w', Inr ())" for c bs
    using retries_total [OF assms, of "\<lambda>now db. Inr (fail now g c bs db)" w]
    by (auto simp: fail_action_def and_then_def on_hub_def)
  have s: "\<exists>w'. finish_stopped_action env g w = (w', Inr ())"
    using retries_total [OF assms, of "\<lambda>now db. Inr (finish_stopped now g db, ())" w]
    by (auto simp: finish_stopped_action_def and_then_def on_hub_def)
  from f s show ?thesis by (cases e) (simp_all add: handle_failure_def)
qed

lemma handler_settles:
  assumes "handle_failure env g e w = (w', Inr x)" "relies_on env g" "sys_ok (su_max_words env) (wo_sys w)"
  shows "settled g (stored w')"
  using assms(1) fail_settles [OF _ assms(2,3)] finish_settles
  by (auto simp: handle_failure_def split: run_error.splits if_splits)

end
