(* ===== verification/Lifecycle_Guarantees.thy ===== *)
theory Lifecycle_Guarantees
  imports Lifecycle_Runs
begin

text \<open>
  What users of the generation service can rely on: the reachable states, rows that only move
  forward, the race of stop and commit, repeated requests, restarts, orphans, retries, privacy.
\<close>

section \<open>What a submission writes\<close>


lemma threads_finalize_rows [simp]: "threads (fst (finalize_rows now live rows db)) = threads db"
proof (induction now live rows db rule: finalize_rows.induct)
  case (2 now live g s rows db)
  then show ?case by (auto simp: transition_eq split: prod.splits)
qed simp

lemma threads_insert_generation: "insert_generation g db = Inr db' \<Longrightarrow> threads db' = threads db"
  by (auto simp: insert_generation_def split: if_splits)






section \<open>Guarantees\<close>

definition empty_system :: system where
  "empty_system = \<lparr>sys_db = \<lparr>threads = [], messages = [], attachments = [], generations = [], work_items = [],
     work_versions = [], usage_events = []\<rparr>, sys_files = [], sys_live = []\<rparr>"

lemma empty_system_ok: "sys_ok m empty_system"
  by (simp add: empty_system_def sys_ok_def db_ok_def generations_ok_def one_active_def unique_requests_def
      results_completed_def finished_marked_def messages_ok_def thread_messages_def results_ok_def work_ok_def
      files_ok_def)

text \<open>C1: the invariant of the system holds in every reachable state.  From an empty database, whatever
  is submitted, retried, stopped, committed, failed, deleted or interrupted by restarts: no conversation
  has two active generations, a user's request id names one generation, message ordinals of a
  conversation are 1, 2, 3 without gaps, only a completed generation has a result and it is an assistant
  message of its own conversation that no other generation has, a row has a finish time exactly when it
  is terminal, canonical work is well formed, and every attachment row has its own file on disk.\<close>

theorem reachable_system_ok:
  assumes "(step m)\<^sup>*\<^sup>* empty_system s"
  shows "sys_ok m s"
  using run.along [OF assms empty_system_ok] .

definition demo_turn_limits :: turn_limits where
  "demo_turn_limits = \<lparr>max_source_words = 100, max_reference_words = 100, chat_max_completion_tokens = 1000\<rparr>"

definition demo_ids :: turn_ids where
  "demo_ids = \<lparr>id_generation = ''g'', id_thread = ''t'', id_message = ''m'', id_attachment = ''a''\<rparr>"

definition demo_turn :: turn where
  "demo_turn = \<lparr>turn_requester = ''u'', turn_request_id = ''q'', turn_text = lit ''Hi'', turn_attachment = None,
     turn_role = ''source'', turn_thread = None, turn_owner = Some ''u'', turn_mode = Some ''translate''\<rparr>"

definition demo_submitted :: system where
  "demo_submitted = \<lparr>sys_db = \<lparr>threads = [\<lparr>th_id = ''t'', th_owner = ''u'', th_mode = Translate,
       th_title = Some (lit ''New conversation''), th_summary = None, th_summary_through = None, th_updated = 5\<rparr>],
     messages = [\<lparr>msg_id = ''m'', msg_thread = ''t'', msg_ordinal = 1, msg_role = UserRole, msg_actor = Some ''u'',
       msg_content = [\<lparr>block_type = Conversation, block_text = lit ''Hi''\<rparr>]\<rparr>], attachments = [],
     generations = [queued_generation 5 ''g'' ''t'' ''u'' ''q'' Chat (Some ''m'') None], work_items = [],
     work_versions = [], usage_events = []\<rparr>, sys_files = [], sys_live = [''g'']\<rparr>"

lemmas demo_system_defs = demo_turn_limits_def demo_ids_def demo_turn_def demo_submitted_def empty_system_def

lemma demo_submit: "submit_turn (\<lambda>_. 0) False 5 demo_turn_limits demo_ids demo_turn empty_system = Inr (demo_submitted, ''t'', ''g'')"
proof -
  have s: "strip (lit ''Hi'') = lit ''Hi''" by (simp add: lit_def strip_def py_space_def)
  have w: "count_words (lit ''Hi'') = 1" by (simp add: lit_def count_words_def py_space_def)
  show ?thesis
    by (simp add: demo_system_defs submit_turn_def turn_checks_def role_of_def check_response_budget_def
        response_material_def framing_tokens_def insert_turn_def existing_request_def turn_thread_row_def mode_of_def
        turn_word_checks_def latest_work_version_def s w insert_message_def next_ordinal_def thread_messages_def
        insert_generation_def generation_conflict_def touch_thread_def)
qed

lemma demo_fresh: "turn_fresh demo_ids (sys_db empty_system)"
  by (simp add: turn_fresh_def empty_system_def)

theorem reachable_system_ok_witness: "sys_ok 100 demo_submitted"
  by (rule reachable_system_ok, rule r_into_rtranclp, rule step.work, rule work.submit [OF demo_submit demo_fresh])



text \<open>C6: stop and commit exclude each other.  Once a stop has been recorded, the answer of that
  generation can no longer be committed and nothing of it is written; once an answer is committed, a
  stop changes nothing.\<close>

theorem stop_and_commit_exclude:
  assumes "db_ok m db"
  shows "(stop now live g db = Inr db1 \<longrightarrow> commit_success_once now' mw ids ts g d c db1 = Inr None)
    \<and> (commit_success_once now' m ids ts g d c db = Inr (Some db2) \<and> commit_fresh ids db
        \<longrightarrow> stop now live g db2 = Inr db2)"
proof (intro conjI impI)
  assume st: "stop now live g db = Inr db1"
  have "\<forall>r\<in>set (generations db1). gen_id r = g \<longrightarrow> gen_status r \<notin> set [Running]"
    using stop_outcome [OF assms st] by (fastforce simp: is_terminal_def)
  then show "commit_success_once now' mw ids ts g d c db1 = Inr None"
    unfolding claim_completed_def by (intro commit_lost) (simp only: claim_completed_def transition_miss)
next
  assume "commit_success_once now' m ids ts g d c db = Inr (Some db2) \<and> commit_fresh ids db"
  then show "stop now live g db2 = Inr db2"
    using committed_row [OF assms] db_ok_commit [OF assms] stop_terminal_noop by (metis insertI1 is_terminal_def)
qed

definition demo_running :: database where
  "demo_running = fst (set_running 6 ''g'' (sys_db demo_submitted))"

lemma demo_running_ok: "db_ok 100 demo_running"
  unfolding demo_running_def
  by (intro db_ok_set_running sys_ok_db sys_ok_submit [OF empty_system_ok demo_submit demo_fresh])

lemma demo_running_eq: "demo_running = (sys_db demo_submitted)\<lparr>generations :=
    [(queued_generation 5 ''g'' ''t'' ''u'' ''q'' Chat (Some ''m'') None)\<lparr>gen_status := Running, gen_revision := 1, gen_started := Some 6\<rparr>]\<rparr>"
  by (simp add: demo_running_def demo_submitted_def set_running_def transition_def queued_generation_def is_terminal_def)

definition demo_answer :: protocol_document where
  "demo_answer = \<lparr>doc_blocks = [\<lparr>block_type = Conversation, block_text = lit ''Yes''\<rparr>], doc_state = NoState\<rparr>"

theorem stop_and_commit_exclude_witness:
  "\<exists>db1. stop 7 True ''g'' demo_running = Inr db1
    \<and> commit_success_once 8 100 \<lparr>new_message_id = ''n'', new_item_id = ''i'', new_version_id = ''v''\<rparr> [] ''g'' demo_answer
        \<lparr>comp_request = None, comp_generation = None\<rparr> db1 = Inr None"
proof -
  obtain db1 where "stop 7 True ''g'' demo_running = Inr db1"
    by (simp add: demo_running_eq demo_submitted_def stop_def transition_def queued_generation_def)
  then show ?thesis using stop_and_commit_exclude [OF demo_running_ok] by blast
qed



text \<open>C27: a restart leaves no generation hanging.  Every row is terminal with a finish time, and every
  conversation accepts a new generation whose id and request id are unused.\<close>

theorem restart_quiesces:
  assumes "db_ok m db" "db' = fst (reconcile_orphans now db)"
  shows "(\<forall>r\<in>set (generations db'). is_terminal (gen_status r) \<and> gen_finished r \<noteq> None)
    \<and> (gen_id g \<notin> gen_id ` set (generations db)
       \<and> (gen_requester g, gen_client_request g) \<notin> (\<lambda>r. (gen_requester r, gen_client_request r)) ` set (generations db)
       \<longrightarrow> insert_generation g db' = Inr (db'\<lparr>generations := generations db' @ [g]\<rparr>))"
proof -
  have gs: "generations db' = map (reconciled now) (generations db)" by (simp add: assms(2) reconcile_eq)
  have ok: "generations_ok (generations db')" using db_ok_reconcile [OF assms(1), of now] by (simp add: db_ok_def assms(2))
  have t: "is_terminal (gen_status r)" if "r \<in> set (generations db')" for r
    using that reconciled_terminal by (auto simp: gs)
  have f: "gen_id (reconciled now r) = gen_id r" "gen_requester (reconciled now r) = gen_requester r"
    "gen_client_request (reconciled now r) = gen_client_request r" for r
    using row_update_reconciled [of now] unfolding row_update_def by blast+
  have "\<not> generation_conflict g db'"
    if "gen_id g \<notin> gen_id ` set (generations db)"
      "(gen_requester g, gen_client_request g) \<notin> (\<lambda>r. (gen_requester r, gen_client_request r)) ` set (generations db)"
  proof -
    have "gen_id r \<noteq> gen_id g" "\<not> (gen_requester r = gen_requester g \<and> gen_client_request r = gen_client_request g)"
      if "r \<in> set (generations db')" for r
      using that \<open>gen_id g \<notin> _\<close> \<open>_ \<notin> (\<lambda>r. (gen_requester r, gen_client_request r)) ` _\<close> unfolding gs set_map image_iff
      by (metis f)+
    moreover have "\<not> is_active (gen_status r)" if "r \<in> set (generations db')" for r using t that by (simp add: active_terminal)
    ultimately show ?thesis unfolding generation_conflict_def by blast
  qed
  moreover have "\<forall>r\<in>set (generations db'). gen_finished r \<noteq> None"
    using ok t unfolding generations_ok_def finished_marked_def by blast
  ultimately show ?thesis using t by (auto simp: insert_generation_def)
qed

theorem restart_quiesces_witness:
  "list_all (\<lambda>r. is_terminal (gen_status r) \<and> gen_finished r \<noteq> None) (generations (fst (reconcile_orphans 9 demo_running)))"
  unfolding list_all_iff using restart_quiesces [OF demo_running_ok refl, of 9] by blast

text \<open>C28: a stop takes effect.  Stopping a known generation succeeds; if no task owns it, the row is
  terminal at once; if a task owns it, the row is stopping or terminal, and terminal after the task's
  final transition.\<close>

theorem stop_terminates:
  assumes "db_ok m db" "the_generation db g = Some r"
  shows "\<exists>db' r'. stop now live g db = Inr db' \<and> the_generation db' g = Some r'
    \<and> (gen_status r' = Stopping \<and> live \<or> is_terminal (gen_status r'))
    \<and> (\<exists>r''. the_generation (finish_stopped now' g db') g = Some r'' \<and> is_terminal (gen_status r''))"
proof -
  obtain db1 requested where t: "transition now g [Queued, Running] Stopping id db = (db1, requested)" by fastforce
  then obtain r1 where "the_generation db1 g = Some r1"
    using transition_keeps_row [OF assms(2), of id now g "[Queued, Running]" Stopping] by auto
  with t have "\<exists>db'. stop now live g db = Inr db'" by (auto simp: stop_def)
  then obtain db' where st: "stop now live g db = Inr db'" by blast
  have r0: "r \<in> set (generations db)" "gen_id r = g" using the_generation_Some [OF assms(2)] by auto
  have ok': "db_ok m db'" by (rule db_ok_stop [OF st assms(1)])
  obtain r' where r': "r' \<in> set (generations db')" "gen_id r' = g"
    using rows_follow_stop [OF st] r0 unfolding rows_follow_def follows_def by blast
  obtain r'' where r'': "r'' \<in> set (generations (finish_stopped now' g db'))" "gen_id r'' = g"
    using rows_follow_finish_stopped r' unfolding rows_follow_def follows_def by blast
  show ?thesis
    using st the_generation_unique [OF ok' r'] the_generation_unique [OF db_ok_finish_stopped [OF ok'] r'']
      stop_outcome [OF assms(1) st r'] finish_stopped_terminal [OF r''] by blast
qed

theorem stop_terminates_witness:
  "\<exists>db' r'. stop 7 False ''g'' demo_running = Inr db' \<and> the_generation db' ''g'' = Some r' \<and> is_terminal (gen_status r')"
proof -
  obtain r where "the_generation demo_running ''g'' = Some r"
    by (simp add: demo_running_eq the_generation_def queued_generation_def)
  then show ?thesis using stop_terminates [OF demo_running_ok, of "''g''" r 7 False 8] by blast
qed

text \<open>C29: a lost task never blocks a conversation.  Finishing the orphans before a new turn leaves
  active only generations of the conversation that a task of this process owns, and does not touch any
  row that a task owns.\<close>

theorem orphans_do_not_block:
  assumes "db' = fst (finalize_orphans now live t db)"
  shows "(\<forall>r\<in>set (generations db'). gen_thread r = Some t \<and> is_active (gen_status r) \<longrightarrow> gen_id r \<in> set live)
    \<and> (\<forall>r\<in>set (generations db). gen_id r \<in> set live \<longrightarrow> r \<in> set (generations db'))"
proof (intro conjI ballI impI)
  fix r assume "r \<in> set (generations db')" "gen_thread r = Some t \<and> is_active (gen_status r)"
  then show "gen_id r \<in> set live"
    unfolding assms finalize_orphans_def by (intro finalize_rows_done [of db t live]) auto
next
  fix r assume "r \<in> set (generations db)" "gen_id r \<in> set live"
  then show "r \<in> set (generations db')" unfolding assms finalize_orphans_def by (rule finalize_rows_live)
qed

theorem orphans_do_not_block_witness:
  "list_all (\<lambda>r. \<not> (gen_thread r = Some ''t'' \<and> is_active (gen_status r))) (generations (fst (finalize_orphans 9 [] ''t'' demo_running)))"
  using orphans_do_not_block [OF refl, of 9 "[]" "''t''" demo_running] by (simp add: list_all_iff)

text \<open>only the latest unanswered turn can be retried.  A retry that starts a generation belongs to
  the owner of the conversation; the original is a failed or stopped chat turn without a result, no
  assistant message follows its source message, and the new generation answers that same message.\<close>

theorem retry_only_unanswered:
  assumes "retry now g orig u q s = Inr (s', i)" "s' \<noteq> s"
  shows "\<exists>r t th src. the_generation (sys_db s) orig = Some r \<and> gen_purpose r = Chat \<and> gen_status r \<in> {Failed, Stopped}
    \<and> gen_result r = None \<and> gen_thread r = Some t \<and> the_thread (sys_db s) t = Some th \<and> th_owner th = u
    \<and> src \<in> set (messages (sys_db s)) \<and> gen_source r = Some (msg_id src)
    \<and> \<not> (\<exists>x\<in>set (messages (sys_db s)). msg_thread x = t \<and> msg_role x = AssistantRole \<and> msg_ordinal src < msg_ordinal x)
    \<and> generations (sys_db s') = generations (fst (finalize_orphans now (g # sys_live s) t (sys_db s)))
         @ [queued_generation now g t u q Chat (gen_source r) (Some orig)] \<and> i = g"
  using assms(1) [unfolded retry_def]
proof (cases rule: start_generation_cases)
  case (started r' db')
  obtain r t th where r: "the_generation (sys_db s) orig = Some r" "gen_thread r = Some t" "the_thread (sys_db s) t = Some th"
    "th_owner th = u" "is_retryable (sys_db s) r"
    "r' = queued_generation now g t u q (gen_purpose r) (gen_source r) (Some (gen_id r))"
    using started(2) by (auto simp: prepare_retry_def split: option.splits if_splits)
  have p: "gen_purpose r = Chat" "gen_status r \<in> {Failed, Stopped}" "gen_result r = None"
    using r(5) by (auto simp: is_retryable_def)
  obtain m src where m: "gen_source r = Some m" "find (\<lambda>x. msg_id x = m) (messages (sys_db s)) = Some src"
    "\<not> (\<exists>x\<in>set (messages (sys_db s)). msg_thread x = t \<and> msg_role x = AssistantRole \<and> msg_ordinal src < msg_ordinal x)"
    using r(5,2) by (auto simp: is_retryable_def split: option.splits)
  have "src \<in> set (messages (sys_db s))" "msg_id src = m" using find_Some_member [OF m(2)] by auto
  moreover have "gen_id r = orig" using the_generation_Some [OF r(1)] by simp
  moreover have "generations db' = generations (fst (finalize_orphans now (g # sys_live s) t (sys_db s))) @ [r']"
    using started(4) by (auto simp: insert_generation_def r(6) split: if_splits)
  ultimately show ?thesis using r p m started(3,5) by auto
qed (use assms(2) in simp)

definition demo_stopped :: system where
  "demo_stopped = demo_submitted\<lparr>sys_db := finish_stopped 7 ''g'' (sys_db demo_submitted), sys_live := []\<rparr>"

lemma demo_retry: "\<exists>s'. retry 8 ''h'' ''g'' ''u'' ''q2'' demo_stopped = Inr (s', ''h'') \<and> s' \<noteq> demo_stopped"
  by (simp add: demo_stopped_def demo_submitted_def finish_stopped_def transition_def queued_generation_def cleared_def
      active_statuses_def is_terminal_def retry_def start_generation_def existing_request_def prepare_retry_def
      the_generation_def the_thread_def is_retryable_def finalize_orphans_def is_active_def
      insert_generation_def generation_conflict_def)

theorem retry_only_unanswered_witness:
  "\<exists>r. the_generation (sys_db demo_stopped) ''g'' = Some r \<and> gen_status r \<in> {Failed, Stopped} \<and> gen_result r = None"
proof -
  obtain s' where "retry 8 ''h'' ''g'' ''u'' ''q2'' demo_stopped = Inr (s', ''h'')" "s' \<noteq> demo_stopped"
    using demo_retry by blast
  then show ?thesis using retry_only_unanswered by blast
qed

text \<open>what an accepted turn writes.  A new request adds one user message, numbered after the
  conversation's last, and one queued generation that answers it and that this process owns; an
  attachment adds one row and its file; nothing else of the messages, attachments and files changes.\<close>

theorem submit_effect:
  assumes "sys_ok m s" "submit_turn tokens busy now lm ids t s = Inr (s', tid, i)"
    and "existing_request (sys_db s) (turn_requester t) (turn_request_id t) = Inr None"
  shows "\<exists>x. messages (sys_db s') = messages (sys_db s) @ [x] \<and> msg_thread x = tid \<and> msg_role x = UserRole
      \<and> msg_actor x = Some (turn_requester t) \<and> msg_ordinal x = Suc (length (thread_messages (sys_db s) tid))
      \<and> last (generations (sys_db s')) = queued_generation now i tid (turn_requester t) (turn_request_id t) Chat (Some (msg_id x)) None
      \<and> i \<in> set (sys_live s')
      \<and> (case turn_attachment t of
           None \<Rightarrow> attachments (sys_db s') = attachments (sys_db s) \<and> sys_files s' = sys_files s
         | Some a \<Rightarrow> attachments (sys_db s') = attachments (sys_db s) @ [attachment_row_of ids t a]
             \<and> sys_files s' = sys_files s @ [att_storage (attachment_row_of ids t a)])"
  using assms(2)
proof (cases rule: submit_turn_cases)
  case turn
  then show ?thesis
  proof (cases rule: insert_turn_cases)
    case (inserted db1 content db3 files db4)
    note t1 = turn_thread_row_Inr [OF inserted(2) sys_ok_db [OF assms(1)]]
    have tm: "thread_messages db1 tid = thread_messages (sys_db s) tid" by (simp add: thread_messages_def t1(2))
    have n: "next_ordinal db1 tid = Suc (length (thread_messages (sys_db s) tid))"
      using next_ordinal_ok t1(1) tm by (simp add: db_ok_def)
    have db4: "db4 = db3\<lparr>generations := generations db3 @ [queued_generation now (id_generation ids) tid (turn_requester t)
        (turn_request_id t) Chat (Some (id_message ids)) None]\<rparr>"
      using inserted(5) by (auto simp: insert_generation_def split: if_splits)
    show ?thesis
    proof (cases "turn_attachment t")
      case None
      then show ?thesis
        using inserted(4) t1 by (simp add: inserted(6,7) db4 touch_thread_def insert_message_def n)
    next
      case (Some a)
      then show ?thesis
        using inserted(4) t1
        by (auto simp: inserted(6,7) db4 touch_thread_def insert_message_def n persist_attachment_def
            attachment_row_of_def split: if_splits)
    qed
  qed (use assms(3) in simp)
qed (use assms(3) in auto)

theorem submit_effect_witness:
  "\<exists>x. messages (sys_db demo_submitted) = messages (sys_db empty_system) @ [x] \<and> msg_ordinal x = 1"
proof -
  have "existing_request (sys_db empty_system) (turn_requester demo_turn) (turn_request_id demo_turn) = Inr None"
    by (simp add: existing_request_def empty_system_def)
  moreover have "thread_messages (sys_db empty_system) ''t'' = []" by (simp add: thread_messages_def empty_system_def)
  ultimately show ?thesis using submit_effect [OF empty_system_ok demo_submit] by fastforce
qed

text \<open>C30: conversations are private.  A user who does not own a conversation gets, for deleting it,
  the answer for a missing one; a handoff or a turn for it changes nothing, and no accepted turn is
  ever reported under it.\<close>

theorem conversations_private:
  assumes "the_thread (sys_db s) t = Some th" "th_owner th \<noteq> u"
  shows "delete_thread now u t s = Inl ''thread_not_found''
    \<and> (submit_handoff now g t u q s = Inr (s', i) \<longrightarrow> s' = s)
    \<and> (turn_requester tn = u \<and> turn_thread tn = Some t \<and> submit_turn tokens busy now lm ids tn s = Inr (s'', tid, j)
        \<longrightarrow> s'' = s \<and> tid \<noteq> t)"
proof (intro conjI impI)
  show "delete_thread now u t s = Inl ''thread_not_found''" using assms by (simp add: delete_thread_def)
  show "s' = s" if "submit_handoff now g t u q s = Inr (s', i)"
    using that [unfolded submit_handoff_def]
    by (cases rule: start_generation_cases) (use assms in \<open>auto simp: prepare_handoff_def\<close>)
  assume a: "turn_requester tn = u \<and> turn_thread tn = Some t \<and> submit_turn tokens busy now lm ids tn s = Inr (s'', tid, j)"
  have own: "tid \<noteq> t" if "existing_request (sys_db s) u (turn_request_id tn) = Inr (Some r)" "gen_thread r = Some tid" for r
    using that assms by (auto simp: existing_request_def split: option.splits if_splits)
  from a have "submit_turn tokens busy now lm ids tn s = Inr (s'', tid, j)" by blast
  then have "s'' = s \<and> tid \<noteq> t"
  proof (cases rule: submit_turn_cases)
    case turn
    then show ?thesis
      by (cases rule: insert_turn_cases) (use a own assms in \<open>auto simp: turn_thread_row_def\<close>)
  qed (use a own in auto)
  then show "s'' = s" "tid \<noteq> t" by blast+
qed

theorem conversations_private_witness: "delete_thread 9 ''eve'' ''t'' demo_submitted = Inl ''thread_not_found''"
proof -
  obtain th where "the_thread (sys_db demo_submitted) ''t'' = Some th" "th_owner th \<noteq> ''eve''"
    by (simp add: demo_submitted_def the_thread_def)
  then show ?thesis using conversations_private by blast
qed

end
