(* ===== verification/Protocol_Stream.thy ===== *)
theory Protocol_Stream
  imports Protocol
begin

text \<open>
  \<^verbatim>\<open>ProtocolDecoder.feed\<close> keeps an undecoded byte tail and the pieces of an unfinished line
  between calls.  This theory shows that the incremental decoder refines \<open>decode_whole\<close>, which
  reads the complete byte string at once, so that the result does not depend on how the
  network cut the stream.
\<close>

section \<open>What a line may touch\<close>

text \<open>The three fields of the line buffer, set together.\<close>

definition rebuffer :: "bytes \<Rightarrow> pystr list \<Rightarrow> nat \<Rightarrow> decoder \<Rightarrow> decoder" where
  "rebuffer b p n dec = dec\<lparr>utf8_buffer := b, pending := p, pending_bytes := n\<rparr>"

lemma rebuffer_simps [simp]:
  "lims (rebuffer b p n dec) = lims dec" "utf8_buffer (rebuffer b p n dec) = b"
  "pending (rebuffer b p n dec) = p" "pending_bytes (rebuffer b p n dec) = n"
  "started (rebuffer b p n dec) = started dec" "completed (rebuffer b p n dec) = completed dec"
  "state_seen (rebuffer b p n dec) = state_seen dec" "state (rebuffer b p n dec) = state dec"
  "active_id (rebuffer b p n dec) = active_id dec" "active_type (rebuffer b p n dec) = active_type dec"
  "active_parts (rebuffer b p n dec) = active_parts dec"
  "active_delta_count (rebuffer b p n dec) = active_delta_count dec"
  "blocks (rebuffer b p n dec) = blocks dec" "total_chars (rebuffer b p n dec) = total_chars dec"
  by (simp_all add: rebuffer_def)

lemma rebuffer_twice [simp]: "rebuffer b p n (rebuffer b' p' n' dec) = rebuffer b p n dec"
  by (simp add: rebuffer_def)

lemma rebuffer_id: "rebuffer (utf8_buffer dec) (pending dec) (pending_bytes dec) dec = dec"
  by (simp add: rebuffer_def)

definition lift_rebuffer ::
    "bytes \<Rightarrow> pystr list \<Rightarrow> nat \<Rightarrow> (decoder \<times> 'e) res \<Rightarrow> (decoder \<times> 'e) res" where
  "lift_rebuffer b p n r = bind_res r (\<lambda>(d, e). Inr (rebuffer b p n d, e))"

lemma lift_rebuffer_simps [simp]:
  "lift_rebuffer b p n (Inl c) = Inl c"
  "lift_rebuffer b p n (Inr (d, e)) = Inr (rebuffer b p n d, e)"
  by (simp_all add: lift_rebuffer_def)

lemma lift_rebuffer_bind: "lift_rebuffer b p n (bind_res m f) = bind_res m (\<lambda>x. lift_rebuffer b p n (f x))"
  by (cases m) simp_all

lemma lift_rebuffer_if:
  "lift_rebuffer b p n (if c then x else y) = (if c then lift_rebuffer b p n x else lift_rebuffer b p n y)"
  by simp

lemmas handler_defs =
  on_response_start_def on_block_start_def on_block_delta_def on_block_end_def on_state_def
  on_response_end_def visible_blocks_def

lemma rebuffer_updates:
  "(rebuffer b p n dec)\<lparr>started := x1\<rparr> = rebuffer b p n (dec\<lparr>started := x1\<rparr>)"
  "(rebuffer b p n dec)\<lparr>completed := x2\<rparr> = rebuffer b p n (dec\<lparr>completed := x2\<rparr>)"
  "(rebuffer b p n dec)\<lparr>state := x4, state_seen := x3\<rparr> = rebuffer b p n (dec\<lparr>state := x4, state_seen := x3\<rparr>)"
  "(rebuffer b p n dec)\<lparr>active_id := x5, active_type := x6, active_parts := x7, active_delta_count := x8\<rparr>
   = rebuffer b p n (dec\<lparr>active_id := x5, active_type := x6, active_parts := x7, active_delta_count := x8\<rparr>)"
  "(rebuffer b p n dec)\<lparr>total_chars := x9, active_parts := x7, active_delta_count := x8\<rparr>
   = rebuffer b p n (dec\<lparr>total_chars := x9, active_parts := x7, active_delta_count := x8\<rparr>)"
  "(rebuffer b p n dec)\<lparr>blocks := x10, active_id := x5, active_type := x6, active_parts := x7, active_delta_count := x8\<rparr>
   = rebuffer b p n (dec\<lparr>blocks := x10, active_id := x5, active_type := x6, active_parts := x7, active_delta_count := x8\<rparr>)"
  by (simp_all add: rebuffer_def)

lemma lift_rebuffer_split:
  "lift_rebuffer b p n (case x of None \<Rightarrow> r | Some y \<Rightarrow> f y) =
     (case x of None \<Rightarrow> lift_rebuffer b p n r | Some y \<Rightarrow> lift_rebuffer b p n (f y))"
  "lift_rebuffer b p n (case j of JNull \<Rightarrow> r1 | JBool x1 \<Rightarrow> r2 x1 | JInt x2 \<Rightarrow> r3 x2 | JFloat x3 \<Rightarrow> r4 x3
       | JStr x4 \<Rightarrow> r5 x4 | JList x5 \<Rightarrow> r6 x5 | JDict x6 \<Rightarrow> r7 x6) =
     (case j of JNull \<Rightarrow> lift_rebuffer b p n r1 | JBool x1 \<Rightarrow> lift_rebuffer b p n (r2 x1)
       | JInt x2 \<Rightarrow> lift_rebuffer b p n (r3 x2) | JFloat x3 \<Rightarrow> lift_rebuffer b p n (r4 x3)
       | JStr x4 \<Rightarrow> lift_rebuffer b p n (r5 x4) | JList x5 \<Rightarrow> lift_rebuffer b p n (r6 x5)
       | JDict x6 \<Rightarrow> lift_rebuffer b p n (r7 x6))"
  by (simp_all split: option.split json.split)

lemmas lift_rebuffer_push = lift_rebuffer_bind lift_rebuffer_if lift_rebuffer_split

lemma handlers_rebuffer:
  "on_response_start (rebuffer b p n dec) pl = lift_rebuffer b p n (on_response_start dec pl)"
  "on_block_start (rebuffer b p n dec) pl = lift_rebuffer b p n (on_block_start dec pl)"
  "on_block_delta (rebuffer b p n dec) pl = lift_rebuffer b p n (on_block_delta dec pl)"
  "on_block_end (rebuffer b p n dec) pl = lift_rebuffer b p n (on_block_end dec pl)"
  "on_state (rebuffer b p n dec) pl = lift_rebuffer b p n (on_state dec pl)"
  "on_response_end (rebuffer b p n dec) pl = lift_rebuffer b p n (on_response_end dec pl)"
  by (simp_all add: handler_defs lift_rebuffer_push rebuffer_updates cong: if_cong option.case_cong json.case_cong)

lemma dispatch_rebuffer:
  "dispatch (rebuffer b p n dec) ev pl = lift_rebuffer b p n (dispatch dec ev pl)"
  by (simp add: dispatch_def handlers_rebuffer)

lemma consume_line_rebuffer:
  "consume_line (rebuffer b p n dec) line = lift_rebuffer b p n (consume_line dec line)"
  by (simp add: consume_line_def dispatch_rebuffer lift_rebuffer_push cong: if_cong option.case_cong json.case_cong)

lemma consume_line_frame:
  assumes "consume_line dec line = Inr (dec', ev)"
  shows "lims dec' = lims dec" "utf8_buffer dec' = utf8_buffer dec" "pending dec' = pending dec"
    "pending_bytes dec' = pending_bytes dec"
proof -
  have "consume_line dec line =
      lift_rebuffer (utf8_buffer dec) (pending dec) (pending_bytes dec) (consume_line dec line)"
    by (metis consume_line_rebuffer rebuffer_id)
  with assms have "rebuffer (utf8_buffer dec) (pending dec) (pending_bytes dec) dec' = dec'"
    by simp
  then show "utf8_buffer dec' = utf8_buffer dec" "pending dec' = pending dec"
    "pending_bytes dec' = pending_bytes dec"
    by (metis rebuffer_simps(2-4))+
  show "lims dec' = lims dec"
    using assms
    by (auto simp: consume_line_def dispatch_def handler_defs res_simps split: if_splits option.splits json.splits)
qed


section \<open>The stream cut into lines\<close>

fun split_nl :: "pystr \<Rightarrow> pystr list \<times> pystr" where
  "split_nl [] = ([], [])"
| "split_nl (c # cs) =
     (case split_nl cs of (ls, r) \<Rightarrow>
        if c = 10 then ([] # ls, r)
        else (case ls of [] \<Rightarrow> ([], c # r) | l # ls' \<Rightarrow> ((c # l) # ls', r)))"

fun consume_lines :: "decoder \<Rightarrow> pystr list \<Rightarrow> (decoder \<times> protocol_event list) res" where
  "consume_lines dec [] = Inr (dec, [])"
| "consume_lines dec (l # ls) =
     bind_res (consume_line dec (removesuffix1 13 l)) (\<lambda>(dec', ev).
     bind_res (consume_lines dec' ls) (\<lambda>(dec'', evs). Inr (dec'', ev # evs)))"

lemma split_nl_plain: "10 \<notin> set p \<Longrightarrow> split_nl p = ([], p)"
  by (induction p) auto

lemma split_nl_line: "10 \<notin> set p \<Longrightarrow> split_nl (p @ 10 # t) = (p # fst (split_nl t), snd (split_nl t))"
  by (induction p) (auto split: prod.split)

lemma split_nl_rest: "10 \<notin> set (snd (split_nl s))"
  by (induction s) (auto split: prod.splits list.splits)

lemma utf8_len_Cons: "utf8_len (c # s) = utf8_len [c] + utf8_len s"
  using utf8_len_append [of "[c]" s] by simp

lemma split_nl_rest_len: "utf8_len (snd (split_nl s)) \<le> utf8_len s"
proof (induction s)
  case (Cons c s)
  then show ?case
    using utf8_len_Cons [of c s] utf8_len_Cons [of c "snd (split_nl s)"]
    by (auto split: prod.splits list.splits)
qed simp

lemma split_nl_append:
  "split_nl (a @ b) =
     (case split_nl a of (la, ra) \<Rightarrow> case split_nl (ra @ b) of (lb, rb) \<Rightarrow> (la @ lb, rb))"
proof (induction a)
  case Nil
  then show ?case by simp
next
  case (Cons x a)
  obtain la ra where a: "split_nl a = (la, ra)" by fastforce
  obtain lb rb where b: "split_nl (ra @ b) = (lb, rb)" by fastforce
  from Cons a b have "split_nl (a @ b) = (la @ lb, rb)" by simp
  with a b show ?case by (cases la; cases lb) auto
qed

lemma consume_lines_append:
  "consume_lines dec (a @ b) =
     bind_res (consume_lines dec a) (\<lambda>(d, evs).
     bind_res (consume_lines d b) (\<lambda>(d', evs'). Inr (d', evs @ evs')))"
proof (induction a arbitrary: dec)
  case Nil
  then show ?case by (cases "consume_lines dec b") auto
next
  case (Cons l ls)
  show ?case
    by (simp add: Cons bind_res_assoc case_prod_unfold)
qed

section \<open>Refinement of the line buffer\<close>

abbreviation core :: "decoder \<Rightarrow> decoder" where
  "core \<equiv> rebuffer [] [] 0"

definition line_buffer :: "decoder \<Rightarrow> bool" where
  "line_buffer dec \<longleftrightarrow> pending_bytes dec = utf8_len (concat (pending dec)) \<and> [] \<notin> set (pending dec)
     \<and> 10 \<notin> set (concat (pending dec))"

lemma take_pending_core:
  "take_pending dec = (concat (pending dec), rebuffer (utf8_buffer dec) [] 0 dec)"
  by (simp add: take_pending_def rebuffer_def)

lemma drain_line:
  assumes "10 \<notin> set p"
  shows "drain_complete_lines dec (p @ 10 # t) =
    bind_res (consume_line (core dec) (removesuffix1 13 (concat (pending dec) @ p))) (\<lambda>(d, ev).
    bind_res (drain_complete_lines (rebuffer (utf8_buffer dec) [] 0 d) t) (\<lambda>(d', evs). Inr (d', ev # evs)))"
proof -
  let ?l = "removesuffix1 13 (concat (pending dec) @ p)"
  have tw: "takeWhile (\<lambda>c. c \<noteq> 10) (p @ 10 # t) = p" "dropWhile (\<lambda>c. c \<noteq> 10) (p @ 10 # t) = 10 # t"
    using assms by (induction p) auto
  have "consume_line (rebuffer (utf8_buffer dec) [] 0 dec) ?l
      = lift_rebuffer (utf8_buffer dec) [] 0 (consume_line (core dec) ?l)"
    by (metis consume_line_rebuffer rebuffer_twice)
  then show ?thesis
    unfolding drain_complete_lines.simps [of dec "p @ 10 # t"]
    by (cases "consume_line (core dec) ?l")
      (auto simp: tw take_pending_core rebuffer_def)
qed

lemma drain_rest:
  assumes "10 \<notin> set t"
  shows "drain_complete_lines dec t =
    (if t = [] then Inr (dec, [])
     else if max_line_bytes (lims dec) < pending_bytes dec + utf8_len t then Inl ''event_too_large''
     else Inr (dec\<lparr>pending := pending dec @ [t], pending_bytes := pending_bytes dec + utf8_len t\<rparr>, []))"
  using assms by (simp add: drain_complete_lines.simps [of dec t] Let_def)


lemma newline_induct [consumes 0, case_names rest line]:
  assumes "\<And>t dec. 10 \<notin> set t \<Longrightarrow> P dec t"
    and "\<And>p t dec. 10 \<notin> set p \<Longrightarrow> (\<And>d. P d t) \<Longrightarrow> P dec (p @ 10 # t)"
  shows "P (dec :: 'a) (t :: pystr)"
proof (induction "length t" arbitrary: dec t rule: less_induct)
  case less
  show ?case
  proof (cases "10 \<in> set t")
    case True
    then obtain p r where t: "t = p @ 10 # r" "10 \<notin> set p" by (metis split_list_first)
    with less show ?thesis by (auto intro: assms(2))
  qed (rule assms(1))
qed

lemma line_buffer_empty [simp]: "line_buffer (rebuffer b [] 0 d)"
  by (simp add: line_buffer_def utf8_len_def utf8_encode_def)

lemma drain_refines:
  assumes "line_buffer dec" "drain_complete_lines dec t = Inr (dec', evs)"
    and "split_nl (concat (pending dec) @ t) = (ls, q)"
  shows "consume_lines (core dec) ls = Inr (core dec', evs) \<and> concat (pending dec') = q
     \<and> line_buffer dec' \<and> utf8_buffer dec' = utf8_buffer dec \<and> lims dec' = lims dec"
  using assms
proof (induction dec t arbitrary: ls q evs rule: newline_induct)
  case (rest t dec)
  then have "ls = []" "q = concat (pending dec) @ t"
    by (simp_all add: line_buffer_def split_nl_plain)
  with rest show ?case
    by (auto simp: drain_rest line_buffer_def rebuffer_def split: if_splits)
next
  case (line p t dec)
  let ?l = "concat (pending dec) @ p"
  have "split_nl (concat (pending dec) @ p @ 10 # t) = (?l # fst (split_nl t), snd (split_nl t))"
    using split_nl_line [of ?l t] line.hyps line.prems(1) by (simp add: line_buffer_def)
  then have ls: "ls = ?l # fst (split_nl t)" and q: "q = snd (split_nl t)"
    using line.prems(3) by auto
  from line.prems(2) obtain d ev es where
    c: "consume_line (core dec) (removesuffix1 13 ?l) = Inr (d, ev)" and
    r: "drain_complete_lines (rebuffer (utf8_buffer dec) [] 0 d) t = Inr (dec', es)" and
    e: "evs = ev # es"
    by (auto simp: drain_line [OF line.hyps] res_simps)
  have "core d = d"
    using consume_line_frame [OF c] by (metis rebuffer_id rebuffer_simps(2-4))
  with line.IH [OF _ r, of "fst (split_nl t)" "snd (split_nl t)"] c consume_line_frame(1) [OF c] show ?case by (auto simp: ls q e)
qed

lemma drain_complete:
  assumes "line_buffer dec" "split_nl (concat (pending dec) @ t) = (ls, q)"
  shows "(\<exists>dec' evs. drain_complete_lines dec t = Inr (dec', evs))
     \<or> (drain_complete_lines dec t = Inl ''event_too_large''
          \<and> max_line_bytes (lims dec) < utf8_len (concat (pending dec) @ t))
     \<or> (\<exists>e. drain_complete_lines dec t = Inl e \<and> consume_lines (core dec) ls = Inl e)"
  using assms
proof (induction dec t arbitrary: ls q rule: newline_induct)
  case (rest t dec)
  then show ?case by (auto simp: drain_rest line_buffer_def)
next
  case (line p t dec)
  let ?l = "concat (pending dec) @ p"
  have "split_nl (concat (pending dec) @ p @ 10 # t) = (?l # fst (split_nl t), snd (split_nl t))"
    using split_nl_line [of ?l t] line.hyps line.prems(1) by (simp add: line_buffer_def)
  then have ls: "ls = ?l # fst (split_nl t)"
    using line.prems(2) by auto
  show ?case
  proof (cases "consume_line (core dec) (removesuffix1 13 ?l)")
    case (Inl e)
    then show ?thesis by (simp add: ls drain_line [OF line.hyps])
  next
    case (Inr x)
    then obtain d ev where c: "consume_line (core dec) (removesuffix1 13 ?l) = Inr (d, ev)"
      by (cases x) auto
    have "core d = d"
      using consume_line_frame [OF c] by (metis rebuffer_id rebuffer_simps(2-4))
    moreover have "utf8_len t \<le> utf8_len (10 # t)"
      using utf8_len_append [of "[10]" t] by simp
    ultimately show ?thesis
      using line.IH [of "rebuffer (utf8_buffer dec) [] 0 d" "fst (split_nl t)" "snd (split_nl t)"] c
        consume_line_frame(1) [OF c]
      by (auto simp: ls drain_line [OF line.hyps])
  qed
qed


section \<open>The whole response\<close>

definition lines_of :: "pystr \<Rightarrow> pystr list" where
  "lines_of s = (case split_nl s of (ls, q) \<Rightarrow> if q = [] then ls else ls @ [q])"

lemma lines_of_append: "split_nl a = (la, ra) \<Longrightarrow> lines_of (a @ b) = la @ lines_of (ra @ b)"
  by (simp add: lines_of_def split_nl_append [of a b] split: prod.split)

lemma lines_of_nonempty: "s \<noteq> [] \<Longrightarrow> lines_of s \<noteq> []"
  by (cases s) (auto simp: lines_of_def split: prod.splits list.splits)

definition conclude :: "decoder \<Rightarrow> protocol_document res" where
  "conclude d =
     (if \<not> completed d then Inl ''incomplete_response''
      else
        (case state d of
           None \<Rightarrow> Inl ''missing_state''
         | Some st \<Rightarrow> bind_res (visible_blocks d) (\<lambda>bs. Inr \<lparr>doc_blocks = bs, doc_state = st\<rparr>)))"

lemma conclude_core [simp]: "conclude (rebuffer b p n d) = conclude d"
  by (simp add: conclude_def visible_blocks_def split: option.split)

lemma finish_conclude:
  assumes "line_buffer dec"
  shows "finish dec =
    (if utf8_buffer dec \<noteq> [] then Inl ''invalid_utf8''
     else bind_res (consume_lines (core dec)
       (if concat (pending dec) = [] then [] else [concat (pending dec)])) (\<lambda>(d, _). conclude d))"
proof -
  have p: "pending dec = [] \<longleftrightarrow> concat (pending dec) = []"
    using assms by (cases "pending dec") (auto simp: line_buffer_def)
  have c: "consume_line (rebuffer b [] 0 dec) l = lift_rebuffer b [] 0 (consume_line (core dec) l)" for b l
    by (metis consume_line_rebuffer rebuffer_twice)
  have f: "finish dec = (if utf8_buffer dec \<noteq> [] then Inl ''invalid_utf8''
      else bind_res (if pending dec \<noteq> [] then
         bind_res (consume_line (rebuffer (utf8_buffer dec) [] 0 dec) (removesuffix1 13 (concat (pending dec))))
           (\<lambda>(d, _). Inr d) else Inr dec) conclude)"
    unfolding finish_def conclude_def [abs_def] take_pending_core prod.case by (rule refl)
  show ?thesis
    unfolding f c [of "utf8_buffer dec"] p
    by (cases "consume_line (core dec) (removesuffix1 13 (concat (pending dec)))")
      (simp_all split: prod.split)
qed

lemma feed_all_refines:
  assumes "line_buffer dec" "utf8_decode (utf8_buffer dec) = Some ([], utf8_buffer dec)"
    and "feed_all dec cs = Inr (dec', evs)"
  shows "\<exists>t. utf8_decode (utf8_buffer dec @ concat cs) = Some (t, utf8_buffer dec')
    \<and> line_buffer dec'
    \<and> (case split_nl (concat (pending dec) @ t) of (ls, q) \<Rightarrow>
         consume_lines (core dec) ls = Inr (core dec', evs) \<and> concat (pending dec') = q)"
  using assms
proof (induction cs arbitrary: dec evs)
  case Nil
  then show ?case by (auto simp: line_buffer_def split_nl_plain)
next
  case (Cons c cs)
  from Cons.prems(3) obtain d1 e1 e2 where
    f: "feed dec c = Inr (d1, e1)" and r: "feed_all d1 cs = Inr (dec', e2)" and e: "evs = e1 @ e2"
    by (auto simp: res_simps)
  from f obtain t1 b1 where
    u: "utf8_decode (utf8_buffer dec @ c) = Some (t1, b1)" and
    dr: "drain_complete_lines (dec\<lparr>utf8_buffer := b1\<rparr>) t1 = Inr (d1, e1)"
    by (auto simp: feed_def utf8_feed_def split: if_splits option.splits)
  obtain l1 q1 where s1: "split_nl (concat (pending dec) @ t1) = (l1, q1)" by fastforce
  have "line_buffer (dec\<lparr>utf8_buffer := b1\<rparr>)" "core (dec\<lparr>utf8_buffer := b1\<rparr>) = core dec"
    using Cons.prems(1) by (simp_all add: line_buffer_def rebuffer_def)
  with drain_refines [OF _ dr] s1 have d1:
    "consume_lines (core dec) l1 = Inr (core d1, e1)" "concat (pending d1) = q1" "line_buffer d1"
    "utf8_buffer d1 = b1"
    by auto
  from Cons.IH [OF d1(3) _ r] utf8_decode_rest [OF u] d1 obtain t2 where
    t2: "utf8_decode (b1 @ concat cs) = Some (t2, utf8_buffer dec')" "line_buffer dec'"
    "case split_nl (q1 @ t2) of (ls, q) \<Rightarrow>
       consume_lines (core d1) ls = Inr (core dec', e2) \<and> concat (pending dec') = q"
    by auto
  have "split_nl (concat (pending dec) @ t1 @ t2) =
      (case split_nl (q1 @ t2) of (lb, rb) \<Rightarrow> (l1 @ lb, rb))"
    using split_nl_append [of "concat (pending dec) @ t1" t2] s1 by simp
  with t2 d1 utf8_decode_append [OF u, of "concat cs"] show ?case
    by (auto simp: e consume_lines_append split: prod.splits)
qed

lemma consume_line_completed: "completed dec \<Longrightarrow> \<exists>e. consume_line dec l = Inl e"
  by (simp add: consume_line_def)

lemma feed_all_complete:
  assumes "line_buffer dec" "utf8_decode (utf8_buffer dec) = Some ([], utf8_buffer dec)"
    and "utf8_decode (utf8_buffer dec @ concat cs) = Some (t, [])"
    and "consume_lines (core dec) (lines_of (concat (pending dec) @ t)) = Inr r"
  shows "(\<exists>dec' evs. feed_all dec cs = Inr (dec', evs))
    \<or> (feed_all dec cs = Inl ''event_too_large''
         \<and> max_line_bytes (lims dec) < utf8_len (concat (pending dec) @ t))"
  using assms
proof (induction cs arbitrary: dec t r)
  case Nil
  then show ?case by simp
next
  case (Cons c cs)
  have open_dec: "\<not> (completed dec \<and> c \<noteq> [])"
  proof
    assume a: "completed dec \<and> c \<noteq> []"
    with Cons.prems(3) have "t \<noteq> []" by (auto dest: utf8_decode_empty)
    then obtain l ls where "lines_of (concat (pending dec) @ t) = l # ls"
      using lines_of_nonempty by (metis append_is_Nil_conv neq_Nil_conv)
    with a Cons.prems(4) consume_line_completed [of "core dec" "removesuffix1 13 l"] show False
      by auto
  qed
  have "utf8_decode (utf8_buffer dec @ c) \<noteq> None"
    using Cons.prems(3) utf8_decode_None_append [of "utf8_buffer dec @ c" "concat cs"]
    by (auto simp del: not_None_eq)
  then obtain t1 b1 where u: "utf8_decode (utf8_buffer dec @ c) = Some (t1, b1)"
    by (cases "utf8_decode (utf8_buffer dec @ c)") auto
  with Cons.prems(3) utf8_decode_append [OF u, of "concat cs"] obtain t2 where
    t2: "utf8_decode (b1 @ concat cs) = Some (t2, [])" "t = t1 @ t2"
    by (cases "utf8_decode (b1 @ concat cs)") auto
  let ?d = "dec\<lparr>utf8_buffer := b1\<rparr>"
  have d: "line_buffer ?d" "core ?d = core dec"
    using Cons.prems(1) by (simp_all add: line_buffer_def rebuffer_def)
  obtain l1 q1 where s1: "split_nl (concat (pending dec) @ t1) = (l1, q1)" by fastforce
  from Cons.prems(4) obtain d' ev' where
    c1: "consume_lines (core dec) l1 = Inr (d', ev')" and
    c2: "\<exists>r. consume_lines d' (lines_of (q1 @ t2)) = Inr r"
    using lines_of_append [OF s1, of t2] t2(2)
    by (auto simp: consume_lines_append res_simps)
  from drain_complete [OF d(1), of t1] s1 c1 d(2) consider
      (ok) dec1 evs1 where "drain_complete_lines ?d t1 = Inr (dec1, evs1)"
    | (big) "drain_complete_lines ?d t1 = Inl ''event_too_large''"
        "max_line_bytes (lims dec) < utf8_len (concat (pending dec) @ t1)"
    by auto
  then show ?case
  proof cases
    case ok
    with drain_refines [OF d(1) ok] s1 c1 d(2) have
      "core dec1 = d'" "concat (pending dec1) = q1" "line_buffer dec1" "utf8_buffer dec1 = b1"
      "lims dec1 = lims dec"
      by auto
    moreover have "utf8_len q1 \<le> utf8_len (concat (pending dec) @ t1)"
      using split_nl_rest_len [of "concat (pending dec) @ t1"] s1 by simp
    ultimately show ?thesis
      using Cons.IH [of dec1 t2] t2 c2 utf8_decode_rest [OF u] ok open_dec u
      by (auto simp: feed_def utf8_feed_def)
  qed (use u open_dec t2 in \<open>auto simp: feed_def utf8_feed_def\<close>)
qed


definition decode_whole :: "limits \<Rightarrow> bytes \<Rightarrow> protocol_document res" where
  "decode_whole lm bs =
     (case new_decoder lm of
        None \<Rightarrow> Inl ''ValueError''
      | Some dec \<Rightarrow>
          (case utf8_decode bs of
             Some (s, []) \<Rightarrow> bind_res (consume_lines dec (lines_of s)) (\<lambda>(d, _). conclude d)
           | _ \<Rightarrow> Inl ''invalid_utf8''))"

lemma new_decoder_buffer:
  assumes "new_decoder lm = Some dec"
  shows "line_buffer dec" "utf8_buffer dec = []" "pending dec = []" "core dec = dec"
  using assms by (auto simp: new_decoder_def line_buffer_def rebuffer_def utf8_len_def utf8_encode_def split: if_splits)

lemma new_decoder_lims: "new_decoder lm = Some dec \<Longrightarrow> lims dec = lm"
  by (auto simp: new_decoder_def split: if_splits)

lemma lines_of_split: "split_nl s = (ls, q) \<Longrightarrow> lines_of s = ls @ (if q = [] then [] else [q])"
  by (simp add: lines_of_def)

lemma decode_sound:
  assumes "decode_response lm cs = Inr doc"
  shows "decode_whole lm (concat cs) = Inr doc"
proof -
  from assms obtain dec dec' evs where
    n: "new_decoder lm = Some dec" and f: "feed_all dec cs = Inr (dec', evs)" and
    fin: "finish dec' = Inr doc"
    by (auto simp: decode_response_def res_simps split: option.splits)
  note i = new_decoder_buffer [OF n]
  from feed_all_refines [OF i(1) _ f] i obtain t where
    t: "utf8_decode (concat cs) = Some (t, utf8_buffer dec')" "line_buffer dec'"
    "case split_nl t of (ls, q) \<Rightarrow> consume_lines dec ls = Inr (core dec', evs) \<and> concat (pending dec') = q"
    by auto
  obtain ls q where s: "split_nl t = (ls, q)" by fastforce
  from fin have b: "utf8_buffer dec' = []"
    by (simp add: finish_def split: if_splits)
  from fin t s b show ?thesis
    by (auto simp: decode_whole_def n finish_conclude lines_of_split [OF s] consume_lines_append
        bind_res_assoc case_prod_unfold split: if_splits)
qed

lemma decode_complete:
  assumes "decode_whole lm (concat cs) = Inr doc"
  shows "decode_response lm cs = Inr doc
    \<or> (decode_response lm cs = Inl ''event_too_large'' \<and> max_line_bytes lm < length (concat cs))"
proof -
  from assms obtain dec t d evs where
    n: "new_decoder lm = Some dec" and u: "utf8_decode (concat cs) = Some (t, [])" and
    c: "consume_lines dec (lines_of t) = Inr (d, evs)" and d: "conclude d = Inr doc"
    by (auto simp: decode_whole_def res_simps split: option.splits list.splits)
  note i = new_decoder_buffer [OF n]
  from feed_all_complete [OF i(1), of cs t] u c i consider
      (ok) dec' evs' where "feed_all dec cs = Inr (dec', evs')"
    | (big) "feed_all dec cs = Inl ''event_too_large''" "max_line_bytes (lims dec) < utf8_len t"
    by auto
  then show ?thesis
  proof cases
    case ok
    from feed_all_refines [OF i(1) _ ok] i u have
      t: "utf8_buffer dec' = []" "line_buffer dec'"
      "case split_nl t of (ls, q) \<Rightarrow> consume_lines dec ls = Inr (core dec', evs') \<and> concat (pending dec') = q"
      by auto
    obtain ls q where s: "split_nl t = (ls, q)" by fastforce
    have "finish dec' = Inr doc"
      using t s c d
      by (auto simp: finish_conclude lines_of_split [OF s] consume_lines_append res_simps
          split: if_splits)
    with ok n show ?thesis by (simp add: decode_response_def)
  qed (use n utf8_decode_len [OF u] new_decoder_lims [OF n] in \<open>simp add: decode_response_def\<close>)
qed

end
