(* ===== verification/Protocol_Invariant.thy ===== *)
theory Protocol_Invariant
  imports Protocol_Stream
begin

text \<open>
  What a decoded response is worth: the validators of \<^verbatim>\<open>protocol.py\<close> characterised, the
  invariant that every handler of the decoder keeps, and the guarantees that a finished
  document carries into the rest of the program.
\<close>

section \<open>Well-formed documents\<close>

definition block_types_ok :: "block_type list \<Rightarrow> bool" where
  "block_types_ok ts \<longleftrightarrow> ts = [Conversation] \<or>
     (\<exists>n. ts = replicate (Suc n) Deliverable \<or> ts = replicate (Suc n) Deliverable @ [Advice])"

definition blocks_ok :: "nat \<Rightarrow> nat \<Rightarrow> content_block list \<Rightarrow> bool" where
  "blocks_ok mb mc bs \<longleftrightarrow> length bs \<le> mb \<and> sum_list (map (\<lambda>b. length (block_text b)) bs) \<le> mc
     \<and> (\<forall>b\<in>set bs. \<not> blank (block_text b)) \<and> block_types_ok (map block_type bs)"

definition brief_ok :: "limits \<Rightarrow> brief \<Rightarrow> bool" where
  "brief_ok lm b \<longleftrightarrow> b \<noteq> [] \<and> utf8_len (dump esc (JDict b)) \<le> max_brief_bytes lm"

definition docx_blocks_ok :: "limits \<Rightarrow> docx_block_replacement list \<Rightarrow> bool" where
  "docx_blocks_ok lm bs \<longleftrightarrow> bs \<noteq> [] \<and> length bs \<le> max_docx_blocks lm
     \<and> map repl_id bs = map docx_block_id [1..<Suc (length bs)]"

definition source_anchors :: "exact_replacement list \<Rightarrow> pystr list" where
  "source_anchors rs = concat (map (\<lambda>r. case r of SourceOutputReplacement sa sr oa orp \<Rightarrow> [sa]
                                              | OutputReplacement oa orp \<Rightarrow> []) rs)"

definition replacement_texts :: "exact_replacement list \<Rightarrow> pystr list" where
  "replacement_texts rs =
     concat (map (\<lambda>r. case r of SourceOutputReplacement sa sr oa orp \<Rightarrow> [oa, orp, sa, sr]
                              | OutputReplacement oa orp \<Rightarrow> [oa, orp]) rs)"

definition replacements_ok :: "exact_replacement list \<Rightarrow> bool" where
  "replacements_ok rs \<longleftrightarrow> distinct (map output_anchor rs) \<and> distinct (source_anchors rs)
     \<and> [] \<notin> set (map output_anchor rs) \<and> [] \<notin> set (source_anchors rs)"

definition version_ok :: "int \<Rightarrow> bool" where
  "version_ok v \<longleftrightarrow> 1 \<le> v \<and> v < 2 ^ 31"

fun state_texts :: "state_operation \<Rightarrow> pystr list" where
  "state_texts NoState = []"
| "state_texts (EstablishState b s d) = given s @ docx_texts d"
| "state_texts (AppendState v sa ss os oa b) = sa # given oa"
| "state_texts (ReplaceState v rs b d) = replacement_texts rs @ docx_texts d"
| "state_texts (FullState v s b d) = given s @ docx_texts d"

fun state_fields_ok :: "limits \<Rightarrow> state_operation \<Rightarrow> bool" where
  "state_fields_ok lm NoState = True"
| "state_fields_ok lm (EstablishState b s d) =
     (brief_ok lm b \<and> pred_option (\<lambda>t. \<not> blank t) s \<and> pred_option (docx_blocks_ok lm) d)"
| "state_fields_ok lm (AppendState v sa ss os oa b) =
     (version_ok v \<and> \<not> blank sa \<and> pred_option (\<lambda>t. \<not> blank t) oa \<and> pred_option (brief_ok lm) b)"
| "state_fields_ok lm (ReplaceState v rs b d) =
     (version_ok v \<and> rs \<noteq> [] \<and> length rs \<le> max_replacements lm \<and> replacements_ok rs
      \<and> pred_option (brief_ok lm) b \<and> pred_option (docx_blocks_ok lm) d)"
| "state_fields_ok lm (FullState v s b d) =
     (version_ok v \<and> pred_option (\<lambda>t. \<not> blank t) s \<and> pred_option (brief_ok lm) b
      \<and> pred_option (docx_blocks_ok lm) d)"

definition state_ok :: "limits \<Rightarrow> state_operation \<Rightarrow> bool" where
  "state_ok lm st \<longleftrightarrow> state_fields_ok lm st
     \<and> sum_list (map length (state_texts st)) \<le> max_state_text_chars lm"

definition document_ok :: "limits \<Rightarrow> protocol_document \<Rightarrow> bool" where
  "document_ok lm d \<longleftrightarrow> blocks_ok (max_blocks lm) (max_text_chars lm) (doc_blocks d)
     \<and> state_ok lm (doc_state d)
     \<and> (map block_type (doc_blocks d) = [Conversation] \<longrightarrow> doc_state d = NoState)"

section \<open>The validators establish it\<close>

lemma block_order_iff:
  "block_order a ts \<longleftrightarrow> (if a then ts = [] else \<exists>n. ts = replicate n Deliverable \<or> ts = replicate n Deliverable @ [Advice])"
proof (induction a ts rule: block_order.induct)
  case (2 a t ts)
  have n: "(\<exists>n. P (Suc n) \<or> Q (Suc n)) \<or> P 0 \<or> Q 0 \<longleftrightarrow> (\<exists>n. P n \<or> Q n)" for P Q
    by (metis nat.exhaust)
  show ?case
    using 2 n [of "\<lambda>n. t # ts = replicate n Deliverable" "\<lambda>n. t # ts = replicate n Deliverable @ [Advice]"]
    by (auto split: block_type.splits if_splits)
qed (auto intro: exI [of _ 0])

lemma block_types_ok_iff:
  "block_types_ok ts \<longleftrightarrow> ts = [Conversation] \<or> (ts \<noteq> [] \<and> hd ts = Deliverable \<and> block_order False ts)"
proof -
  have "(\<exists>n. ts = replicate (Suc n) Deliverable \<or> ts = replicate (Suc n) Deliverable @ [Advice])
    \<longleftrightarrow> (ts \<noteq> [] \<and> hd ts = Deliverable \<and> block_order False ts)"
    unfolding block_order_iff
    by (auto simp: hd_append) (metis list.sel(1) replicate.simps(1) replicate_Suc append_Nil block_type.distinct(5) gr0_conv_Suc neq0_conv)+
  then show ?thesis by (auto simp: block_types_ok_def)
qed

lemma collect_blocks_iff:
  "collect_blocks mc n cs = Inr bs \<longleftrightarrow>
     list_all2 (\<lambda>c b. candidate_block c = Inr b) cs bs \<and> (\<forall>b\<in>set bs. \<not> blank (block_text b))
     \<and> (bs \<noteq> [] \<longrightarrow> n + sum_list (map (\<lambda>b. length (block_text b)) bs) \<le> mc)"
proof (induction cs arbitrary: n bs)
  case (Cons c cs)
  show ?case
    by (cases bs; cases "candidate_block c") (auto simp: res_simps Cons split: if_splits)
qed auto

lemma validate_content_blocks_iff:
  "validate_content_blocks mb mc cs = Inr bs \<longleftrightarrow>
     list_all2 (\<lambda>c b. candidate_block c = Inr b) cs bs \<and> blocks_ok mb mc bs"
proof -
  have "block_types_ok [] = False" by (simp add: block_types_ok_def)
  then show ?thesis
    unfolding validate_content_blocks_def blocks_ok_def block_types_ok_iff Let_def
    by (auto simp: res_simps collect_blocks_iff list_all2_lengthD split: if_splits)
qed

lemma candidates_of_blocks:
  "list_all2 (\<lambda>c b. candidate_block c = Inr b) (map Block bs) bs' \<longleftrightarrow> bs' = bs"
  by (induction bs arbitrary: bs') (auto simp: candidate_block_def list_all2_Cons1)

lemma visible_blocks_iff:
  "visible_blocks dec = Inr bs \<longleftrightarrow>
     bs = blocks dec \<and> blocks_ok (max_blocks (lims dec)) (max_text_chars (lims dec)) bs"
  by (auto simp: visible_blocks_def validate_content_blocks_iff candidates_of_blocks)


section \<open>State operations\<close>

lemma validated_text_Inr:
  "validated_text e w v = Inr s \<longleftrightarrow> v = Some (JStr s) \<and> (e \<or> s \<noteq> []) \<and> (w \<longrightarrow> \<not> blank s)"
  by (auto simp: validated_text_def split: option.splits json.splits if_splits)

lemma validated_base_version_Inr:
  "validated_base_version v = Inr i \<longleftrightarrow> v = Some (JInt i) \<and> version_ok i"
  by (auto simp: validated_base_version_def version_ok_def split: option.splits json.splits if_splits)

lemma validated_brief_Inr: "validated_brief (max_brief_bytes lm) v = Inr b \<Longrightarrow> brief_ok lm b"
  by (auto simp: validated_brief_def brief_ok_def res_simps split: option.splits json.splits if_splits)

lemma optional_Inr:
  assumes "optional pl k f = Inr r" "\<And>v x. f v = Inr x \<Longrightarrow> P x"
  shows "pred_option P r"
  using assms by (auto simp: optional_def res_simps split: if_splits)

lemma docx_candidates_ids:
  "docx_candidates i cs = Inr bs \<Longrightarrow> length bs = length cs \<and> map repl_id bs = map docx_block_id [i..<i + length cs]"
proof (induction cs arbitrary: i bs)
  case (Cons c cs)
  from Cons.prems obtain t rest where
    r: "docx_candidates (Suc i) cs = Inr rest" "bs = \<lparr>repl_id = docx_block_id i, repl_text = t\<rparr> # rest"
    by (auto simp: res_simps split: json.splits option.splits if_splits)
  with Cons.IH [OF r(1)] show ?case by (simp add: upt_conv_Cons del: upt_Suc)
qed simp

lemma validated_docx_blocks_Inr: "validated_docx_blocks lm v = Inr bs \<Longrightarrow> docx_blocks_ok lm bs"
  by (auto simp: validated_docx_blocks_def docx_blocks_ok_def dest!: docx_candidates_ids
      split: option.splits json.splits if_splits)

lemma paired_keys_differ [simp]: "paired_keys \<noteq> output_keys" "output_keys \<noteq> paired_keys"
proof -
  have "lit ''source_anchor'' \<in> paired_keys" "lit ''source_anchor'' \<notin> output_keys"
    by (auto simp: paired_keys_def output_keys_def)
  then show "paired_keys \<noteq> output_keys" "output_keys \<noteq> paired_keys" by auto
qed

lemma decode_replacements_ok:
  assumes "decode_replacements ss so raws = Inr (rs, texts)"
  shows "length rs = length raws \<and> texts = replacement_texts rs \<and> replacements_ok rs
     \<and> set (map output_anchor rs) \<inter> so = {} \<and> set (source_anchors rs) \<inter> ss = {}"
  using assms
proof (induction raws arbitrary: ss so rs texts)
  case Nil
  then show ?case by (simp add: replacements_ok_def replacement_texts_def source_anchors_def)
next
  case (Cons raw raws)
  from Cons.prems obtain m where raw: "raw = JDict m" by (auto split: json.splits)
  show ?case
  proof (cases "fst ` set m = output_keys")
    case True
    with Cons.prems raw obtain oa orp rs' texts' where
      f: "oa \<noteq> []" "oa \<notin> so" and r: "decode_replacements ss (insert oa so) raws = Inr (rs', texts')" and
      rs: "rs = OutputReplacement oa orp # rs'" "texts = oa # orp # texts'"
      by (auto simp: res_simps validated_text_Inr split: if_splits)
    from Cons.IH [OF r] f rs show ?thesis
      by (auto simp: replacements_ok_def replacement_texts_def source_anchors_def)
  next
    case False
    with Cons.prems raw obtain oa orp sa sr rs' texts' where
      f: "oa \<noteq> []" "oa \<notin> so" "sa \<noteq> []" "sa \<notin> ss" and
      r: "decode_replacements (insert sa ss) (insert oa so) raws = Inr (rs', texts')" and
      rs: "rs = SourceOutputReplacement sa sr oa orp # rs'" "texts = oa # orp # sa # sr # texts'"
      by (auto simp: res_simps validated_text_Inr split: if_splits)
    from Cons.IH [OF r] f rs show ?thesis
      by (auto simp: replacements_ok_def replacement_texts_def source_anchors_def)
  qed
qed

lemma validate_state_size_Inr:
  "validate_state_size lm ts = Inr u \<longleftrightarrow> sum_list (map length ts) \<le> max_state_text_chars lm"
  by (simp add: validate_state_size_def res_simps)

lemmas state_field_rules =
  optional_Inr [OF _ validated_brief_Inr] optional_Inr [OF _ validated_docx_blocks_Inr]
  validated_brief_Inr

lemma optional_text_Inr:
  "optional pl k (validated_text False True) = Inr r \<Longrightarrow> pred_option (\<lambda>t. \<not> blank t) r"
  by (rule optional_Inr) (auto simp: validated_text_Inr)

lemma decode_state_ok:
  assumes "decode_state lm payload = Inr st"
  shows "state_ok lm st"
proof -
  from assms consider "st = NoState" | "decode_establish lm payload = Inr st"
    | "decode_append lm payload = Inr st" | "decode_replace lm payload = Inr st"
    | "decode_full lm payload = Inr st"
    by (auto simp: decode_state_def res_simps split: option.splits json.splits if_splits)
  then show ?thesis
  proof cases
    case 1
    then show ?thesis by (simp add: state_ok_def)
  next
    case 2
    then show ?thesis
      by (auto simp: decode_establish_def res_simps state_ok_def validate_state_size_Inr
          intro: state_field_rules optional_text_Inr)
  next
    case 3
    then show ?thesis
      by (auto simp: decode_append_def res_simps state_ok_def validate_state_size_Inr
          validated_base_version_Inr validated_text_Inr intro: state_field_rules optional_text_Inr)
  next
    case 4
    obtain raws where raws: "get payload ''replacements'' = Some (JList raws)"
      using 4 unfolding decode_replace_def bind_res_eq_Inr
      by (cases "get payload ''replacements''"; cases "the (get payload ''replacements'')") simp_all
    from 4 obtain base rs texts brief docx where
      "version_ok base" "raws \<noteq> []" "length raws \<le> max_replacements lm"
      "decode_replacements {} {} raws = Inr (rs, texts)"
      "optional payload ''brief'' (validated_brief (max_brief_bytes lm)) = Inr brief"
      "optional payload ''docx_blocks'' (validated_docx_blocks lm) = Inr docx"
      "sum_list (map length (texts @ docx_texts docx)) \<le> max_state_text_chars lm"
      "st = ReplaceState base rs brief docx"
      by (auto simp: decode_replace_def raws res_simps validate_state_size_Inr
          validated_base_version_Inr split: if_splits)
    with decode_replacements_ok [of "{}" "{}" raws rs texts] show ?thesis
      by (auto simp: state_ok_def intro: state_field_rules)
  next
    case 5
    then show ?thesis
      by (auto simp: decode_full_def res_simps state_ok_def validate_state_size_Inr
          validated_base_version_Inr intro: state_field_rules optional_text_Inr)
  qed
qed

section \<open>The decoder invariant\<close>

definition decoder_inv :: "decoder \<Rightarrow> bool" where
  "decoder_inv d \<longleftrightarrow>
     (state_seen d \<longleftrightarrow> state d \<noteq> None) \<and> (completed d \<longrightarrow> state_seen d)
     \<and> length (blocks d) \<le> max_blocks (lims d)
     \<and> (active_id d \<noteq> None \<longrightarrow> length (blocks d) < max_blocks (lims d) \<and> \<not> state_seen d)
     \<and> total_chars d = sum_list (map (\<lambda>b. length (block_text b)) (blocks d)) + length (concat (active_parts d))
     \<and> total_chars d \<le> max_text_chars (lims d)
     \<and> (active_id d = None \<longrightarrow> active_parts d = [])
     \<and> (\<forall>b\<in>set (blocks d). \<not> blank (block_text b))
     \<and> (\<forall>st. state d = Some st \<longrightarrow> document_ok (lims d) \<lparr>doc_blocks = blocks d, doc_state = st\<rparr>)"

lemma decoder_inv_new: "new_decoder lm = Some d \<Longrightarrow> decoder_inv d"
  by (auto simp: new_decoder_def decoder_inv_def split: if_splits)

lemma on_state_inv:
  assumes "on_state d pl = Inr (d', ev)" "decoder_inv d"
  shows "decoder_inv d'"
proof -
  from assms(1) obtain st where st: "active_id d = None" "decode_state (lims d) pl = Inr st"
    "blocks_ok (max_blocks (lims d)) (max_text_chars (lims d)) (blocks d)"
    "d' = d\<lparr>state := Some st, state_seen := True\<rparr>" "block_type (hd (blocks d)) = Conversation \<longrightarrow> st = NoState"
    by (auto simp: on_state_def res_simps visible_blocks_iff split: if_splits)
  have "document_ok (lims d) \<lparr>doc_blocks = blocks d, doc_state = st\<rparr>"
    using st decode_state_ok [OF st(2)] by (auto simp: document_ok_def)
  with assms(2) st(1,4) show ?thesis by (auto simp: decoder_inv_def)
qed

lemma dispatch_inv:
  assumes "dispatch d e pl = Inr (d', ev)" "decoder_inv d"
  shows "decoder_inv d'"
proof -
  note splits = if_splits option.splits json.splits
  from assms(1) consider
      "on_response_start d pl = Inr (d', ev)"
    | "on_block_start d pl = Inr (d', ev)" "\<not> state_seen d" | "on_block_delta d pl = Inr (d', ev)" "\<not> state_seen d"
    | "on_block_end d pl = Inr (d', ev)" "\<not> state_seen d" | "on_state d pl = Inr (d', ev)"
    | "on_response_end d pl = Inr (d', ev)"
    by (auto simp: dispatch_def split: if_splits)
  then show ?thesis
  proof cases
    case 1
    with assms(2) show ?thesis
      by (auto simp: on_response_start_def res_simps decoder_inv_def split: splits)
  next
    case 2
    with assms(2) show ?thesis
      by (auto simp: on_block_start_def res_simps decoder_inv_def split: splits)
  next
    case 3
    with assms(2) show ?thesis
      by (auto simp: on_block_delta_def res_simps decoder_inv_def split: splits)
  next
    case 4
    with assms(2) show ?thesis
      by (auto simp: on_block_end_def res_simps decoder_inv_def split: splits)
  next
    case 5
    then show ?thesis using assms(2) by (rule on_state_inv)
  next
    case 6
    with assms(2) show ?thesis
      by (auto simp: on_response_end_def res_simps decoder_inv_def split: splits)
  qed
qed

lemma consume_line_inv: "consume_line d l = Inr (d', ev) \<Longrightarrow> decoder_inv d \<Longrightarrow> decoder_inv d'"
  by (auto simp: consume_line_def res_simps split: if_splits option.splits json.splits intro: dispatch_inv)

lemma consume_lines_inv:
  "consume_lines d ls = Inr (d', evs) \<Longrightarrow> decoder_inv d \<Longrightarrow> decoder_inv d' \<and> lims d' = lims d"
proof (induction ls arbitrary: d evs)
  case (Cons l ls)
  then obtain d1 ev es where
    "consume_line d (removesuffix1 13 l) = Inr (d1, ev)" "consume_lines d1 ls = Inr (d', es)"
    by (auto simp: res_simps)
  with Cons.IH [of d1 es] Cons.prems(2) show ?case
    using consume_line_inv consume_line_frame(1) by metis
qed simp

end
