(* ===== verification/Protocol_Wire.thy ===== *)
theory Protocol_Wire
  imports Protocol_Invariant
begin

text \<open>
  The canonical NDJSON rendering of a response, and the proof that the decoder reads every
  well-formed rendering back: the decoder is not only safe but also complete.
\<close>

section \<open>Canonical rendering of a response\<close>

definition separator_name :: "append_separator \<Rightarrow> pystr" where
  "separator_name s = (case s of SepNone \<Rightarrow> lit ''none'' | SepSpace \<Rightarrow> lit ''space''
                               | SepLine \<Rightarrow> lit ''line'' | SepParagraph \<Rightarrow> lit ''paragraph'')"

definition field :: "string \<Rightarrow> json \<Rightarrow> (pystr \<times> json) list" where
  "field k v = [(lit k, v)]"

definition opt_field :: "string \<Rightarrow> ('a \<Rightarrow> json) \<Rightarrow> 'a option \<Rightarrow> (pystr \<times> json) list" where
  "opt_field k f x = (case x of None \<Rightarrow> [] | Some y \<Rightarrow> [(lit k, f y)])"

definition wire_docx :: "docx_block_replacement list \<Rightarrow> json" where
  "wire_docx bs = JList (map (\<lambda>b. JDict [(lit ''id'', JStr (repl_id b)), (lit ''text'', JStr (repl_text b))]) bs)"

fun wire_replacement :: "exact_replacement \<Rightarrow> json" where
  "wire_replacement (OutputReplacement oa orp) =
     JDict [(lit ''output_anchor'', JStr oa), (lit ''output_replacement'', JStr orp)]"
| "wire_replacement (SourceOutputReplacement sa sr oa orp) =
     JDict [(lit ''output_anchor'', JStr oa), (lit ''output_replacement'', JStr orp),
            (lit ''source_anchor'', JStr sa), (lit ''source_replacement'', JStr sr)]"

fun wire_state :: "state_operation \<Rightarrow> (pystr \<times> json) list" where
  "wire_state NoState = field ''operation'' (JStr (lit ''none''))"
| "wire_state (EstablishState b s d) =
     field ''operation'' (JStr (lit ''establish'')) @ field ''brief'' (JDict b)
     @ opt_field ''source'' JStr s @ opt_field ''docx_blocks'' wire_docx d"
| "wire_state (AppendState v sa ss os oa b) =
     field ''operation'' (JStr (lit ''append'')) @ field ''base_version'' (JInt v)
     @ field ''source_addition'' (JStr sa) @ field ''source_separator'' (JStr (separator_name ss))
     @ field ''output_separator'' (JStr (separator_name os))
     @ opt_field ''output_addition'' JStr oa @ opt_field ''brief'' JDict b"
| "wire_state (ReplaceState v rs b d) =
     field ''operation'' (JStr (lit ''replace'')) @ field ''base_version'' (JInt v)
     @ field ''replacements'' (JList (map wire_replacement rs))
     @ opt_field ''brief'' JDict b @ opt_field ''docx_blocks'' wire_docx d"
| "wire_state (FullState v s b d) =
     field ''operation'' (JStr (lit ''full'')) @ field ''base_version'' (JInt v)
     @ opt_field ''source'' JStr s @ opt_field ''brief'' JDict b @ opt_field ''docx_blocks'' wire_docx d"

definition payload :: "string \<Rightarrow> (pystr \<times> json) list \<Rightarrow> (pystr \<times> json) list" where
  "payload event fs = (lit ''v'', JInt 1) # (lit ''event'', JStr (lit event)) # fs"

fun wire_event :: "protocol_event \<Rightarrow> (pystr \<times> json) list" where
  "wire_event ResponseStart = payload ''response_start'' []"
| "wire_event (BlockStart i t) =
     payload ''block_start'' [(lit ''id'', JStr i), (lit ''type'', JStr (type_name t))]"
| "wire_event (BlockDelta i t s) = payload ''block_delta'' [(lit ''id'', JStr i), (lit ''text'', JStr s)]"
| "wire_event (BlockEnd i) = payload ''block_end'' [(lit ''id'', JStr i)]"
| "wire_event (StateEvent st) = payload ''state'' (wire_state st)"
| "wire_event ResponseEnd = payload ''response_end'' []"

definition event_line :: "protocol_event \<Rightarrow> pystr" where
  "event_line e = dump esc (JDict (wire_event e))"

text \<open>The events of a response whose blocks are streamed in the given pieces.\<close>

definition block_events :: "nat \<Rightarrow> block_type \<times> pystr list \<Rightarrow> protocol_event list" where
  "block_events n = (\<lambda>(t, ps). BlockStart (expected_block_id n) t
     # map (BlockDelta (expected_block_id n) t) ps @ [BlockEnd (expected_block_id n)])"

fun blocks_events :: "nat \<Rightarrow> (block_type \<times> pystr list) list \<Rightarrow> protocol_event list" where
  "blocks_events n [] = []"
| "blocks_events n (b # bs) = block_events n b @ blocks_events (Suc n) bs"

definition response_events :: "(block_type \<times> pystr list) list \<Rightarrow> state_operation \<Rightarrow> protocol_event list" where
  "response_events bs st = ResponseStart # blocks_events 1 bs @ [StateEvent st, ResponseEnd]"

definition render :: "protocol_event list \<Rightarrow> bytes" where
  "render es = utf8_encode (concat (map (\<lambda>e. event_line e @ [10]) es))"

definition joined :: "(block_type \<times> pystr list) list \<Rightarrow> content_block list" where
  "joined bs = map (\<lambda>(t, ps). \<lparr>block_type = t, block_text = concat ps\<rparr>) bs"

section \<open>State operations read back\<close>

definition brief_accepted :: "limits \<Rightarrow> brief \<Rightarrow> bool" where
  "brief_accepted lm b \<longleftrightarrow> validated_brief (max_brief_bytes lm) (Some (JDict b)) = Inr b"

fun state_brief :: "state_operation \<Rightarrow> brief option" where
  "state_brief NoState = None"
| "state_brief (EstablishState b s d) = Some b"
| "state_brief (AppendState v sa ss os oa b) = b"
| "state_brief (ReplaceState v rs b d) = b"
| "state_brief (FullState v s b d) = b"

lemma separator_of_name [simp]: "separator_of (separator_name s) = Some s"
  by (cases s) (simp_all add: separator_of_def separator_name_def)

lemma docx_candidates_wire:
  "map repl_id bs = map docx_block_id [i..<i + length bs] \<Longrightarrow>
   docx_candidates i (map (\<lambda>b. JDict [(lit ''id'', JStr (repl_id b)), (lit ''text'', JStr (repl_text b))]) bs) = Inr bs"
proof (induction bs arbitrary: i)
  case (Cons b bs)
  then have "repl_id b = docx_block_id i" "map repl_id bs = map docx_block_id [Suc i..<Suc i + length bs]"
    by (simp_all add: upt_conv_Cons del: upt_Suc)
  with Cons.IH [of "Suc i"] show ?case
    by (simp add: require_exact_keys_def get_def insert_commute)
qed simp

lemma validated_docx_wire: "docx_blocks_ok lm d \<Longrightarrow> validated_docx_blocks lm (Some (wire_docx d)) = Inr d"
  using docx_candidates_wire [of d 1]
  by (auto simp: docx_blocks_ok_def validated_docx_blocks_def wire_docx_def)

lemma decode_replacements_wire:
  assumes "replacements_ok rs" "set (map output_anchor rs) \<inter> so = {}" "set (source_anchors rs) \<inter> ss = {}"
  shows "decode_replacements ss so (map wire_replacement rs) = Inr (rs, replacement_texts rs)"
  using assms
proof (induction rs arbitrary: ss so)
  case Nil
  then show ?case by (simp add: replacement_texts_def)
next
  case (Cons r rs)
  show ?case
  proof (cases r)
    case (SourceOutputReplacement sa sr oa orp)
    have k: "{lit ''output_anchor'', lit ''output_replacement'', lit ''source_anchor'', lit ''source_replacement''} = paired_keys"
      by (auto simp: paired_keys_def output_keys_def)
    from Cons.prems SourceOutputReplacement have
      "replacements_ok rs" "set (map output_anchor rs) \<inter> insert oa so = {}" "set (source_anchors rs) \<inter> insert sa ss = {}"
      "oa \<notin> so" "sa \<notin> ss" "oa \<noteq> []" "sa \<noteq> []"
      by (auto simp: replacements_ok_def source_anchors_def)
    with Cons.IH [of "insert oa so" "insert sa ss"] SourceOutputReplacement show ?thesis
      by (simp add: k get_def validated_text_def replacement_texts_def)
  next
    case (OutputReplacement oa orp)
    have k: "{lit ''output_anchor'', lit ''output_replacement''} = output_keys"
      by (auto simp: output_keys_def)
    from Cons.prems OutputReplacement have
      "replacements_ok rs" "set (map output_anchor rs) \<inter> insert oa so = {}" "set (source_anchors rs) \<inter> ss = {}"
      "oa \<notin> so" "oa \<noteq> []"
      by (auto simp: replacements_ok_def source_anchors_def)
    with Cons.IH [of "insert oa so" ss] OutputReplacement show ?thesis
      by (simp add: k get_def validated_text_def replacement_texts_def)
  qed
qed


lemma validated_base_version_wire: "version_ok v \<Longrightarrow> validated_base_version (Some (JInt v)) = Inr v"
  by (simp add: validated_base_version_Inr)

lemma validated_text_wire:
  "\<not> blank s \<Longrightarrow> validated_text False True (Some (JStr s)) = Inr s"
  by (auto simp: validated_text_def)

lemma validated_separator_wire: "validated_append_separator (Some (JStr (separator_name s))) = Inr s"
  by (simp add: validated_append_separator_def)

lemmas wire_validators =
  validated_base_version_wire validated_text_wire validated_separator_wire validated_docx_wire

lemmas wire_fields = field_def opt_field_def payload_def get_def optional_def require_keys_def
  require_exact_keys_def

lemma decode_state_wire:
  assumes "state_ok lm st" "pred_option (brief_accepted lm) (state_brief st)"
  shows "decode_state lm (payload ''state'' (wire_state st)) = Inr st"
proof (cases st)
  case NoState
  then show ?thesis by (simp add: decode_state_def wire_fields insert_commute)
next
  case (EstablishState b s d)
  with assms show ?thesis
    by (cases s; cases d)
      (simp_all add: decode_state_def decode_establish_def wire_fields wire_validators state_ok_def
        brief_accepted_def validate_state_size_def given_def docx_texts_def)
next
  case (AppendState v sa ss os oa b)
  with assms show ?thesis
    by (cases oa; cases b)
      (simp_all add: decode_state_def decode_append_def wire_fields wire_validators state_ok_def
        brief_accepted_def validate_state_size_def given_def docx_texts_def)
next
  case (ReplaceState v rs b d)
  have "decode_replacements {} {} (map wire_replacement rs) = Inr (rs, replacement_texts rs)"
    using assms(1) ReplaceState by (intro decode_replacements_wire) (auto simp: state_ok_def)
  with assms ReplaceState show ?thesis
    by (cases b; cases d)
      (simp_all add: decode_state_def decode_replace_def wire_fields wire_validators state_ok_def
        brief_accepted_def validate_state_size_def given_def docx_texts_def)
next
  case (FullState v s b d)
  with assms show ?thesis
    by (cases s; cases b; cases d)
      (simp_all add: decode_state_def decode_full_def wire_fields wire_validators state_ok_def
        brief_accepted_def validate_state_size_def given_def docx_texts_def)
qed

section \<open>One line\<close>

lemma accepts_pairs_strict: "accepts_pairs strict_hooks"
proof -
  have "object_without_duplicate_keys out ps = Inr (out @ ps)"
    if "distinct (map fst (out @ ps))" for out ps :: "(pystr \<times> json) list"
    using that by (induction out ps rule: object_without_duplicate_keys.induct) auto
  from this [of "[]"] show ?thesis by (simp add: accepts_pairs_def strict_hooks_def)
qed

text \<open>What the rendering of one event must satisfy to be accepted: the line fits, and the
  payload is within the interpreter's limits and free of surrogates.\<close>

definition event_fits :: "limits \<Rightarrow> protocol_event \<Rightarrow> bool" where
  "event_fits lm e \<longleftrightarrow> utf8_len (event_line e) \<le> max_line_bytes lm
     \<and> json_ok (loads_limit lm) (JDict (wire_event e)) \<and> json_depth (JDict (wire_event e)) \<le> dumps_limit lm
     \<and> (\<forall>c\<in>set (event_line e). scalar c) \<and> \<not> has_surrogate (JDict (wire_event e))"

lemma consume_event_line:
  assumes "event_fits (lims dec) e" "\<not> completed dec"
    and "get (wire_event e) ''event'' = Some (JStr name)"
  shows "consume_line dec (event_line e) = dispatch dec name (wire_event e)"
proof -
  have "loads strict_hooks (loads_limit (lims dec)) (event_line e) = Inr (JDict (wire_event e))"
    unfolding event_line_def
    by (rule plain_codec.loads_dump [OF _ accepts_pairs_strict]) (use assms(1) in \<open>simp add: event_fits_def\<close>)
  then have "load_object (lims dec) (event_line e) = Inr (wire_event e)"
    using assms(1) by (simp add: load_object_def event_fits_def)
  moreover have "get (wire_event e) ''v'' = Some (JInt 1)"
    by (cases e) (simp_all add: payload_def get_def)
  moreover have "event_line e \<noteq> []" by (simp add: event_line_def)
  ultimately show ?thesis
    using assms by (simp add: consume_line_def event_fits_def)
qed

lemma line_end: "removesuffix1 13 (event_line e) = event_line e"
  by (simp add: removesuffix1_def event_line_def)

lemma no_newline_esc: "10 \<notin> set (esc s)"
  by (auto simp: esc_def esc_char_def u_escape_def hex_digit_def)

lemma set_join: "set (join sep xs) \<subseteq> set sep \<union> \<Union> (set ` set xs)"
  by (induction sep xs rule: join.induct) auto

lemma no_newline_dump: "json_ok d v \<Longrightarrow> 10 \<notin> set (dump esc v)"
proof (induction d v rule: json_ok.induct)
  case (1 d i)
  then show ?case by (auto simp: str_int_def ascii_digit_def dest: str_nat_digits)
next
  case (3 d vs)
  then show ?case using set_join [of "[44]" "map (dump esc) vs"] by fastforce
next
  case (4 d kvs)
  let ?m = "\<lambda>(k, v). 34 # esc k @ [34, 58] @ dump esc v"
  have "10 \<notin> set (?m kv)" if kv: "kv \<in> set kvs" for kv
  proof -
    have "10 \<notin> set (dump esc (snd kv))"
      by (rule "4.IH" [OF kv]) (use kv "4.prems" in simp)
    then show ?thesis by (cases kv) (simp add: no_newline_esc)
  qed
  then show ?case using set_join [of "[44]" "map ?m kvs"] by fastforce
qed (auto simp: lit_def no_newline_esc)


lemma lines_of_render:
  assumes "\<forall>e\<in>set es. event_fits lm e"
  shows "lines_of (concat (map (\<lambda>e. event_line e @ [10]) es)) = map event_line es"
  using assms
proof (induction es)
  case Nil
  then show ?case by (simp add: lines_of_def)
next
  case (Cons e es)
  then have "10 \<notin> set (event_line e)"
    unfolding event_line_def by (intro no_newline_dump [of "loads_limit lm"]) (simp add: event_fits_def)
  from lines_of_append [OF split_nl_line [OF this, of "[]"]] Cons show ?case by simp
qed

section \<open>The whole response reads back\<close>

definition idle :: "decoder \<Rightarrow> bool" where
  "idle d \<longleftrightarrow> started d \<and> \<not> completed d \<and> \<not> state_seen d \<and> active_id d = None \<and> active_type d = None
     \<and> active_parts d = [] \<and> active_delta_count d = 0"

lemma block_type_of_name [simp]: "block_type_of (type_name t) = Some t"
  by (cases t) (simp_all add: block_type_of_def)

lemma expected_id_syntax: "0 < n \<Longrightarrow> block_id_syntax (expected_block_id n)"
proof -
  assume "0 < n"
  obtain d ds where d: "digits_of n = d # ds" by (cases "digits_of n") auto
  with digits_of_hd [OF \<open>0 < n\<close>] digits_of_bound [of _ n] have "0 < d" "\<forall>x\<in>set (d # ds). x < 10" by auto
  with d show ?thesis
    by (auto simp: block_id_syntax_def expected_block_id_def str_nat_def ascii_digit_def lit_def)
qed

lemma consume_lines_Cons_event:
  assumes "event_fits (lims dec) e" "\<not> completed dec" "get (wire_event e) ''event'' = Some (JStr name)"
    and "dispatch dec name (wire_event e) = Inr (dec', e)"
  shows "consume_lines dec (map event_line (e # es)) =
    bind_res (consume_lines dec' (map event_line es)) (\<lambda>(d, evs). Inr (d, e # evs))"
  using assms consume_event_line [OF assms(1-3)] by (simp add: line_end)

lemma deltas_run:
  assumes "\<forall>e\<in>set (map (BlockDelta i t) ps). event_fits (lims dec) e" "[] \<notin> set ps"
    and "started dec" "\<not> completed dec" "\<not> state_seen dec" "active_id dec = Some i" "active_type dec = Some t"
    and "total_chars dec + length (concat ps) \<le> max_text_chars (lims dec)"
  shows "consume_lines dec (map event_line (map (BlockDelta i t) ps)) =
    Inr (dec\<lparr>total_chars := total_chars dec + length (concat ps), active_parts := active_parts dec @ ps,
             active_delta_count := active_delta_count dec + length ps\<rparr>, map (BlockDelta i t) ps)"
  using assms
proof (induction ps arbitrary: dec)
  case (Cons s ps)
  let ?d = "dec\<lparr>total_chars := total_chars dec + length s, active_parts := active_parts dec @ [s],
                active_delta_count := active_delta_count dec + 1\<rparr>"
  have "dispatch dec (lit ''block_delta'') (wire_event (BlockDelta i t s)) = Inr (?d, BlockDelta i t s)"
    using Cons.prems
    by (auto simp: dispatch_def on_block_delta_def payload_def get_def require_exact_keys_def insert_commute)
  then have "consume_lines dec (map event_line (BlockDelta i t s # map (BlockDelta i t) ps)) =
    bind_res (consume_lines ?d (map event_line (map (BlockDelta i t) ps))) (\<lambda>(d, evs). Inr (d, BlockDelta i t s # evs))"
    using Cons.prems by (intro consume_lines_Cons_event) (auto simp: payload_def get_def)
  also have "consume_lines ?d (map event_line (map (BlockDelta i t) ps)) =
    Inr (?d\<lparr>total_chars := total_chars ?d + length (concat ps), active_parts := active_parts ?d @ ps,
             active_delta_count := active_delta_count ?d + length ps\<rparr>, map (BlockDelta i t) ps)"
    using Cons.prems by (intro Cons.IH) (auto simp: add.assoc)
  finally show ?case by (simp add: add.assoc)
qed simp

lemma block_run:
  assumes "\<forall>e\<in>set (block_events n (t, ps)). event_fits (lims dec) e" "[] \<notin> set ps" "\<not> blank (concat ps)"
    and "idle dec" "n = Suc (length (blocks dec))" "length (blocks dec) < max_blocks (lims dec)"
    and "total_chars dec + length (concat ps) \<le> max_text_chars (lims dec)"
  shows "consume_lines dec (map event_line (block_events n (t, ps))) =
    Inr (dec\<lparr>blocks := blocks dec @ [\<lparr>block_type = t, block_text = concat ps\<rparr>],
             total_chars := total_chars dec + length (concat ps)\<rparr>, block_events n (t, ps))"
proof -
  let ?i = "expected_block_id n"
  let ?d = "dec\<lparr>active_id := Some ?i, active_type := Some t, active_parts := [], active_delta_count := 0\<rparr>"
  let ?d2 = "?d\<lparr>total_chars := total_chars dec + length (concat ps), active_parts := ps,
                active_delta_count := length ps\<rparr>"
  let ?d3 = "dec\<lparr>blocks := blocks dec @ [\<lparr>block_type = t, block_text = concat ps\<rparr>],
             total_chars := total_chars dec + length (concat ps)\<rparr>"
  have ps: "ps \<noteq> []" using assms(3) by auto
  have "dispatch dec (lit ''block_start'') (wire_event (BlockStart ?i t)) = Inr (?d, BlockStart ?i t)"
    using assms expected_id_syntax [of n]
    by (simp add: dispatch_def on_block_start_def payload_def get_def require_exact_keys_def insert_commute idle_def)
  then have 1: "consume_lines dec (map event_line (BlockStart ?i t # es)) =
    bind_res (consume_lines ?d (map event_line es)) (\<lambda>(d, evs). Inr (d, BlockStart ?i t # evs))" for es
    using assms by (intro consume_lines_Cons_event) (auto simp: payload_def get_def block_events_def idle_def)
  have 2: "consume_lines ?d (map event_line (map (BlockDelta ?i t) ps)) = Inr (?d2, map (BlockDelta ?i t) ps)"
    using deltas_run [of ?i t ps ?d] assms by (simp add: block_events_def idle_def)
  have "?d2\<lparr>blocks := blocks ?d2 @ [\<lparr>block_type = t, block_text = concat ps\<rparr>], active_id := None,
      active_type := None, active_parts := [], active_delta_count := 0\<rparr> = ?d3"
    using assms(4) by (simp add: idle_def)
  then have "dispatch ?d2 (lit ''block_end'') (wire_event (BlockEnd ?i)) = Inr (?d3, BlockEnd ?i)"
    using assms ps
    by (simp add: dispatch_def on_block_end_def payload_def get_def require_exact_keys_def insert_commute idle_def)
  then have 3: "consume_lines ?d2 (map event_line [BlockEnd ?i]) = Inr (?d3, [BlockEnd ?i])"
    using assms by (subst consume_lines_Cons_event) (auto simp: payload_def get_def block_events_def idle_def)
  from 2 3 have "consume_lines ?d (map event_line (map (BlockDelta ?i t) ps @ [BlockEnd ?i])) =
      Inr (?d3, map (BlockDelta ?i t) ps @ [BlockEnd ?i])"
    unfolding map_append consume_lines_append by simp
  then show ?thesis unfolding block_events_def prod.case 1 by simp
qed


definition parts_ok :: "(block_type \<times> pystr list) list \<Rightarrow> bool" where
  "parts_ok bs \<longleftrightarrow> (\<forall>(t, ps)\<in>set bs. [] \<notin> set ps \<and> \<not> blank (concat ps))"

lemma blocks_run:
  assumes "\<forall>e\<in>set (blocks_events n bs). event_fits (lims dec) e" "parts_ok bs" "idle dec"
    and "n = Suc (length (blocks dec))" "length (blocks dec) + length bs \<le> max_blocks (lims dec)"
    and "total_chars dec + sum_list (map (\<lambda>b. length (block_text b)) (joined bs)) \<le> max_text_chars (lims dec)"
  shows "\<exists>m. consume_lines dec (map event_line (blocks_events n bs)) =
    Inr (dec\<lparr>blocks := blocks dec @ joined bs, total_chars := m\<rparr>, blocks_events n bs)"
  using assms
proof (induction bs arbitrary: dec n)
  case Nil
  have "dec\<lparr>total_chars := total_chars dec\<rparr> = dec" by simp
  then show ?case by (auto simp: joined_def intro: exI [of _ "total_chars dec"])
next
  case (Cons b bs)
  obtain t ps where b: "b = (t, ps)" by (cases b)
  let ?d = "dec\<lparr>blocks := blocks dec @ [\<lparr>block_type = t, block_text = concat ps\<rparr>],
             total_chars := total_chars dec + length (concat ps)\<rparr>"
  have 1: "consume_lines dec (map event_line (block_events n b)) = Inr (?d, block_events n b)"
    unfolding b by (rule block_run) (use Cons.prems b in \<open>auto simp: parts_ok_def joined_def\<close>)
  obtain m where "consume_lines ?d (map event_line (blocks_events (Suc n) bs)) =
    Inr (?d\<lparr>blocks := blocks ?d @ joined bs, total_chars := m\<rparr>, blocks_events (Suc n) bs)"
    using Cons.IH [of "Suc n" ?d] Cons.prems b
    by (auto simp: parts_ok_def joined_def idle_def add.assoc)
  with 1 show ?case by (auto simp: consume_lines_append joined_def b intro: exI [of _ m])
qed

lemma response_run:
  assumes "new_decoder lm = Some dec"
    and "\<forall>e\<in>set (response_events bs st). event_fits lm e" "parts_ok bs"
    and "document_ok lm \<lparr>doc_blocks = joined bs, doc_state = st\<rparr>"
    and "pred_option (brief_accepted lm) (state_brief st)"
  shows "\<exists>d. consume_lines dec (map event_line (response_events bs st)) = Inr (d, response_events bs st)
    \<and> conclude d = Inr \<lparr>doc_blocks = joined bs, doc_state = st\<rparr>"
proof -
  let ?d1 = "dec\<lparr>started := True\<rparr>"
  have lm: "lims dec = lm" and n: "idle ?d1" "blocks ?d1 = []" "total_chars ?d1 = 0" "\<not> started dec" "\<not> state_seen dec" "\<not> completed dec"
    using assms(1) by (auto simp: new_decoder_def idle_def split: if_splits)
  have ok: "blocks_ok (max_blocks lm) (max_text_chars lm) (joined bs)" "state_ok lm st"
    "map block_type (joined bs) = [Conversation] \<longrightarrow> st = NoState"
    using assms(4) by (auto simp: document_ok_def)
  have "dispatch dec (lit ''response_start'') (wire_event ResponseStart) = Inr (?d1, ResponseStart)"
    using n by (simp add: dispatch_def on_response_start_def payload_def require_exact_keys_def insert_commute)
  then have 1: "consume_lines dec (map event_line (ResponseStart # es)) =
    bind_res (consume_lines ?d1 (map event_line es)) (\<lambda>(d, evs). Inr (d, ResponseStart # evs))" for es
    using assms(2) n lm by (intro consume_lines_Cons_event) (auto simp: payload_def get_def response_events_def)
  have len: "length (joined bs) = length bs" by (simp add: joined_def)
  obtain m where 2: "consume_lines ?d1 (map event_line (blocks_events 1 bs)) =
    Inr (?d1\<lparr>blocks := joined bs, total_chars := m\<rparr>, blocks_events 1 bs)"
    using blocks_run [of 1 bs ?d1] assms(2,3) n lm ok(1) len
    by (auto simp: response_events_def blocks_ok_def)
  let ?d2 = "?d1\<lparr>blocks := joined bs, total_chars := m\<rparr>"
  let ?d3 = "?d2\<lparr>state := Some st, state_seen := True\<rparr>"
  let ?d4 = "?d3\<lparr>completed := True\<rparr>"
  have v: "visible_blocks ?d2 = Inr (joined bs)" "visible_blocks ?d3 = Inr (joined bs)" "visible_blocks ?d4 = Inr (joined bs)"
    using ok(1) lm by (simp_all add: visible_blocks_iff)
  have "block_type (hd (joined bs)) = Conversation \<Longrightarrow> st = NoState"
    using ok(1,3) by (cases "joined bs") (auto simp: blocks_ok_def block_types_ok_def)
  then have "dispatch ?d2 (lit ''state'') (wire_event (StateEvent st)) = Inr (?d3, StateEvent st)"
    using n v decode_state_wire [OF ok(2) assms(5)] lm
    by (auto simp: dispatch_def on_state_def idle_def)
  then have 3: "consume_lines ?d2 (map event_line (StateEvent st # es)) =
    bind_res (consume_lines ?d3 (map event_line es)) (\<lambda>(d, evs). Inr (d, StateEvent st # evs))" for es
    using assms(2) n lm by (intro consume_lines_Cons_event) (auto simp: payload_def get_def response_events_def)
  have "dispatch ?d3 (lit ''response_end'') (wire_event ResponseEnd) = Inr (?d4, ResponseEnd)"
    using n v by (simp add: dispatch_def on_response_end_def payload_def require_exact_keys_def insert_commute idle_def)
  then have 4: "consume_lines ?d3 (map event_line [ResponseEnd]) = Inr (?d4, [ResponseEnd])"
    using assms(2) n lm by (subst consume_lines_Cons_event) (auto simp: payload_def get_def response_events_def)
  have 34: "consume_lines ?d2 (map event_line [StateEvent st, ResponseEnd]) = Inr (?d4, [StateEvent st, ResponseEnd])"
    unfolding 3 4 by simp
  have "conclude ?d4 = Inr \<lparr>doc_blocks = joined bs, doc_state = st\<rparr>"
    using v by (simp add: conclude_def)
  moreover have "consume_lines ?d1 (map event_line (blocks_events 1 bs @ [StateEvent st, ResponseEnd])) =
      Inr (?d4, blocks_events 1 bs @ [StateEvent st, ResponseEnd])"
    using 2 34 unfolding map_append consume_lines_append by simp
  ultimately show ?thesis unfolding response_events_def 1 by auto
qed

lemma decode_whole_render:
  assumes "new_decoder lm \<noteq> None"
    and "\<forall>e\<in>set (response_events bs st). event_fits lm e" "parts_ok bs"
    and "document_ok lm \<lparr>doc_blocks = joined bs, doc_state = st\<rparr>"
    and "pred_option (brief_accepted lm) (state_brief st)"
  shows "decode_whole lm (render (response_events bs st)) = Inr \<lparr>doc_blocks = joined bs, doc_state = st\<rparr>"
proof -
  obtain dec where n: "new_decoder lm = Some dec" using assms(1) by auto
  have "\<forall>c\<in>set (concat (map (\<lambda>e. event_line e @ [10]) (response_events bs st))). scalar c"
    using assms(2) by (auto simp: event_fits_def) (simp add: scalar_def surrogate_def)
  with response_run [OF n assms(2-5)] n lines_of_render [OF assms(2)] show ?thesis
    by (auto simp: decode_whole_def render_def utf8_decode_encode)
qed

end
