(* ===== verification/Protocol_Guarantees.thy ===== *)
theory Protocol_Guarantees
  imports Protocol_Wire
begin

text \<open>
  The guarantees of the response protocol as a whole: completeness for canonical renderings,
  independence of chunking, well-formedness of every decoded document, and the round trip
  through the stored form.
\<close>

section \<open>Guarantees of the response protocol\<close>

text \<open>A concrete response for the witnesses: one deliverable in two pieces that establishes work.\<close>

definition demo_limits :: limits where
  "demo_limits = default_limits 100 100"

definition demo_parts :: "(block_type \<times> pystr list) list" where
  "demo_parts = [(Deliverable, [lit ''Dear '', lit ''Ana''])]"

definition demo_state :: state_operation where
  "demo_state = EstablishState [(lit ''goal'', JStr (lit ''polish''))] (Some (lit ''dear ana'')) None"

definition demo_bytes :: bytes where
  "demo_bytes = render (response_events demo_parts demo_state)"

lemma ascii_utf8_len: "\<forall>c\<in>set s. c < 128 \<Longrightarrow> utf8_len s = length s"
  by (induction s) (auto simp: utf8_len_def utf8_encode_def utf8_char_def)

lemma ascii_scalar: "c < 128 \<Longrightarrow> scalar c"
  by (simp add: scalar_def surrogate_def)

text \<open>For a payload of ASCII text the conditions on a line reduce to its length.\<close>

lemma event_fits_ascii:
  assumes "list_all (\<lambda>c. c < 128) (event_line e)" "length (event_line e) \<le> max_line_bytes lm"
    and "json_ok (loads_limit lm) (JDict (wire_event e))" "json_depth (JDict (wire_event e)) \<le> dumps_limit lm"
    and "\<not> has_surrogate (JDict (wire_event e))"
  shows "event_fits lm e"
  using assms by (simp add: list_all_iff event_fits_def ascii_utf8_len ascii_scalar)

lemma small_json_int: "\<bar>i\<bar> < 10 \<Longrightarrow> \<bar>i\<bar> < (10 ^ int_max_str_digits :: int)"
proof -
  assume "\<bar>i\<bar> < 10"
  also have "(10 :: int) ^ 1 \<le> 10 ^ int_max_str_digits"
    by (intro power_increasing) (simp_all add: Suc_le_eq)
  finally show ?thesis by simp
qed

lemma demo_fits: "\<forall>e\<in>set (response_events demo_parts demo_state). event_fits demo_limits e"
  by (simp add: response_events_def demo_parts_def block_events_def)
    (intro conjI event_fits_ascii;
      simp add: event_line_def payload_def lit_def field_def opt_field_def esc_def esc_char_def str_int_def
      str_nat_def digits_of.simps expected_block_id_def demo_limits_def default_limits_def small_json_int
      surrogate_def demo_state_def)


lemma demo_document: "document_ok demo_limits \<lparr>doc_blocks = joined demo_parts, doc_state = demo_state\<rparr>"
proof -
  have "block_types_ok [Deliverable]" by (simp add: block_types_ok_iff)
  then show ?thesis
    by (simp add: document_ok_def blocks_ok_def joined_def demo_parts_def demo_limits_def
        default_limits_def demo_state_def state_ok_def brief_ok_def given_def docx_texts_def blank_iff
        py_space_def lit_def ascii_utf8_len esc_def esc_char_def)
qed

lemma demo_brief: "pred_option (brief_accepted demo_limits) (state_brief demo_state)"
  by (simp add: demo_state_def brief_accepted_def validated_brief_def demo_limits_def default_limits_def
      lit_def surrogate_def ascii_utf8_len esc_def esc_char_def)

lemma demo_decoder: "new_decoder demo_limits \<noteq> None"
  by (simp add: new_decoder_def demo_limits_def default_limits_def)

lemma demo_parts_ok: "parts_ok demo_parts"
  by (simp add: parts_ok_def demo_parts_def blank_iff lit_def py_space_def)

lemma render_length: "length (render es) = sum_list (map (\<lambda>e. utf8_len (event_line e) + 1) es)"
  by (induction es)
    (simp_all add: render_def utf8_encode_def utf8_len_def utf8_char_def)

lemma demo_length: "length demo_bytes \<le> max_line_bytes demo_limits"
proof -
  have "length demo_bytes \<le> 1000"
    by (simp add: demo_bytes_def render_length response_events_def demo_parts_def block_events_def
      ascii_utf8_len event_line_def payload_def lit_def field_def opt_field_def esc_def esc_char_def str_int_def
      str_nat_def digits_of.simps expected_block_id_def demo_state_def)
  then show ?thesis by (simp add: demo_limits_def default_limits_def)
qed

lemma demo_cut:
  "concat [take 40 demo_bytes, drop 40 demo_bytes] = demo_bytes"
  by simp



lemma demo_decoded: "decode_response demo_limits [demo_bytes] = Inr \<lparr>doc_blocks = joined demo_parts, doc_state = demo_state\<rparr>"
  using decode_whole_render [OF demo_decoder demo_fits demo_parts_ok demo_document demo_brief]
    decode_complete [of demo_limits "[demo_bytes]"] demo_length
  by (fastforce simp: demo_bytes_def)

text \<open>C10: the decoded document does not depend on how the stream is cut into chunks.  The only
  other outcome is the size error of an unfinished line, and only for responses that are longer
  than the line limit.\<close>

theorem decode_chunk_independent:
  assumes "decode_response lm cs = Inr doc" "concat cs' = concat cs"
  shows "decode_response lm cs' = Inr doc
    \<or> (decode_response lm cs' = Inl ''event_too_large'' \<and> max_line_bytes lm < length (concat cs))"
  using decode_complete [of lm cs' doc] decode_sound [OF assms(1)] assms(2) by simp

theorem decode_chunk_independent_witness:
  "decode_response demo_limits (map (\<lambda>b. [b]) demo_bytes)
     = Inr \<lparr>doc_blocks = joined demo_parts, doc_state = demo_state\<rparr>"
  using decode_chunk_independent [OF demo_decoded, of "map (\<lambda>b. [b]) demo_bytes"] demo_length by auto

lemma decode_response_inv:
  assumes "decode_response lm cs = Inr doc"
  shows "document_ok lm doc"
proof -
  from decode_sound [OF assms] obtain dec t d evs where
    n: "new_decoder lm = Some dec" and c: "consume_lines dec (lines_of t) = Inr (d, evs)" and
    fin: "conclude d = Inr doc"
    by (auto simp: decode_whole_def res_simps split: option.splits list.splits)
  from consume_lines_inv [OF c decoder_inv_new [OF n]] new_decoder_lims [OF n]
  have inv: "decoder_inv d" "lims d = lm" by auto
  from fin obtain st where "state d = Some st" "doc = \<lparr>doc_blocks = blocks d, doc_state = st\<rparr>"
    by (auto simp: conclude_def res_simps visible_blocks_iff split: if_splits option.splits)
  with inv show ?thesis by (auto simp: decoder_inv_def)
qed

text \<open>C15: every document the decoder returns is well formed: one conversation block without a
  state change, or deliverables followed by at most one advice block; no blank block; the counts,
  sizes, version range, distinct non-empty anchors and consecutive DOCX block numbers that the
  rest of the program relies on.\<close>

theorem decoded_document_ok:
  assumes "decode_response lm cs = Inr doc"
  shows "document_ok lm doc"
  using assms by (rule decode_response_inv)

theorem decoded_document_ok_witness:
  "document_ok demo_limits \<lparr>doc_blocks = joined demo_parts, doc_state = demo_state\<rparr>"
  using decoded_document_ok [OF demo_decoded] .

section \<open>Stored documents\<close>

lemma candidate_block_storage:
  assumes "\<not> blank (block_text b)"
  shows "candidate_block (Mapping [(lit ''type'', JStr (type_name (block_type b))), (lit ''text'', JStr (block_text b))])
    = Inr b"
  using assms by (simp add: candidate_block_def require_exact_keys_def get_def)

lemma validate_stored_to_storage:
  assumes "blocks_ok 16 2000000 (doc_blocks d)"
  shows "validate_stored_document (to_storage d) = Inr (d\<lparr>doc_state := NoState\<rparr>)"
proof -
  let ?m = "\<lambda>b. [(lit ''type'', JStr (type_name (block_type b))), (lit ''text'', JStr (block_text b))]"
  have "validate_content_blocks 16 2000000 (map (\<lambda>b. Mapping (?m b)) (doc_blocks d)) = Inr (doc_blocks d)"
    using assms
    by (auto simp: validate_content_blocks_iff list_all2_map1 blocks_ok_def candidate_block_storage
        intro!: list.rel_refl_strong)
  then show ?thesis
    by (simp add: validate_stored_document_def to_storage_def require_exact_keys_def get_def map_res_map
        map_res_Inr)
qed

text \<open>C19: round trip of storage.  A decoded response is stored as its version and blocks, and reading
  the stored form back validates and yields the same blocks.\<close>

theorem stored_document_roundtrip:
  assumes "decode_response (default_limits rl wl) cs = Inr d"
  shows "validate_stored_document (to_storage d) = Inr (d\<lparr>doc_state := NoState\<rparr>)"
proof -
  from assms have "document_ok (default_limits rl wl) d"
    by (rule decode_response_inv)
  then show ?thesis
    by (intro validate_stored_to_storage) (simp add: document_ok_def default_limits_def)
qed

theorem stored_document_roundtrip_witness:
  "validate_stored_document (to_storage \<lparr>doc_blocks = joined demo_parts, doc_state = demo_state\<rparr>)
     = Inr \<lparr>doc_blocks = joined demo_parts, doc_state = NoState\<rparr>"
  using stored_document_roundtrip [OF demo_decoded [unfolded demo_limits_def]] by simp

end
