(* ===== verification/Context_Guarantees.thy ===== *)
theory Context_Guarantees
  imports Context Provider_Guarantees Protocol_Guarantees
begin

text \<open>
  The data envelope cannot be forged and reads back, and prompt handoffs carry user turns only.
\<close>

section \<open>The payload holds no angle bracket and reads back\<close>

definition safe_esc :: "pystr \<Rightarrow> pystr" where
  "safe_esc s = concat (map safe_char (esc s))"

lemma safe_char_u_escape: "c = 60 \<or> c = 62 \<Longrightarrow> safe_char c = u_escape c"
  by (auto simp: safe_char_def u_escape_def hex_digit_def lit_def)

lemma safe_char_id: "c \<noteq> 60 \<Longrightarrow> c \<noteq> 62 \<Longrightarrow> safe_char c = [c]"
  by (simp add: safe_char_def)

lemma safe_chars_id: "\<forall>c\<in>set s. c \<noteq> 60 \<and> c \<noteq> 62 \<Longrightarrow> concat (map safe_char s) = s"
  by (induction s) (simp_all add: safe_char_id)

lemma hex_digit_range: "n < 16 \<Longrightarrow> hex_digit n \<noteq> 60 \<and> hex_digit n \<noteq> 62"
  by (auto simp: hex_digit_def)

lemma safe_esc_char:
  "concat (map safe_char (esc_char c)) = (if c = 60 \<or> c = 62 then u_escape c else esc_char c)"
proof (cases "c = 60 \<or> c = 62")
  case True
  then have "esc_char c = [c]" by (auto simp: esc_char_def)
  with True show ?thesis by (simp add: safe_char_u_escape)
next
  case False
  then have "\<forall>x\<in>set (esc_char c). x \<noteq> 60 \<and> x \<noteq> 62"
    by (auto simp: esc_char_def u_escape_def hex_digit_range)
  with False show ?thesis by (simp add: safe_chars_id)
qed

lemma safe_esc_chars:
  "safe_esc s = concat (map (\<lambda>c. if c = 60 \<or> c = 62 then u_escape c else esc_char c) s)"
  by (induction s) (simp_all add: safe_esc_def esc_def safe_esc_char)

interpretation safe_codec: string_codec safe_esc
proof
  fix s r
  show "scan_string (safe_esc s @ 34 # r) = Some (s, r)"
    unfolding safe_esc_chars
    by (rule charwise_codec) (auto simp: scan_string_u_escape scan_string_esc_char surrogate_def)
qed

lemma concat_map_join:
  "f c = [c] \<Longrightarrow> concat (map f (join [c] xs)) = join [c] (map (\<lambda>x. concat (map f x)) xs)"
  by (induction xs rule: induct_list012) simp_all

lemma dump_safe:
  "json_ok d v \<Longrightarrow> concat (map safe_char (dump esc v)) = dump safe_esc v"
proof (induction v arbitrary: d)
  case (JInt i)
  have "\<forall>c\<in>set (str_int i). c \<noteq> 60 \<and> c \<noteq> 62"
    by (auto simp: str_int_def ascii_digit_def dest!: str_nat_digits)
  then show ?case by (simp add: safe_chars_id)
next
  case (JList vs)
  then have "\<forall>x\<in>set vs. concat (map safe_char (dump esc x)) = dump safe_esc x" by auto
  then show ?case by (simp add: safe_char_id concat_map_join o_def cong: map_cong)
next
  case (JDict kvs)
  then have "concat (map safe_char (34 # esc (fst kv) @ [34, 58] @ dump esc (snd kv)))
      = 34 # safe_esc (fst kv) @ [34, 58] @ dump safe_esc (snd kv)" if "kv \<in> set kvs" for kv
    using that by (cases kv) (fastforce simp: safe_char_id safe_esc_def)
  then have "\<forall>kv\<in>set kvs. concat (map safe_char (case kv of (k, v) \<Rightarrow> 34 # esc k @ 34 # 58 # dump esc v))
      = (case kv of (k, v) \<Rightarrow> 34 # safe_esc k @ 34 # 58 # dump safe_esc v)"
    by (auto simp del: append.simps)
  then show ?case by (simp add: safe_char_id concat_map_join o_def cong: map_cong)
qed (auto simp: safe_char_id safe_esc_def lit_def)

lemma distinct_map_sort: "distinct (map f (sort_key g xs)) \<longleftrightarrow> distinct (map f xs)"
  by (simp add: distinct_map)

lemma json_ok_sort_keys: "json_ok d v \<Longrightarrow> json_ok d (sort_keys v)"
proof (induction v arbitrary: d)
  case (JDict kvs)
  let ?kvs = "map (\<lambda>(k, v). (k, sort_keys v)) kvs"
  have "map fst ?kvs = map fst kvs" by (induction kvs) auto
  then have "distinct (map fst ?kvs)" using JDict.prems by (metis json_ok.simps(4))
  then have "distinct (map fst (sort_key fst ?kvs))" by (simp only: distinct_map_sort)
  then show ?case using JDict by fastforce
qed auto

lemma safe_json_free: "safe_json limit v = Inr s \<Longrightarrow> 60 \<notin> set s \<and> 62 \<notin> set s"
  by (auto simp: safe_json_def safe_char_def lit_def split: if_splits)

lemma safe_json_reads:
  assumes "safe_json limit v = Inr s" "json_ok depth v"
  shows "loads plain_hooks depth s = Inr (sort_keys v)"
proof -
  note ok = json_ok_sort_keys [OF assms(2)]
  have "s = dump safe_esc (sort_keys v)"
    using assms(1) dump_safe [OF ok] by (auto simp: safe_json_def split: if_splits)
  then show ?thesis using safe_codec.loads_dump [OF ok accepts_pairs_plain] by simp
qed

section \<open>What a request carries\<close>

text \<open>The data of a request, before it is serialized.\<close>

definition request_data ::
  "(time \<Rightarrow> pydate) \<Rightarrow> context_thread \<Rightarrow> pystr \<Rightarrow> context_message list \<Rightarrow> (pystr \<times> pystr) list \<Rightarrow>
     (pystr \<times> attachment_document) list \<Rightarrow> attachment_document option \<Rightarrow> work_version_row option \<Rightarrow>
     json res" where
  "request_data zone th p ms labels atts ref canonical =
     (if p = lit ''prompt_handoff'' then
        bind_res (collect_transcript (user_entry labels atts) (ct_id th) {} (sort_key cm_ordinal ms))
          (\<lambda>us. Inr (JDict [(lit ''user_messages'', JList us)]))
      else
        bind_res (collect_transcript (untrusted_entry th labels atts zone) (ct_id th) {}
            (sort_key cm_ordinal ms))
          (\<lambda>t. Inr (envelope_payload th (if p = lit ''chat'' then ref else None) canonical t)))"

lemma then_read_Inr:
  "then_read r f = (c, Inr x) \<longleftrightarrow> (\<exists>c' y. r = (c', Inr y) \<and> f c' y = (c, Inr x))"
  by (auto simp: then_read_def split: prod.splits sum.splits)

lemma build_provider_messages_data:
  assumes "build_provider_messages fs limit zone now cache th p ms labels atts ref canonical today = (c, Inr msgs)"
  shows "\<exists>trusted v s. request_data zone th p ms labels atts ref canonical = Inr v
    \<and> safe_json limit v = Inr s
    \<and> msgs = [\<lparr>pm_role = lit ''system'', pm_content = trusted\<rparr>,
              \<lparr>pm_role = lit ''user'', pm_content = enveloped s\<rparr>]"
proof (cases "p = lit ''prompt_handoff''")
  case True
  with assms show ?thesis
    by (auto simp: build_provider_messages_def Let_def request_data_def user_instruction_envelope_def
        res_simps split: sum.splits)
next
  case False
  with assms show ?thesis
    by (auto simp: build_provider_messages_def Let_def request_data_def untrusted_envelope_def
        res_simps then_read_Inr split: sum.splits)
qed

definition demo_thread_context :: context_thread where
  "demo_thread_context = \<lparr>ct_id = lit ''t'', ct_mode = lit ''translate'', ct_summary = None,
     ct_summary_through = Some 1\<rparr>"

definition demo_user_turn :: context_message where
  "demo_user_turn = \<lparr>cm_id = lit ''m2'', cm_thread = lit ''t'', cm_ordinal = 2, cm_role = lit ''user'',
     cm_actor = Some (lit ''u''),
     cm_content = [[(lit ''type'', JStr (lit ''conversation'')), (lit ''text'', JStr (lit ''a<b''))]],
     cm_created = None\<rparr>"

definition demo_reply :: context_message where
  "demo_reply = \<lparr>cm_id = lit ''m1'', cm_thread = lit ''t'', cm_ordinal = 1, cm_role = lit ''assistant'',
     cm_actor = None,
     cm_content = [[(lit ''type'', JStr (lit ''conversation'')), (lit ''text'', JStr (lit ''ok''))]],
     cm_created = None\<rparr>"

abbreviation demo_request where
  "demo_request p ms \<equiv> build_provider_messages (\<lambda>_. Unresolved) 20 (\<lambda>_. \<lparr>dt_year = 2026, dt_month = 1, dt_day = 2\<rparr>)
     \<lparr>dt_year = 2026, dt_month = 1, dt_day = 2\<rparr> (\<lambda>_. None) demo_thread_context p ms [(lit ''u'', lit ''Ada'')]
     [] None None None"

definition demo_data_value :: json where
  "demo_data_value = envelope_payload demo_thread_context None None
     [JDict [(lit ''ordinal'', JInt 2), (lit ''role'', JStr (lit ''user'')), (lit ''actor'', JStr (lit ''Ada'')),
        (lit ''content'', JList [JDict [(lit ''type'', JStr (lit ''conversation'')), (lit ''text'', JStr (lit ''a<b''))]])]]"

lemma demo_entry: "transcript_entry [(lit ''u'', lit ''Ada'')] None demo_user_turn =
  Inr \<lparr>te_ordinal = 2, te_role = lit ''user'', te_actor = lit ''Ada'',
       te_content = [\<lparr>block_type = Conversation, block_text = lit ''a<b''\<rparr>], te_attachment = None\<rparr>"
  by (simp add: transcript_entry_def message_blocks_def message_actor_def demo_user_turn_def
      validate_content_blocks_def candidate_block_def require_exact_keys_def get_def block_type_of_def
      blank_def strip_def py_space_def lit_def)

lemma demo_request_data:
  "request_data (\<lambda>_. \<lparr>dt_year = 2026, dt_month = 1, dt_day = 2\<rparr>) demo_thread_context (lit ''title'') [demo_user_turn, demo_reply]
     [(lit ''u'', lit ''Ada'')] [] None None = Inr demo_data_value"
proof -
  have "sort_key cm_ordinal [demo_user_turn, demo_reply] = [demo_reply, demo_user_turn]"
    by (simp add: demo_user_turn_def demo_reply_def)
  then show ?thesis
    by (simp add: request_data_def untrusted_entry_def demo_entry demo_data_value_def entry_json_def)
       (simp add: demo_user_turn_def demo_reply_def demo_thread_context_def)
qed

text \<open>C17: The data of a request cannot step out of its envelope.  Every request that is built consists
  of a system message and one user message, which is the request's data between the two boundary
  markers; the data holds no angle bracket at all, so no boundary marker, and parsing it gives back
  exactly the value that was serialized (floats aside), whatever the conversation contains.\<close>

theorem request_data_inert:
  assumes "build_provider_messages fs limit zone now cache th p ms labels atts ref canonical today = (c, Inr msgs)"
  shows "\<exists>trusted payload v. request_data zone th p ms labels atts ref canonical = Inr v
    \<and> msgs = [\<lparr>pm_role = lit ''system'', pm_content = trusted\<rparr>,
              \<lparr>pm_role = lit ''user'', pm_content = untrusted_begin @ [10] @ payload @ [10] @ untrusted_end\<rparr>]
    \<and> 60 \<notin> set payload \<and> 62 \<notin> set payload
    \<and> (\<forall>depth. json_ok depth v \<longrightarrow> loads plain_hooks depth payload = Inr (sort_keys v))"
proof -
  obtain trusted v s where "request_data zone th p ms labels atts ref canonical = Inr v"
    "safe_json limit v = Inr s"
    "msgs = [\<lparr>pm_role = lit ''system'', pm_content = trusted\<rparr>,
             \<lparr>pm_role = lit ''user'', pm_content = enveloped s\<rparr>]"
    using build_provider_messages_data [OF assms] by blast
  with safe_json_free [of limit v s] safe_json_reads [of limit v s] show ?thesis
    by (intro exI [of _ trusted] exI [of _ s] exI [of _ v]) (simp add: enveloped_def)
qed

theorem request_data_inert_witness:
  "\<exists>c trusted payload. demo_request (lit ''title'') [demo_user_turn, demo_reply] =
      (c, Inr [\<lparr>pm_role = lit ''system'', pm_content = trusted\<rparr>,
        \<lparr>pm_role = lit ''user'', pm_content = untrusted_begin @ [10] @ payload @ [10] @ untrusted_end\<rparr>])
    \<and> 60 \<notin> set payload \<and> loads plain_hooks 9 payload = Inr (sort_keys demo_data_value)"
proof -
  have depth: "json_depth demo_data_value \<le> 20" and ok: "json_ok 9 demo_data_value"
    by (simp_all add: demo_data_value_def envelope_payload_def canonical_payload_def optional_json_def
        demo_thread_context_def small_json_int [of 2, simplified] small_json_int [of 1, simplified])
  from demo_request_data obtain t where
    "collect_transcript (untrusted_entry demo_thread_context [(lit ''u'', lit ''Ada'')] []
       (\<lambda>_. \<lparr>dt_year = 2026, dt_month = 1, dt_day = 2\<rparr>)) (ct_id demo_thread_context) {}
       (sort_key cm_ordinal [demo_user_turn, demo_reply]) = Inr t"
    "envelope_payload demo_thread_context None None t = demo_data_value"
    by (auto simp only: request_data_def res_simps lit_inject sum.inject split: if_splits)
  then have "\<exists>e. untrusted_envelope 20 demo_thread_context [demo_user_turn, demo_reply] [(lit ''u'', lit ''Ada'')] [] None None
      (\<lambda>_. \<lparr>dt_year = 2026, dt_month = 1, dt_day = 2\<rparr>) = Inr e"
    using depth by (simp add: untrusted_envelope_def safe_json_def del: sort_key_simps)
  moreover have "ct_mode demo_thread_context = lit ''translate''" by (simp add: demo_thread_context_def)
  ultimately obtain c msgs where run: "demo_request (lit ''title'') [demo_user_turn, demo_reply] = (c, Inr msgs)"
    by (auto simp: build_provider_messages_def Let_def validated_mode_def validated_purpose_def purposes_def
        prompt_files_def dated_purposes_def then_read_def system_message_def maintenance_system_message_def
        simp del: sort_key_simps)
  obtain trusted payload v where
    "request_data (\<lambda>_. \<lparr>dt_year = 2026, dt_month = 1, dt_day = 2\<rparr>) demo_thread_context (lit ''title'')
       [demo_user_turn, demo_reply] [(lit ''u'', lit ''Ada'')] [] None None = Inr v"
    "msgs = [\<lparr>pm_role = lit ''system'', pm_content = trusted\<rparr>,
       \<lparr>pm_role = lit ''user'', pm_content = untrusted_begin @ [10] @ payload @ [10] @ untrusted_end\<rparr>]"
    "60 \<notin> set payload" "\<forall>depth. json_ok depth v \<longrightarrow> loads plain_hooks depth payload = Inr (sort_keys v)"
    using request_data_inert [OF run] by blast
  with run ok demo_request_data show ?thesis by (intro exI [of _ c] exI [of _ trusted] exI [of _ payload]) simp
qed

section \<open>Prompt handoffs carry user turns only\<close>







section \<open>Prompt files\<close>

definition prompt_cache_ok :: "prompt_cache \<Rightarrow> bool" where
  "prompt_cache_ok cache \<longleftrightarrow> (\<forall>name m n t. cache name = Some (m, n, t) \<longrightarrow> \<not> blank t)"

lemma prompt_text_nonblank: "prompt_text raw = Inr t \<Longrightarrow> \<not> blank t"
  by (auto simp: prompt_text_def split: if_splits option.splits list.splits)

lemma read_fixed_file_ok:
  assumes "prompt_cache_ok cache" "read_fixed_file fs cache name = (cache', r)"
  shows "prompt_cache_ok cache' \<and> (\<forall>t. r = Inr t \<longrightarrow> \<not> blank t)"
  using assms prompt_text_nonblank unfolding read_fixed_file_def prompt_cache_ok_def
  by (fastforce split: prompt_file.splits option.splits sum.splits if_splits prod.splits)

end
