(* ===== verification/Compaction_Guarantees.thy ===== *)
theory Compaction_Guarantees
  imports Compaction Context_Guarantees
begin

text \<open>
  Compaction loses no user turn, keeps the recent turns of a chat and ends in a request that fits.
\<close>

section \<open>Snapshots\<close>

lemma snapshot_messages_of:
  assumes "ms \<noteq> []" "\<forall>x\<in>set ms. pm_role x \<in> set provider_roles"
  shows "snapshot_messages e (snapshot_of mode ms) = Inr ms"
proof -
  have "map_res (snapshot_message e) (map (\<lambda>m. JDict [(lit ''role'', JStr (pm_role m)),
      (lit ''content'', JStr (pm_content m))]) ms) = Inr ms"
    using assms(2) by (induction ms) (auto simp: payload_field_def get_def)
  with assms(1) show ?thesis
    by (simp add: snapshot_messages_def snapshot_of_def payload_field_def get_def)
qed

lemma snapshot_mode_of [simp]: "snapshot_mode (snapshot_of mode ms) = mode"
  by (simp add: snapshot_mode_def snapshot_of_def get_def)

lemma protocol_retry_keeps_data:
  assumes "\<forall>x\<in>set ms. pm_role x \<in> set provider_roles"
  shows "\<exists>t. protocol_retry_snapshot (snapshot_of mode (\<lparr>pm_role = lit ''system'', pm_content = s\<rparr> # ms)) e
    = Inr (snapshot_of mode (\<lparr>pm_role = lit ''system'', pm_content = s @ t\<rparr> # ms))"
proof -
  have "snapshot_messages ''invalid_request_snapshot'' (snapshot_of mode (\<lparr>pm_role = lit ''system'', pm_content = s\<rparr> # ms))
      = Inr (\<lparr>pm_role = lit ''system'', pm_content = s\<rparr> # ms)"
    by (rule snapshot_messages_of) (use assms in \<open>auto simp: provider_roles_def\<close>)
  then show ?thesis by (auto simp: protocol_retry_snapshot_def Let_def)
qed

text \<open>Every repairable mistake has guidance of its own.\<close>

lemma repairable_codes_have_guidance: "set repairable_state_codes \<subseteq> fst ` set protocol_retry_guidance"
  by (simp add: repairable_state_codes_def protocol_retry_guidance_def)

section \<open>Chunks of a prompt handoff\<close>



section \<open>Groups and merging\<close>

lemma handoff_groups_concat:
  "handoff_groups fits current xs = Inr gs \<Longrightarrow> concat gs = current @ xs"
  by (induction fits current xs arbitrary: gs rule: handoff_groups.induct) (auto simp: res_simps split: if_splits)

lemma handoff_groups_fit:
  "handoff_groups fits current xs = Inr gs \<Longrightarrow> current = [] \<or> length current = 1 \<or> fits current = Inr True \<Longrightarrow>
   g \<in> set gs \<Longrightarrow> g \<noteq> [] \<and> (length g = 1 \<or> fits g = Inr True)"
proof (induction xs arbitrary: current gs)
  case (Cons x xs)
  from Cons.prems(1) obtain ok where ok: "fits (current @ [x]) = Inr ok" by (auto simp: res_simps)
  show ?case
  proof (cases ok)
    case True
    with Cons.prems ok Cons.IH [of "current @ [x]" gs] show ?thesis by simp
  next
    case False
    with Cons.prems(1) ok obtain rest where
      "handoff_groups fits [x] xs = Inr rest" "gs = current # rest" "current \<noteq> []"
      by (auto simp: res_simps split: if_splits)
    with Cons.prems(2,3) Cons.IH [of "[x]" rest] show ?thesis by auto
  qed
qed (auto split: if_splits)


text \<open>A group that starts later than the first is not checked alone: an extract that does not fit
  becomes a group of its own and a request over the budget is sent for it.\<close>

lemma oversized_group:
  "bounded_handoff_groups (\<lambda>g. Inr (length (concat g) \<le> 3)) [[1], [1], [1, 2, 3, 4]]
   = Inr [[[1], [1]], [[1, 2, 3, 4]]]"
  by (simp add: bounded_handoff_groups_def)




section \<open>Summaries of a chat\<close>

lemma sorted_unsummarized:
  assumes "distinct (map cm_ordinal (re_messages env))"
  shows "sorted_wrt (<) (unsummarized env th)"
proof -
  have "distinct (map cm_ordinal (filter (\<lambda>x. in_range a None (cm_ordinal x)) (re_messages env)))" for a
    using assms by (rule distinct_map_filter)
  then show ?thesis
    by (simp add: strict_sorted_iff unsummarized_def ranged_messages_def distinct_map_sort)
qed

lemma filter_sorted_drop:
  "sorted_wrt (<) (xs :: int list) \<Longrightarrow> \<exists>k. filter (\<lambda>x. n < x) xs = drop k xs"
proof (induction xs)
  case (Cons x xs)
  show ?case
  proof (cases "n < x")
    case True
    with Cons.prems have "filter (\<lambda>x. n < x) (x # xs) = drop 0 (x # xs)"
      by (auto simp: filter_id_conv dest: order_less_trans)
    then show ?thesis by blast
  next
    case False
    with Cons obtain k where "filter (\<lambda>x. n < x) (x # xs) = drop (Suc k) (x # xs)" by auto
    then show ?thesis by blast
  qed
qed simp

lemma unsummarized_after:
  assumes "n \<in> set (unsummarized env th)"
  shows "unsummarized env (summarized t n th) = filter (\<lambda>x. n < x) (unsummarized env th)"
proof -
  let ?m = "case ct_summary_through th of None \<Rightarrow> 0 | Some m \<Rightarrow> m"
  have "?m < n" using assms unfolding set_unsummarized by blast
  then have "filter (\<lambda>x. n < cm_ordinal x) (re_messages env)
      = filter (\<lambda>x. n < cm_ordinal x) (filter (\<lambda>x. ?m < cm_ordinal x) (re_messages env))"
    unfolding filter_filter by (intro filter_cong) auto
  then show ?thesis
    by (simp add: unsummarized_def summarized_def ranged_messages_def in_range_def filter_map o_def filter_sort)
qed

lemma compaction_round_keeps:
  assumes "compaction_round cs call g env th = Inr (th', s)" "4 \<le> cs_recent cs"
    and "distinct (map cm_ordinal (re_messages env))"
  shows "\<exists>k. unsummarized env th' = drop k (unsummarized env th) \<and> 4 \<le> length (unsummarized env th')"
proof -
  let ?u = "unsummarized env th"
  obtain t n where c: "n \<in> set (summary_candidates cs ?u)" and th': "th' = summarized t n th"
    by (rule compaction_round_cases [OF assms(1)])
  have n: "n \<in> set ?u" by (rule subsetD [OF summary_candidates_subset c])
  define keep where "keep = (if cs_recent cs < length ?u then cs_recent cs else min_recent_messages)"
  have u4: "4 < length ?u" using assms(1) by (auto simp: compaction_round_def min_recent_messages_def split: if_splits)
  then have keep: "4 \<le> keep" "keep < length ?u" using assms(2) by (auto simp: keep_def min_recent_messages_def)
  have c': "n \<in> set (take (length ?u - keep) ?u)"
    using c by (simp add: summary_candidates_def keep_def Let_def)
  have late: "\<forall>x\<in>set (drop (length ?u - keep) ?u). n < x"
    using sorted_unsummarized [OF assms(3), of th] c'
    by (metis append_take_drop_id sorted_wrt_append)
  have "length (filter (\<lambda>x. n < x) (drop (length ?u - keep) ?u)) = keep"
    using late keep by (simp add: filter_id_conv [THEN iffD2])
  then have "keep \<le> length (filter (\<lambda>x. n < x) ?u)"
    by (metis append_take_drop_id filter_append le_add2 length_append)
  moreover have "unsummarized env th' = filter (\<lambda>x. n < x) ?u"
    unfolding th' by (rule unsummarized_after [OF n])
  moreover obtain k where "filter (\<lambda>x. n < x) ?u = drop k ?u"
    using filter_sorted_drop [OF sorted_unsummarized [OF assms(3)]] by blast
  ultimately show ?thesis using keep by (intro exI [of _ k]) simp
qed

lemma compact_chat_loop_spec:
  assumes "compact_chat_loop cs call g env th s = Inr (th', s')"
    and "4 \<le> cs_recent cs" "distinct (map cm_ordinal (re_messages env))"
  shows "fits_budget cs s' = Inr True \<and>
    (th' = th \<and> s' = s \<or>
     request_snapshot_of env th' (lit ''chat'') None None = Inr s' \<and>
     (\<exists>k. unsummarized env th' = drop k (unsummarized env th)) \<and> 4 \<le> length (unsummarized env th'))"
  using assms
proof (induction cs call g env th s rule: compact_chat_loop.induct)
  case (1 cs call g env th s)
  from "1.prems"(1) obtain ok where ok: "fits_budget cs s = Inr ok"
    by (auto simp: compact_chat_loop.simps [of _ _ _ _ th] split: sum.splits)
  show ?case
  proof (cases ok)
    case True
    with "1.prems"(1) ok show ?thesis by (simp add: compact_chat_loop.simps [of _ _ _ _ th])
  next
    case False
    with "1.prems"(1) ok obtain th1 s1 where r: "compaction_round cs call g env th = Inr (th1, s1)"
      and rest: "compact_chat_loop cs call g env th1 s1 = Inr (th', s')"
      by (auto simp: compact_chat_loop.simps [of _ _ _ _ th] split: sum.splits)
    obtain k where k: "unsummarized env th1 = drop k (unsummarized env th)" "4 \<le> length (unsummarized env th1)"
      using compaction_round_keeps [OF r "1.prems"(2,3)] by blast
    have q: "request_snapshot_of env th1 (lit ''chat'') None None = Inr s1"
      by (rule compaction_round_cases [OF r])
    have "fits_budget cs s' = Inr True \<and>
      (th' = th1 \<and> s' = s1 \<or> request_snapshot_of env th' (lit ''chat'') None None = Inr s' \<and>
       (\<exists>k. unsummarized env th' = drop k (unsummarized env th1)) \<and> 4 \<le> length (unsummarized env th'))"
      using "1.IH" [of ok "(th1, s1)" th1 s1] ok False r rest "1.prems"(2,3) by simp
    with q k show ?thesis by (auto intro: exI [of _ k])
  qed
qed

text \<open>C13: Compacting a chat keeps its recent turns.  When at least four recent messages are to be kept
  and ordinals are distinct, a compaction that succeeds ends in a request that fits the budget; either
  nothing was summarized, or the request is that of the conversation with its new summary, of the turns
  not yet summarized only the oldest were taken, and at least four of them remain verbatim.\<close>

theorem chat_compaction_keeps_recent:
  assumes "4 \<le> cs_recent cs" "distinct (map cm_ordinal (re_messages env))"
    and "compact_chat_context cs call g env th s = Inr (th', s')"
  shows "fits_budget cs s' = Inr True \<and>
    (th' = th \<and> s' = s \<or>
     request_snapshot_of env th' (lit ''chat'') None None = Inr s' \<and>
     (\<exists>k. unsummarized env th' = drop k (unsummarized env th)) \<and> 4 \<le> length (unsummarized env th'))"
proof -
  have "compact_chat_loop cs call g env th s = Inr (th', s')"
    using assms(3) by (auto simp: compact_chat_context_def res_simps)
  then show ?thesis by (rule compact_chat_loop_spec [OF _ assms(1,2)])
qed

section \<open>Concrete compactions\<close>

definition demo_settings :: compaction_settings where
  "demo_settings = \<lparr>cs_budget = 0, cs_recent = 12, cs_tokens = (\<lambda>_. 0), cs_depth = 20, cs_limits = demo_limits\<rparr>"

definition demo_env :: request_env where
  "demo_env =
     \<lparr>re_messages = [demo_user_turn], re_labels = [(lit ''u'', lit ''Ada'')], re_documents = [],
      re_canonical = None, re_prompts = (\<lambda>_. Present 0 1 (Some [80])), re_cache = (\<lambda>_. None), re_depth = 20,
      re_zone = (\<lambda>_. \<lparr>dt_year = 2026, dt_month = 1, dt_day = 2\<rparr>), re_now = \<lparr>dt_year = 2026, dt_month = 1, dt_day = 2\<rparr>,
      re_running = (\<lambda>_. True)\<rparr>"












section \<open>A compaction of a chat\<close>

definition demo_numbered :: "int \<Rightarrow> context_message" where
  "demo_numbered n = demo_user_turn\<lparr>cm_ordinal := n\<rparr>"

definition demo_summary :: json where
  "demo_summary = JDict [(lit ''version'', JInt 1), (lit ''summary'', JStr (lit ''Formal'')),
     (lit ''unresolved'', JList [JStr (lit ''title''), JStr (lit '' '')])]"

definition demo_summarizer :: provider where
  "demo_summarizer = (\<lambda>_ _. ([utf8_encode (dump esc demo_summary)], None))"

definition demo_conversation :: request_env where
  "demo_conversation = demo_env\<lparr>re_messages := map demo_numbered [2, 3, 4, 5, 6],
     re_cache := (\<lambda>_. Some (0, 1, [80]))\<rparr>"

text \<open>A budget that only a request of one message exceeds.\<close>

definition demo_tight :: compaction_settings where
  "demo_tight = demo_settings\<lparr>cs_tokens := (\<lambda>ms. if length ms = 1 then 1 else 0)\<rparr>"

definition demo_thread_at :: "pystr option \<Rightarrow> int \<Rightarrow> context_thread" where
  "demo_thread_at t n = demo_thread_context\<lparr>ct_summary := t, ct_summary_through := Some n\<rparr>"

lemma demo_numbered_facts [simp]: "cm_ordinal (demo_numbered n) = n" "cm_thread (demo_numbered n) = lit ''t''"
  by (simp_all add: demo_numbered_def demo_user_turn_def)

lemma demo_numbered_entry:
  "transcript_entry [(lit ''u'', lit ''Ada'')] None (demo_numbered n) =
    Inr \<lparr>te_ordinal = n, te_role = lit ''user'', te_actor = lit ''Ada'',
       te_content = [\<lparr>block_type = Conversation, block_text = lit ''a<b''\<rparr>], te_attachment = None\<rparr>"
  using demo_entry by (simp add: transcript_entry_def message_blocks_def message_actor_def demo_numbered_def
      demo_user_turn_def res_simps)

definition demo_numbered_json :: "int \<Rightarrow> json" where
  "demo_numbered_json n = JDict [(lit ''ordinal'', JInt n), (lit ''role'', JStr (lit ''user'')),
     (lit ''actor'', JStr (lit ''Ada'')),
     (lit ''content'', JList [JDict [(lit ''type'', JStr (lit ''conversation'')), (lit ''text'', JStr (lit ''a<b''))]])]"

lemma demo_untrusted_entry:
  "untrusted_entry (demo_thread_at t a) [(lit ''u'', lit ''Ada'')] [] zone (demo_numbered n)
   = Inr (if n \<le> a then None else Some (demo_numbered_json n))"
proof -
  have "cm_created (demo_numbered n) = None" by (simp add: demo_numbered_def demo_user_turn_def)
  then show ?thesis
    by (simp add: untrusted_entry_def demo_thread_at_def demo_numbered_entry demo_numbered_json_def entry_json_def)
qed

lemma demo_transcript:
  "distinct ns \<Longrightarrow> set ns \<inter> seen = {} \<Longrightarrow>
   collect_transcript (untrusted_entry (demo_thread_at t a) [(lit ''u'', lit ''Ada'')] [] zone) (lit ''t'') seen
     (map demo_numbered ns) = Inr (map demo_numbered_json (filter (\<lambda>n. a < n) ns))"
  by (induction ns arbitrary: seen) (auto simp: demo_untrusted_entry)

lemma demo_transcript_depth:
  "fold max (map json_depth (map demo_numbered_json ns)) 0 \<le> 3"
proof -
  have "fold max (map json_depth (map demo_numbered_json ns)) k \<le> max 3 k" for k
  proof (induction ns arbitrary: k)
    case (Cons n ns)
    have "json_depth (demo_numbered_json n) = 3" by (simp add: demo_numbered_json_def)
    with Cons [of "max 3 k"] show ?case by simp
  qed simp
  from this [of 0] show ?thesis by simp
qed

lemma demo_conversation_messages: "sort_key cm_ordinal (filter P (re_messages demo_conversation)) = filter P (map demo_numbered [2, 3, 4, 5, 6])"
proof -
  have "sorted (map cm_ordinal (filter P (map demo_numbered [2, 3, 4, 5, 6])))"
    by (rule sorted_filter) simp
  then show ?thesis by (simp add: demo_conversation_def sorted_sort_id sort_key_id_if_sorted del: list.map filter.simps)
qed


lemma demo_conversation_fields:
  "re_labels demo_conversation = [(lit ''u'', lit ''Ada'')]" "re_canonical demo_conversation = None" "re_depth demo_conversation = 20"
  "re_prompts demo_conversation = (\<lambda>_. Present 0 1 (Some [80]))" "re_cache demo_conversation = (\<lambda>_. Some (0, 1, [80]))"
  "re_running demo_conversation = (\<lambda>_. True)"
  by (simp_all add: demo_conversation_def demo_env_def)

lemma demo_conversation_request:
  assumes "p = lit ''chat'' \<or> p = lit ''summary''"
  shows "\<exists>trusted e. request_snapshot_of demo_conversation (demo_thread_at t a) p after through
    = Inr (snapshot_of (lit ''translate'') [\<lparr>pm_role = lit ''system'', pm_content = trusted\<rparr>,
         \<lparr>pm_role = lit ''user'', pm_content = e\<rparr>])"
proof -
  define b where "b = effective_after (demo_thread_at t a) p after"
  define ns where "ns = filter (in_range b through) [2, 3, 4, 5, 6]"
  have ms: "ranged_messages demo_conversation b through = map demo_numbered ns"
    unfolding ranged_messages_def demo_conversation_messages ns_def by (simp add: filter_map o_def del: list.map filter.simps)
  have "sort_key cm_ordinal (map demo_numbered ns) = map demo_numbered ns"
  proof (rule sort_key_id_if_sorted)
    have "sorted (filter (in_range b through) [2, 3, 4, 5, 6])" by (rule sorted_wrt_filter) simp
    then show "sorted (map cm_ordinal (map demo_numbered ns))" by (simp add: ns_def o_def del: filter.simps)
  qed
  moreover have "distinct ns" by (simp add: ns_def)
  moreover have "\<not> 20 < json_depth (envelope_payload (demo_thread_at t a) None None (map demo_numbered_json ns'))" for ns'
    using demo_transcript_depth [of ns'] 
    by (cases t) (simp_all add: envelope_payload_def optional_json_def canonical_payload_def demo_thread_at_def)
  moreover have "ct_id (demo_thread_at t a) = lit ''t''"
    by (simp add: demo_thread_at_def demo_thread_context_def)
  ultimately obtain e where "untrusted_envelope 20 (demo_thread_at t a) (map demo_numbered ns) [(lit ''u'', lit ''Ada'')] []
      None None (re_zone demo_conversation) = Inr e"
    by (simp add: untrusted_envelope_def demo_transcript safe_json_def)
  moreover have "ranged_documents demo_conversation p b through = Inr []" "latest_reference demo_conversation p = Inr None"
    by (simp_all add: ranged_documents_def latest_reference_def demo_conversation_def demo_env_def)
  moreover have "ct_mode (demo_thread_at t a) = lit ''translate''"
    by (simp add: demo_thread_at_def demo_thread_context_def)
  moreover have "read_fixed_file (\<lambda>_. Present 0 1 (Some [80])) (\<lambda>_. Some (0, 1, [80])) name
      = ((\<lambda>_. Some (0, 1, [80])), Inr [80])" for name
    by (simp add: read_fixed_file_def)
  ultimately show ?thesis
    using assms
    by (auto simp: request_snapshot_of_def Let_def b_def [symmetric] ms build_provider_messages_def
        validated_mode_def validated_purpose_def purposes_def prompt_files_def dated_purposes_def
        system_message_def maintenance_system_message_def protocol_prompt_def mode_prompt_def then_read_def
        has_source_docx_def demo_conversation_fields)
qed


lemma demo_summary_read: "parse_context_summary 20 (utf8_encode (dump esc demo_summary))
   = Inr (Some (lit ''Formal'' @ [10, 10] @ lit ''Unresolved:'' @ [10] @ lit ''- title''))"
proof -
  have ok: "json_ok 20 demo_summary"
    by (simp add: demo_summary_def small_json_int [of 1, simplified])
  have "utf8_decode (utf8_encode (dump esc demo_summary)) = Some (dump esc demo_summary, [])"
    by (rule utf8_decode_encode)
      (simp add: demo_summary_def lit_def esc_def esc_char_def scalar_def surrogate_def str_int_def str_nat_def digits_of.simps)
  moreover have "loads plain_hooks 20 (dump esc demo_summary) = Inr demo_summary"
    by (rule plain_codec.loads_dump [OF ok accepts_pairs_plain])
  ultimately show ?thesis
    by (simp add: parse_context_summary_def)
      (simp add: demo_summary_def summary_fields_def payload_field_def get_def summary_text_def blank_iff strip_def
        lit_def py_space_def surrogate_def Let_def)
qed


lemma demo_summary_generated: "generate_context_summary demo_summarizer 20 g n s
   = Inr (lit ''Formal'' @ [10, 10] @ lit ''Unresolved:'' @ [10] @ lit ''- title'')"
proof -
  have "length (utf8_encode (dump esc demo_summary)) \<le> 131072"
    by (simp add: demo_summary_def lit_def esc_def esc_char_def str_int_def str_nat_def digits_of.simps
        utf8_encode_def utf8_char_def)
  then show ?thesis
    by (simp add: generate_context_summary_def summary_attempt_def bounded_call_def demo_summarizer_def
        collect_chunk_def demo_summary_read)
qed

lemma demo_conversation_fits: "snapshot_of m [\<lparr>pm_role = lit ''system'', pm_content = t\<rparr>, \<lparr>pm_role = lit ''user'', pm_content = e\<rparr>] = s
   \<Longrightarrow> fits_budget demo_tight s = Inr True"
  by (auto simp: fits_budget_def snapshot_fits_def snapshot_messages_of demo_tight_def demo_settings_def
      provider_roles_def)

lemma demo_request_fits:
  assumes "p = lit ''chat'' \<or> p = lit ''summary''"
  obtains s where "request_snapshot_of demo_conversation (demo_thread_at t a) p after through = Inr s"
    "fits_budget demo_tight s = Inr True"
  using demo_conversation_request [OF assms, of t a after through] demo_conversation_fits by blast

lemma demo_unsummarized: "unsummarized demo_conversation (demo_thread_at t a) = filter (\<lambda>n. a < n) [2, 3, 4, 5, 6]"
proof -
  have "ct_summary_through (demo_thread_at t a) = Some a" by (simp add: demo_thread_at_def)
  then show ?thesis
    unfolding unsummarized_def ranged_messages_def demo_conversation_messages by (simp add: in_range_def)
qed

theorem chat_compaction_keeps_recent_witness:
  "\<exists>s. compact_chat_context demo_tight demo_summarizer ''g'' demo_conversation (demo_thread_at None 1)
        (snapshot_of (lit ''translate'') [\<lparr>pm_role = lit ''system'', pm_content = []\<rparr>])
      = Inr (demo_thread_at (Some (lit ''Formal'' @ [10, 10] @ lit ''Unresolved:'' @ [10] @ lit ''- title'')) 2, s)
    \<and> fits_budget demo_tight s = Inr True"
proof -
  let ?t = "lit ''Formal'' @ [10, 10] @ lit ''Unresolved:'' @ [10] @ lit ''- title''"
  let ?s = "snapshot_of (lit ''translate'') [\<lparr>pm_role = lit ''system'', pm_content = []\<rparr>]"
  have big: "fits_budget demo_tight ?s = Inr False"
    by (simp add: fits_budget_def snapshot_fits_def snapshot_messages_of demo_tight_def demo_settings_def
        provider_roles_def input_tokens_upper_bound_def)
  obtain floor where floor: "request_snapshot_of demo_conversation (demo_thread_at None 1) (lit ''chat'') (Some 2) None = Inr floor"
    "fits_budget demo_tight floor = Inr True" using demo_request_fits by blast
  obtain sum where sum: "request_snapshot_of demo_conversation (demo_thread_at None 1) (lit ''summary'') None (Some 2) = Inr sum"
    "fits_budget demo_tight sum = Inr True" using demo_request_fits by blast
  obtain new where new: "request_snapshot_of demo_conversation (demo_thread_at (Some ?t) 2) (lit ''chat'') None None = Inr new"
    "fits_budget demo_tight new = Inr True" using demo_request_fits by blast
  have "require_compactable_floor demo_tight demo_conversation (demo_thread_at None 1) = Inr ()"
    using floor by (simp add: require_compactable_floor_def demo_unsummarized min_recent_messages_def)
  moreover have "compaction_round demo_tight demo_summarizer ''g'' demo_conversation (demo_thread_at None 1)
      = Inr (demo_thread_at (Some ?t) 2, new)"
  proof -
    have "cs_recent demo_tight = 12" "cs_depth demo_tight = 20" by (simp_all add: demo_tight_def demo_settings_def)
    moreover have "summarized ?t 2 (demo_thread_at None 1) = demo_thread_at (Some ?t) 2"
      by (simp add: summarized_def demo_thread_at_def)
    ultimately show ?thesis
      using sum new
      by (simp add: compaction_round_def demo_unsummarized min_recent_messages_def summary_candidates_def
          largest_bounded_summary_def largest_fitting.simps demo_summary_generated demo_conversation_fields)
  qed
  ultimately have run: "compact_chat_context demo_tight demo_summarizer ''g'' demo_conversation (demo_thread_at None 1) ?s
      = Inr (demo_thread_at (Some ?t) 2, new)"
    using big new(2) by (simp add: compact_chat_context_def compact_chat_loop.simps)
  have "distinct (map cm_ordinal (re_messages demo_conversation))" "4 \<le> cs_recent demo_tight"
    by (simp_all add: demo_conversation_def demo_tight_def demo_settings_def)
  from chat_compaction_keeps_recent [OF this(2,1) run] run show ?thesis by blast
qed

end
