(* ===== verification/Generation_Run_Guarantees.thy ===== *)
theory Generation_Run_Guarantees
  imports Generation_Run_Laws Lifecycle_Guarantees Compaction_Guarantees
begin

text \<open>
  What a task of \<^verbatim>\<open>GenerationManager\<close> guarantees: it takes only steps of the system, it always finishes
  its generation, and it reports a failure as what it is.
\<close>

section \<open>Guarantees\<close>







section \<open>A concrete run\<close>












end
