(* ===== verification/Stream_Laws.thy ===== *)
theory Stream_Laws
  imports Streams Lifecycle_Runs Protocol_Guarantees
begin

text \<open>
  The draft is the decoder's view of the response so far, and a reader's unread items lead from what
  the browser shows to the draft: the invariant of a reader in every interleaving with the task.
\<close>

section \<open>Drafts and decoded blocks\<close>

lemma snapshot_blocks_simps [simp]:
  "snapshot_blocks [] = []" "snapshot_blocks (b # bs) = \<lparr>block_type = fst b, block_text = concat (snd b)\<rparr> # snapshot_blocks bs"
  "snapshot_blocks (as @ bs) = snapshot_blocks as @ snapshot_blocks bs" "snapshot_blocks bs = [] \<longleftrightarrow> bs = []"
  by (auto simp: snapshot_blocks_def split: prod.split)

lemma snapshot_blocks_last:
  "bs \<noteq> [] \<Longrightarrow> snapshot_blocks bs = snapshot_blocks (butlast bs) @ [\<lparr>block_type = fst (last bs), block_text = concat (snd (last bs))\<rparr>]"
  by (metis append_butlast_last_id snapshot_blocks_simps(1,2,3))

text \<open>The operations sent with an update describe it exactly.\<close>

lemma draft_events_ops:
  "draft_events es bs = Inr (bs', ops) \<Longrightarrow> vw_blocks v = snapshot_blocks bs \<Longrightarrow>
     apply_ops ops v = Some (v\<lparr>vw_blocks := snapshot_blocks bs'\<rparr>)"
proof (induction es arbitrary: bs ops v)
  case (Cons e es)
  show ?case
  proof (cases e)
    case (BlockStart i t)
    with Cons.prems(1) obtain o' where "draft_events es (bs @ [(t, [])]) = Inr (bs', o')" "ops = OpStart t # o'"
      by (auto simp: res_simps)
    then show ?thesis using Cons.IH [of "bs @ [(t, [])]" o'] Cons.prems(2) by simp
  next
    case (BlockDelta i t s)
    let ?bs = "butlast bs @ [(fst (last bs), snd (last bs) @ [s])]"
    from BlockDelta Cons.prems(1) obtain o' where o': "bs \<noteq> []" "draft_events es ?bs = Inr (bs', o')" "ops = OpAppend s # o'"
      by (auto simp: res_simps split: if_splits)
    have "vw_blocks (v\<lparr>vw_blocks := butlast (vw_blocks v) @ [(last (vw_blocks v))\<lparr>block_text := block_text (last (vw_blocks v)) @ s\<rparr>]\<rparr>)
        = snapshot_blocks ?bs"
      using Cons.prems(2) snapshot_blocks_last [OF o'(1)] by simp
    from Cons.IH [OF o'(2) this] o' Cons.prems(2) show ?thesis by simp
  qed (use Cons in auto)
qed auto

definition decoder_draft :: "decoder \<Rightarrow> content_block list" where
  "decoder_draft d = blocks d @ (case active_type d of None \<Rightarrow> [] | Some t \<Rightarrow> [\<lparr>block_type = t, block_text = concat (active_parts d)\<rparr>])"

definition active_matches :: "decoder \<Rightarrow> bool" where
  "active_matches d \<longleftrightarrow> (active_id d = None \<longleftrightarrow> active_type d = None)"

lemma draft_events_append:
  "draft_events (es @ fs) bs = bind_res (draft_events es bs) (\<lambda>(bs', ops). bind_res (draft_events fs bs') (\<lambda>(bs'', ops'). Inr (bs'', ops @ ops')))"
proof (induction es arbitrary: bs)
  case Nil
  then show ?case by (cases "draft_events fs bs") auto
next
  case (Cons e es)
  then show ?case by (cases e) (auto simp: bind_res_def split: sum.splits)
qed

lemma consume_line_draft:
  assumes "consume_line d l = Inr (d', e)" "active_matches d" "decoder_inv d" "snapshot_blocks bs = decoder_draft d"
  shows "\<exists>bs' ops. draft_events [e] bs = Inr (bs', ops) \<and> snapshot_blocks bs' = decoder_draft d' \<and> active_matches d'"
proof -
  obtain n pl where "dispatch d n pl = Inr (d', e)"
    using assms(1) by (auto simp: consume_line_def res_simps split: if_splits option.splits json.splits)
  then consider "on_response_start d pl = Inr (d', e)" | "on_block_start d pl = Inr (d', e)" | "on_block_delta d pl = Inr (d', e)"
    | "on_block_end d pl = Inr (d', e)" | "on_state d pl = Inr (d', e)" | "on_response_end d pl = Inr (d', e)"
    by (auto simp: dispatch_def split: if_splits)
  then show ?thesis
  proof cases
    case 1
    then have "e = ResponseStart" "decoder_draft d' = decoder_draft d" "active_matches d' = active_matches d"
      by (auto simp: on_response_start_def res_simps decoder_draft_def active_matches_def split: if_splits option.split)
    then show ?thesis using assms by auto
  next
    case 2
    then obtain i t where "e = BlockStart i t" "active_type d = None \<Longrightarrow> decoder_draft d' = decoder_draft d @ [\<lparr>block_type = t, block_text = []\<rparr>]"
        "active_matches d'" "active_id d = None"
      by (auto simp: on_block_start_def res_simps decoder_draft_def active_matches_def split: if_splits option.splits json.splits)
    then show ?thesis using assms(2,4) by (auto simp: active_matches_def)
  next
    case 3
    then obtain i t s where e: "e = BlockDelta i t s" "active_type d = Some t" "blocks d' = blocks d" "active_type d' = Some t"
        "active_parts d' = active_parts d @ [s]" "active_matches d'"
      by (auto simp: on_block_delta_def res_simps active_matches_def split: if_splits option.splits json.splits)
    have ne: "bs \<noteq> []" using assms(4) e(2) by (auto simp: decoder_draft_def)
    have "snapshot_blocks (butlast bs) = blocks d" "\<lparr>block_type = fst (last bs), block_text = concat (snd (last bs))\<rparr>
        = \<lparr>block_type = t, block_text = concat (active_parts d)\<rparr>"
      using assms(4) snapshot_blocks_last [OF ne] by (simp_all add: decoder_draft_def e(2))
    then show ?thesis using e ne by (simp add: decoder_draft_def)
  next
    case 4
    then have "(\<exists>i. e = BlockEnd i)" "active_type d \<noteq> None \<longrightarrow> decoder_draft d' = decoder_draft d" "active_matches d'" "active_id d \<noteq> None"
      by (auto simp: on_block_end_def res_simps decoder_draft_def active_matches_def split: if_splits option.splits json.splits)
    then show ?thesis using assms by (auto simp: active_matches_def)
  next
    case 5
    then have "(\<exists>s. e = StateEvent s)" "decoder_draft d' = decoder_draft d" "active_matches d' = active_matches d"
      by (auto simp: on_state_def res_simps decoder_draft_def active_matches_def split: if_splits option.split)
    then show ?thesis using assms by auto
  next
    case 6
    then have "e = ResponseEnd" "decoder_draft d' = decoder_draft d" "active_matches d' = active_matches d"
      by (auto simp: on_response_end_def res_simps decoder_draft_def active_matches_def split: if_splits option.split)
    then show ?thesis using assms by auto
  qed
qed

lemma consume_lines_draft:
  assumes "consume_lines d ls = Inr (d', es)" "active_matches d" "decoder_inv d" "snapshot_blocks bs = decoder_draft d"
  shows "\<exists>bs' ops. draft_events es bs = Inr (bs', ops) \<and> snapshot_blocks bs' = decoder_draft d' \<and> active_matches d'"
  using assms
proof (induction ls arbitrary: d es bs)
  case (Cons l ls)
  then obtain d1 e es' where c: "consume_line d (removesuffix1 13 l) = Inr (d1, e)" "consume_lines d1 ls = Inr (d', es')" "es = e # es'"
    by (auto simp: res_simps)
  from consume_line_draft [OF c(1) Cons.prems(2,3,4)] obtain bs1 o1 where
    b1: "draft_events [e] bs = Inr (bs1, o1)" "snapshot_blocks bs1 = decoder_draft d1" "active_matches d1" by blast
  from Cons.IH [OF c(2) b1(3) consume_line_inv [OF c(1) Cons.prems(3)] b1(2)] obtain bs2 o2 where
    "draft_events es' bs1 = Inr (bs2, o2)" "snapshot_blocks bs2 = decoder_draft d'" "active_matches d'" by blast
  with b1(1) show ?case using draft_events_append [of "[e]" es' bs] c(3) by simp
qed simp

lemma consume_line_last:
  assumes "consume_line d l = Inr (d', e)" "completed d'"
  shows "decoder_draft d' = decoder_draft d"
  using assms
  by (auto simp: consume_line_def dispatch_def handler_defs res_simps decoder_draft_def
      split: if_splits option.splits json.splits)

lemma decode_response_draft:
  assumes n: "new_decoder lm = Some dec" and f: "feed_all dec cs = Inr (dec', evs)" and fin: "finish dec' = Inr doc"
  shows "\<exists>bs ops. draft_events evs [] = Inr (bs, ops) \<and> snapshot_blocks bs = doc_blocks doc"
proof -
  note i = new_decoder_buffer [OF n]
  from feed_all_refines [OF i(1) _ f] i obtain t where
    t: "utf8_decode (concat cs) = Some (t, utf8_buffer dec')" "line_buffer dec'" "case split_nl t of (ls, q) \<Rightarrow> consume_lines dec ls = Inr (core dec', evs) \<and> concat (pending dec') = q"
    by auto
  obtain ls q where c: "consume_lines dec ls = Inr (core dec', evs)" "concat (pending dec') = q" using t(3) by (cases "split_nl t") auto
  have d0: "active_matches dec" "decoder_draft dec = []"
    using n by (auto simp: new_decoder_def active_matches_def decoder_draft_def split: if_splits)
  from consume_lines_draft [OF c(1) d0(1) decoder_inv_new [OF n], of "[]"] d0(2) obtain bs ops where
    b: "draft_events evs [] = Inr (bs, ops)" "snapshot_blocks bs = decoder_draft (core dec')" "active_matches (core dec')" by auto
  have inv: "decoder_inv (core dec')" using consume_lines_inv [OF c(1) decoder_inv_new [OF n]] by simp
  from fin obtain d e where d: "consume_lines (core dec') (if q = [] then [] else [q]) = Inr (d, e)" "conclude d = Inr doc"
    using finish_conclude [OF t(2)] c(2) by (auto simp: res_simps split: if_splits)
  have fd: "completed d" "doc_blocks doc = blocks d"
    using d(2) by (auto simp: conclude_def res_simps visible_blocks_iff split: if_splits option.splits)
  have "decoder_draft d = decoder_draft (core dec')"
    using d(1) consume_line_last fd(1) by (auto simp: res_simps split: if_splits)
  moreover have "active_matches d" "decoder_inv d"
    using consume_lines_draft [OF d(1) b(3) inv b(2)] consume_lines_inv [OF d(1) inv] by auto
  moreover from this fd(1) have "active_type d = None" by (auto simp: decoder_inv_def active_matches_def)
  ultimately show ?thesis using b(1,2) fd(2) by (auto simp: decoder_draft_def)
qed

section \<open>Queues\<close>

lemma offer_length: "length q \<le> stream_queue_size \<Longrightarrow> length (offer q i) \<le> stream_queue_size"
  by (simp add: offer_def stream_queue_size_def)

lemma offer_nonempty: "offer q i \<noteq> []"
  by (simp add: offer_def)

lemma offer_close: "i = Close \<or> Close \<in> set q \<Longrightarrow> Close \<in> set (offer q i)"
  by (auto simp: offer_def)

section \<open>A reader and the draft it follows\<close>

text \<open>The items a reader has not handled yet, and whether handling them leads it from sequence number
  \<open>k\<close> to the draft's \<open>n\<close>: they continue without a gap, or a marker makes the reader ask again.\<close>

definition unread :: "reader \<Rightarrow> stream_item list" where
  "unread r = (case rd_pending r of None \<Rightarrow> [] | Some i \<Rightarrow> [i]) @ rd_queue r"

fun covers :: "stream_item list \<Rightarrow> nat \<Rightarrow> nat \<Rightarrow> bool" where
  "covers [] k n \<longleftrightarrow> k = n"
| "covers (Delta j ops # q) k n \<longleftrightarrow> (if j \<le> k then covers q k n else if j = k + 1 then covers q j n else True)"
| "covers (_ # q) k n \<longleftrightarrow> True"

text \<open>The drafts by sequence number; every delta describes the step between two of them.\<close>

definition delta_ok :: "view list \<Rightarrow> stream_item \<Rightarrow> bool" where
  "delta_ok hist i \<longleftrightarrow> (case i of Delta k ops \<Rightarrow> 1 \<le> k \<and> k < length hist
     \<and> map_option (\<lambda>w. w\<lparr>vw_seq := k\<rparr>) (apply_ops ops (hist ! (k - 1))) = Some (hist ! k) | _ \<Rightarrow> True)"

definition numbered :: "view list \<Rightarrow> bool" where
  "numbered hist \<longleftrightarrow> (\<forall>k<length hist. vw_seq (hist ! k) = k)"

definition live_view :: "live \<Rightarrow> view" where
  "live_view l = \<lparr>vw_status = lv_status l, vw_blocks = snapshot_blocks (lv_blocks l), vw_seq = lv_seq l\<rparr>"

lemma covers_marker: "covers (q @ Resync # q') k n" "covers (q @ Close # q') k n"
  by (induction q k n rule: covers.induct) auto

definition reached :: "nat \<Rightarrow> stream_item \<Rightarrow> bool" where
  "reached n i \<longleftrightarrow> (case i of Delta j ops \<Rightarrow> j \<le> n | _ \<Rightarrow> True)"

lemma reached_simps [simp]: "reached n (Delta j ops) \<longleftrightarrow> j \<le> n" "reached n Resync" "reached n Close"
  by (simp_all add: reached_def)

lemma covers_snoc: "covers q k n \<Longrightarrow> k \<le> n \<Longrightarrow> \<forall>i\<in>set q. reached n i \<Longrightarrow> covers (q @ [Delta (Suc n) ops]) k (Suc n)"
  by (induction q k n rule: covers.induct) auto

lemma covers_done: "\<forall>i\<in>set q. reached n i \<Longrightarrow> covers q n n"
proof (induction q)
  case (Cons i q)
  then show ?case by (cases i) auto
qed simp

lemma covers_offer:
  assumes "covers (p @ q) k n" "k \<le> n" "\<forall>i\<in>set (p @ q). reached n i"
  shows "covers (p @ offer q (Delta (Suc n) ops)) k (Suc n)" "covers (p @ offer q Resync) k m"
proof -
  have 1: "covers (p @ [Resync]) k x" "covers (p @ [Close]) k x" for x using covers_marker by auto
  show "covers (p @ offer q (Delta (Suc n) ops)) k (Suc n)"
    using covers_snoc [OF assms, of ops] 1 by (simp add: offer_def)
  show "covers (p @ offer q Resync) k m" using covers_marker [of "p @ q" "[]"] 1 by (simp add: offer_def)
qed

lemma offer_members: "set (offer q i) \<subseteq> insert i (insert Resync (insert Close (set q)))"
  by (auto simp: offer_def)

text \<open>A reader, the draft, the browser's view and the drafts so far.\<close>

record watch =
  w_hub :: hub
  w_reader :: reader
  w_view :: view
  w_hist :: "view list"

definition following :: "view list \<Rightarrow> live \<Rightarrow> reader \<Rightarrow> view \<Rightarrow> bool" where
  "following hist l r v \<longleftrightarrow> numbered hist \<and> length hist = Suc (lv_seq l) \<and> hist ! lv_seq l = live_view l
     \<and> rd_last r \<le> lv_seq l \<and> v = hist ! rd_last r \<and> (\<forall>i\<in>set (unread r). delta_ok hist i)
     \<and> covers (unread r) (rd_last r) (lv_seq l)"

lemma delta_ok_reached: "delta_ok hist i \<Longrightarrow> length hist = Suc n \<Longrightarrow> reached n i"
  by (cases i) (auto simp: delta_ok_def)

lemma delta_ok_markers [simp]: "delta_ok hist Resync" "delta_ok hist Close"
  by (simp_all add: delta_ok_def)

lemma delta_ok_more: "delta_ok hist i \<Longrightarrow> delta_ok (hist @ [v]) i"
  by (cases i) (auto simp: delta_ok_def nth_append)

lemma numbered_snoc: "numbered hist \<Longrightarrow> vw_seq v = length hist \<Longrightarrow> numbered (hist @ [v])"
  by (auto simp: numbered_def nth_append less_Suc_eq)

definition offered :: "reader \<Rightarrow> stream_item \<Rightarrow> reader" where
  "offered r i = r\<lparr>rd_queue := offer (rd_queue r) i\<rparr>"

text \<open>The draft moves on, with a delta that describes the move or with a marker.\<close>

lemma following_delta:
  assumes f: "following hist l r v" and l': "lv_seq l' = Suc (lv_seq l)"
    and d: "map_option (\<lambda>w. w\<lparr>vw_seq := lv_seq l'\<rparr>) (apply_ops ops (live_view l)) = Some (live_view l')"
  shows "following (hist @ [live_view l']) l' (offered r (Delta (lv_seq l') ops)) v"
proof -
  let ?p = "case rd_pending r of None \<Rightarrow> [] | Some i \<Rightarrow> [i]"
  have u: "unread (offered r i) = ?p @ offer (rd_queue r) i" for i by (simp add: unread_def offered_def)
  have h: "length hist = Suc (lv_seq l)" "hist ! lv_seq l = live_view l" using f by (auto simp: following_def)
  have w: "\<forall>i\<in>set (?p @ rd_queue r). reached (lv_seq l) i"
    using f delta_ok_reached h(1) by (auto simp: following_def unread_def)
  have "covers (unread (offered r (Delta (lv_seq l') ops))) (rd_last r) (lv_seq l')"
    using covers_offer(1) [of ?p "rd_queue r" "rd_last r" "lv_seq l" ops] f w unfolding u l' by (simp add: following_def unread_def)
  moreover have "delta_ok (hist @ [live_view l']) i" if "i \<in> set (unread (offered r (Delta (lv_seq l') ops)))" for i
  proof -
    have "i = Delta (lv_seq l') ops \<or> i = Resync \<or> i = Close \<or> i \<in> set (unread r)"
      using that offer_members [of "rd_queue r"] unfolding u by (auto simp: unread_def)
    then show ?thesis
      using f d h l' delta_ok_more by (auto simp: following_def delta_ok_def nth_append)
  qed
  ultimately show ?thesis
    using f h l' numbered_snoc [of hist "live_view l'"]
    by (auto simp: following_def offered_def live_view_def nth_append)
qed

lemma following_resync:
  assumes f: "following hist l r v" and l': "lv_seq l' = Suc (lv_seq l)"
  shows "following (hist @ [live_view l']) l' (offered r Resync) v"
proof -
  let ?p = "case rd_pending r of None \<Rightarrow> [] | Some i \<Rightarrow> [i]"
  have u: "unread (offered r i) = ?p @ offer (rd_queue r) i" for i by (simp add: unread_def offered_def)
  have h: "length hist = Suc (lv_seq l)" using f by (auto simp: following_def)
  have w: "\<forall>i\<in>set (?p @ rd_queue r). reached (lv_seq l) i"
    using f delta_ok_reached h by (auto simp: following_def unread_def)
  have "covers (unread (offered r Resync)) (rd_last r) (lv_seq l')"
    using covers_offer(2) [of ?p "rd_queue r" "rd_last r" "lv_seq l"] f w unfolding u by (simp add: following_def unread_def)
  moreover have "delta_ok (hist @ [live_view l']) i" if "i \<in> set (unread (offered r Resync))" for i
  proof -
    have "i = Resync \<or> i = Close \<or> i \<in> set (unread r)"
      using that offer_members [of "rd_queue r"] unfolding u by (auto simp: unread_def)
    then show ?thesis using f delta_ok_more by (auto simp: following_def)
  qed
  ultimately show ?thesis
    using f h l' numbered_snoc [of hist "live_view l'"]
    by (auto simp: following_def offered_def live_view_def nth_append)
qed

section \<open>One iteration of a reader\<close>

lemma next_item_Some:
  "next_item r = (Some i, r1) \<Longrightarrow> unread r = i # unread r1 \<and> rd_last r1 = rd_last r \<and> rd_open r1 = rd_open r \<and> rd_pending r1 = None"
  by (auto simp: next_item_def unread_def split: option.splits list.splits)

lemma next_item_None: "next_item r = (None, r1) \<Longrightarrow> unread r = [] \<and> r1 = r"
  by (auto simp: next_item_def unread_def split: option.splits list.splits)

lemma following_unread:
  assumes "following hist l r v" "unread r' = q" "rd_last r' = k" "set q \<subseteq> set (unread r)"
    "k \<le> lv_seq l" "v' = hist ! k" "covers q k (lv_seq l)"
  shows "following hist l r' v'"
  using assms by (auto simp: following_def)

lemma following_resynchronized:
  assumes f: "following hist l r v" and r1: "unread r = i # unread r1" "rd_last r1 = rd_last r"
    and s: "view_of s = live_view l" "\<not> is_terminal (sn_status s)"
    and st: "resynchronize (Some s) waited r1 = (r', out)"
  shows "\<exists>v'. receive_all out v = Some v' \<and> following hist l r' v'"
proof -
  have h: "length hist = Suc (lv_seq l)" "hist ! lv_seq l = live_view l" "v = hist ! rd_last r" "rd_last r \<le> lv_seq l"
    using f by (auto simp: following_def)
  have c: "covers (unread r1) (lv_seq l) (lv_seq l)"
    by (rule covers_done) (use f r1 delta_ok_reached h(1) in \<open>auto simp: following_def\<close>)
  have n: "sn_seq s = lv_seq l" using s(1) by (simp add: view_of_def live_view_def)
  have unr: "unread (r1\<lparr>rd_last := x\<rparr>) = unread r1" for x by (simp add: unread_def)
  show ?thesis
  proof (cases "rd_last r1 = sn_seq s")
    case True
    then have "r' = r1" "receive_all out v = Some v" using st s(2) by (auto simp: resynchronize_def split: if_splits)
    then show ?thesis using f r1 c n True h by (auto intro!: following_unread [OF f])
  next
    case False
    then have "r' = r1\<lparr>rd_last := sn_seq s\<rparr>" "out = [SseSnapshot s]" using st s(2) by (auto simp: resynchronize_def)
    then show ?thesis
      using f r1 c n h s(1) by (auto simp: unr intro!: following_unread [OF f])
  qed
qed

lemma apply_ops_append: "apply_ops (a @ b) v = Option.bind (apply_ops a v) (apply_ops b)"
  by (induction a v rule: apply_ops.induct) auto

lemma view_seq_commute:
  "v\<lparr>vw_seq := x, vw_status := s\<rparr> = v\<lparr>vw_status := s, vw_seq := x\<rparr>" "v\<lparr>vw_seq := x, vw_blocks := b\<rparr> = v\<lparr>vw_blocks := b, vw_seq := x\<rparr>"
  by simp_all

lemma apply_ops_seq: "apply_ops ops (v\<lparr>vw_seq := x\<rparr>) = map_option (\<lambda>w. w\<lparr>vw_seq := x\<rparr>) (apply_ops ops v)"
proof (induction ops v rule: apply_ops.induct)
  case (4 s ops v)
  then show ?case by (cases "vw_blocks v = []") (auto simp: view_seq_commute)
qed (auto simp: view_seq_commute)

definition describes :: "view list \<Rightarrow> nat \<Rightarrow> stream_op list \<Rightarrow> view \<Rightarrow> bool" where
  "describes hist k ops v \<longleftrightarrow> k < length hist \<and> map_option (\<lambda>w. w\<lparr>vw_seq := k\<rparr>) (apply_ops ops v) = Some (hist ! k)"

lemma describes_next:
  assumes "describes hist k ops v" "delta_ok hist (Delta (Suc k) ops')"
  shows "describes hist (Suc k) (ops @ ops') v"
proof -
  obtain w where w: "apply_ops ops v = Some w" "w\<lparr>vw_seq := k\<rparr> = hist ! k"
    using assms(1) by (auto simp: describes_def)
  have "map_option (\<lambda>u. u\<lparr>vw_seq := Suc k\<rparr>) (apply_ops ops' (w\<lparr>vw_seq := k\<rparr>)) = Some (hist ! Suc k)"
    using assms(2) w(2) by (simp add: delta_ok_def)
  then have "map_option (\<lambda>u. u\<lparr>vw_seq := Suc k\<rparr>) (apply_ops ops' w) = Some (hist ! Suc k)"
    by (simp add: apply_ops_seq option.map_comp o_def)
  then show ?thesis using assms(2) w(1) by (simp add: describes_def delta_ok_def apply_ops_append)
qed

lemma coalesce_ok:
  assumes "coalesce q k ops = (ops', k', pend, q')" "\<forall>i\<in>set q. delta_ok hist i" "covers q k n" "describes hist k ops v"
  shows "describes hist k' ops' v \<and> covers ((case pend of None \<Rightarrow> [] | Some i \<Rightarrow> [i]) @ q') k' n
    \<and> set ((case pend of None \<Rightarrow> [] | Some i \<Rightarrow> [i]) @ q') \<subseteq> set q"
  using assms
proof (induction q k ops rule: coalesce.induct)
  case (2 i q k ops)
  show ?case
  proof (cases "\<exists>o'. i = Delta (k + 1) o'")
    case True
    then obtain o' where i: "i = Delta (k + 1) o'" by blast
    have "coalesce q (k + 1) (ops @ o') = (ops', k', pend, q')" using 2(2) i by simp
    moreover have "covers q (k + 1) n" using 2(4) i by simp
    moreover have "describes hist (k + 1) (ops @ o') v" using describes_next [OF 2(5)] 2(3) i by simp
    ultimately show ?thesis using 2(1) [OF i refl] 2(3) by auto
  next
    case False
    then have "ops' = ops" "k' = k" "pend = Some i" "q' = q"
      using 2(2) by (auto split: stream_item.splits if_splits)
    then show ?thesis using 2(4,5) by simp
  qed
qed auto

lemma reader_step_follows:
  assumes f: "following hist l r v" and s: "view_of s = live_view l" "\<not> is_terminal (sn_status s)"
    and st: "reader_step due valid (Some s) True r = (r', out)"
  shows "\<exists>v'. receive_all out v = Some v' \<and> (rd_open r' \<longrightarrow> following hist l r' v')"
proof -
  obtain item r1 where n: "next_item r = (item, r1)" by fastforce
  note d = st [unfolded reader_step_def n prod.case]
  show ?thesis
  proof (cases item)
    case None
    then have "r' = r \<and> out = [KeepAlive] \<or> \<not> rd_open r' \<and> out = []"
      using d next_item_None [OF n [unfolded None]] by (auto split: if_splits)
    then show ?thesis using f by auto
  next
    case (Some i)
    note r1 = next_item_Some [OF n [unfolded Some]]
    have fr: "length hist = Suc (lv_seq l)" "v = hist ! rd_last r" "numbered hist" "rd_last r \<le> lv_seq l"
      "\<forall>i\<in>set (unread r). delta_ok hist i" "covers (unread r) (rd_last r) (lv_seq l)"
      using f by (auto simp: following_def)
    show ?thesis
    proof (cases "i = Close \<or> due \<and> \<not> valid")
      case True
      then have "r' = r1\<lparr>rd_open := False\<rparr> \<and> out = []" using d Some by (cases "i = Close") simp_all
      then show ?thesis by simp
    next
      case go: False
      have resync: "resynchronize (Some s) False r1 = (r', out) \<Longrightarrow> ?thesis"
        using following_resynchronized [OF f _ _ s] r1 by blast
      show ?thesis
      proof (cases i)
        case (Delta k ops)
        consider "k \<le> rd_last r" | "k > rd_last r + 1" | "k = rd_last r + 1" by linarith
        then show ?thesis
        proof cases
          case 1
          then have "r' = r1" "out = []" using d Some Delta go r1 by auto
          moreover have "following hist l r1 v"
            using 1 fr r1 Delta by (intro following_unread [OF f, where q = "unread r1"]) auto
          ultimately show ?thesis by simp
        next
          case 2
          then show ?thesis using d Some Delta go r1 resync by auto
        next
          case 3
          obtain ops' k' pend q where c: "coalesce (rd_queue r1) k ops = (ops', k', pend, q)" by (cases "coalesce (rd_queue r1) k ops") auto
          then have r': "r' = r1\<lparr>rd_queue := q, rd_pending := pend, rd_last := k'\<rparr>" "out = [SseDelta k k' ops']"
            using d Some Delta go r1 3 by auto
          have ur: "unread r = Delta k ops # rd_queue r1" using r1 Delta by (simp add: unread_def)
          have dk: "describes hist k ops v"
            using fr(2,5) 3 unfolding ur by (simp add: delta_ok_def describes_def)
          have "covers (rd_queue r1) k (lv_seq l)" using fr(6) 3 unfolding ur by simp
          from coalesce_ok [OF c _ this dk] fr(5) ur have k': "describes hist k' ops' v"
            "covers ((case pend of None \<Rightarrow> [] | Some i \<Rightarrow> [i]) @ q) k' (lv_seq l)"
            "set ((case pend of None \<Rightarrow> [] | Some i \<Rightarrow> [i]) @ q) \<subseteq> set (rd_queue r1)" by auto
          have "vw_seq v = rd_last r" using fr(1-4) by (simp add: numbered_def)
          then have "receive_all out v = Some (hist ! k')" using k'(1) 3 r'(2) by (auto simp: describes_def)
          moreover have "following hist l r' (hist ! k')"
            by (rule following_unread [OF f, where q = "(case pend of None \<Rightarrow> [] | Some i \<Rightarrow> [i]) @ q" and k = k'])
              (use k' fr(1) ur r'(1) in \<open>auto simp: unread_def describes_def\<close>)
          ultimately show ?thesis by blast
        qed
      qed (use d Some go r1 resync in auto)
    qed
  qed
qed

section \<open>Following a running generation\<close>

text \<open>One reader of a generation that this process runs: the task feeds the draft, changes its status or
  starts it over, the session may be closed, and the reader takes turns with it in any order.\<close>

definition moved :: "watch \<Rightarrow> hub \<Rightarrow> watch" where
  "moved w h = w\<lparr>w_hub := h, w_reader := (w_reader w)\<lparr>rd_queue := hd (hub_queues h)\<rparr>,
     w_hist := (case (hub_live (w_hub w), hub_live h) of
       (Some l, Some l') \<Rightarrow> if lv_seq l' = lv_seq l then w_hist w else w_hist w @ [live_view l'] | _ \<Rightarrow> w_hist w)\<rparr>"

inductive watching :: "watch \<Rightarrow> watch \<Rightarrow> bool" where
  events: "apply_live_events es (w_hub w) = Inr h \<Longrightarrow> watching w (moved w h)"
| status: "is_active s \<Longrightarrow> watching w (moved w (set_live_status s (w_hub w)))"
| reset: "watching w (moved w (fst (reset_draft_for_retry (w_hub w))))"
| sign_out: "watching w (moved w ((w_hub w)\<lparr>hub_queues := map close_stream (hub_queues (w_hub w))\<rparr>))"
| read: "rd_open (w_reader w) \<Longrightarrow> reader_step due valid (get_snapshot g (w_hub w) db) True (w_reader w) = (r, out)
    \<Longrightarrow> receive_all out (w_view w) = Some v
    \<Longrightarrow> watching w (w\<lparr>w_hub := (w_hub w)\<lparr>hub_queues := [rd_queue r]\<rparr>, w_reader := r, w_view := v\<rparr>)"

definition watch_ok :: "watch \<Rightarrow> bool" where
  "watch_ok w \<longleftrightarrow> (\<exists>l. hub_live (w_hub w) = Some l \<and> is_active (lv_status l) \<and> hub_queues (w_hub w) = [rd_queue (w_reader w)]
     \<and> (rd_open (w_reader w) \<longrightarrow> following (w_hist w) l (w_reader w) (w_view w)))"

lemma live_snapshot:
  "hub_live h = Some l \<Longrightarrow> is_active (lv_status l) \<Longrightarrow>
     \<exists>s. get_snapshot g h db = Some s \<and> view_of s = live_view l \<and> \<not> is_terminal (sn_status s)"
  by (auto simp: get_snapshot_def view_of_def live_view_def active_terminal)

lemma offered_moved: "hub_queues h = [q] \<Longrightarrow> hub_queues (publish i h) = [offer q i]"
  by (simp add: publish_def)

lemma watch_ok_delta:
  assumes "watch_ok w" "hub_live (w_hub w) = Some l" "h = publish (Delta (Suc (lv_seq l)) ops) ((w_hub w)\<lparr>hub_live := Some l'\<rparr>)"
    "lv_seq l' = Suc (lv_seq l)" "is_active (lv_status l')"
    "map_option (\<lambda>u. u\<lparr>vw_seq := lv_seq l'\<rparr>) (apply_ops ops (live_view l)) = Some (live_view l')"
  shows "watch_ok (moved w h)"
proof -
  have q: "hub_queues h = [offer (rd_queue (w_reader w)) (Delta (lv_seq l') ops)]" "hub_live h = Some l'"
    using assms(1,3,4) by (auto simp: watch_ok_def publish_def)
  have "following (w_hist w @ [live_view l']) l' (offered (w_reader w) (Delta (lv_seq l') ops)) (w_view w)" if "rd_open (w_reader w)"
    using following_delta [OF _ assms(4,6)] assms(1,2) that by (auto simp: watch_ok_def)
  then show ?thesis using q assms(2,4,5) by (simp add: watch_ok_def moved_def offered_def)
qed

lemma watch_ok_events:
  assumes w: "watch_ok w" and e: "apply_live_events es (w_hub w) = Inr h"
  shows "watch_ok (moved w h)"
proof -
  obtain l where l: "hub_live (w_hub w) = Some l" "lv_status l = Running" "hub_queues (w_hub w) = [rd_queue (w_reader w)]"
    using w e by (auto simp: watch_ok_def apply_live_events_def split: if_splits)
  obtain bs ops where d: "draft_events es (lv_blocks l) = Inr (bs, ops)"
    "h = (if ops = [] then w_hub w else publish (Delta (lv_seq l + 1) ops)
       ((w_hub w)\<lparr>hub_live := Some (l\<lparr>lv_blocks := bs, lv_seq := lv_seq l + 1\<rparr>)\<rparr>))"
    using e l by (auto simp: apply_live_events_def res_simps)
  show ?thesis
  proof (cases "ops = []")
    case True
    then have "moved w h = w" using d(2) l by (simp add: moved_def)
    then show ?thesis using w by simp
  next
    case False
    have "apply_ops ops (live_view l) = Some ((live_view l)\<lparr>vw_blocks := snapshot_blocks bs\<rparr>)"
      by (rule draft_events_ops [OF d(1)]) (simp add: live_view_def)
    then show ?thesis
      using False d(2) l by (intro watch_ok_delta [OF w l(1), of _ ops "l\<lparr>lv_blocks := bs, lv_seq := lv_seq l + 1\<rparr>"])
        (auto simp: live_view_def is_active_def active_statuses_def)
  qed
qed

lemma watch_ok_status:
  assumes w: "watch_ok w" and s: "is_active s"
  shows "watch_ok (moved w (set_live_status s (w_hub w)))"
proof -
  obtain l where l: "hub_live (w_hub w) = Some l" "is_active (lv_status l)" using w by (auto simp: watch_ok_def)
  then show ?thesis
    using s by (intro watch_ok_delta [OF w l(1), of _ "[OpStatus s]" "l\<lparr>lv_status := s, lv_seq := lv_seq l + 1\<rparr>"])
      (auto simp: set_live_status_def active_terminal live_view_def)
qed

lemma watch_ok_reset:
  assumes w: "watch_ok w"
  shows "watch_ok (moved w (fst (reset_draft_for_retry (w_hub w))))"
proof -
  obtain l where l: "hub_live (w_hub w) = Some l" "is_active (lv_status l)" "hub_queues (w_hub w) = [rd_queue (w_reader w)]"
    using w by (auto simp: watch_ok_def)
  show ?thesis
  proof (cases "lv_status l = Running")
    case False
    then have "moved w (fst (reset_draft_for_retry (w_hub w))) = w" using l by (simp add: reset_draft_for_retry_def moved_def)
    then show ?thesis using w by simp
  next
    case True
    let ?l = "l\<lparr>lv_blocks := [], lv_seq := lv_seq l + 1\<rparr>"
    have "following (w_hist w @ [live_view ?l]) ?l (offered (w_reader w) Resync) (w_view w)" if "rd_open (w_reader w)"
      using following_resync [of "w_hist w" l "w_reader w" "w_view w" ?l] w l that by (auto simp: watch_ok_def)
    then show ?thesis
      using True l by (simp add: watch_ok_def moved_def reset_draft_for_retry_def notify_def publish_def offered_def)
  qed
qed

lemma watch_ok_sign_out:
  assumes "watch_ok w"
  shows "watch_ok (moved w ((w_hub w)\<lparr>hub_queues := map close_stream (hub_queues (w_hub w))\<rparr>))"
proof -
  have c: "covers ((case p of None \<Rightarrow> [] | Some i \<Rightarrow> [i]) @ [Close]) k n" for p k n
    using covers_marker(2) [of _ "[]"] by simp
  show ?thesis using assms c by (auto simp: watch_ok_def moved_def close_stream_def following_def unread_def)
qed

lemma watch_ok_read:
  assumes w: "watch_ok w" and o: "rd_open (w_reader w)"
    and st: "reader_step due valid (get_snapshot g (w_hub w) db) True (w_reader w) = (r, out)"
  shows "\<exists>v. receive_all out (w_view w) = Some v
    \<and> watch_ok (w\<lparr>w_hub := (w_hub w)\<lparr>hub_queues := [rd_queue r]\<rparr>, w_reader := r, w_view := v\<rparr>)"
proof -
  obtain l where l: "hub_live (w_hub w) = Some l" "is_active (lv_status l)" "following (w_hist w) l (w_reader w) (w_view w)"
    using w o by (auto simp: watch_ok_def)
  obtain s where s: "get_snapshot g (w_hub w) db = Some s" "view_of s = live_view l" "\<not> is_terminal (sn_status s)"
    using live_snapshot [OF l(1,2)] by blast
  from reader_step_follows [OF l(3) s(2,3) st [unfolded s(1)]] show ?thesis using l(1,2) by (auto simp: watch_ok_def)
qed

interpretation watched: preserved watching watch_ok
proof
  fix w w' assume w: "watch_ok w" "watching w w'"
  from w(2) show "watch_ok w'"
  proof cases
    case (read due valid g db r out v)
    then show ?thesis using watch_ok_read [OF w(1) read(2,3)] by auto
  qed (auto intro: watch_ok_events watch_ok_status watch_ok_reset watch_ok_sign_out w(1))
qed

end
