(* ===== verification/Stream_Guarantees.thy ===== *)
theory Stream_Guarantees
  imports Stream_Laws Lifecycle_Guarantees
begin

text \<open>
  What users see while an answer is written: the committed document, the current draft, bounded
  queues, streams that end, and streams that end at sign-out.
\<close>

section \<open>From the provider's bytes to the draft\<close>

lemma draft_events_no_ops: "draft_events es bs = Inr (bs', []) \<Longrightarrow> bs' = bs"
proof (induction es arbitrary: bs)
  case (Cons e es)
  then show ?case by (cases e) (auto simp: res_simps split: if_splits)
qed simp

lemma emit_all_draft:
  assumes "feed_all dec cs = Inr (dec', es)" "draft_events es (lv_blocks l) = Inr (bs, ops)"
    "hub_live h = Some l" "lv_status l = Running"
  shows "\<exists>h' l'. emit_all cs (dec, h) = Inr (dec', h') \<and> hub_live h' = Some l' \<and> lv_blocks l' = bs \<and> lv_status l' = Running"
  using assms
proof (induction cs arbitrary: dec es l h ops)
  case (Cons c cs)
  then obtain d1 e1 e2 where f: "feed dec c = Inr (d1, e1)" "feed_all d1 cs = Inr (dec', e2)" "es = e1 @ e2"
    by (auto simp: res_simps)
  then obtain b1 o1 o2 where b: "draft_events e1 (lv_blocks l) = Inr (b1, o1)" "draft_events e2 b1 = Inr (bs, o2)"
    using Cons.prems(2) by (auto simp: draft_events_append res_simps)
  obtain h1 l1 where h1: "apply_live_events e1 h = Inr h1" "hub_live h1 = Some l1" "lv_blocks l1 = b1" "lv_status l1 = Running"
  proof (cases "o1 = []")
    case True
    have "lv_blocks l = b1" using draft_events_no_ops b(1) True by metis
    moreover have "apply_live_events e1 h = Inr h" using b(1) True Cons.prems(3,4) by (simp add: apply_live_events_def)
    ultimately show thesis using that [of h l] Cons.prems(3,4) by simp
  next
    case False
    let ?l = "l\<lparr>lv_blocks := b1, lv_seq := lv_seq l + 1\<rparr>"
    from False show thesis
      using b(1) Cons.prems(3,4) that [of "publish (Delta (lv_seq l + 1) o1) (h\<lparr>hub_live := Some ?l\<rparr>)" ?l]
      by (auto simp: apply_live_events_def publish_def)
  qed
  from Cons.IH [OF f(2) b(2) [folded h1(3)] h1(2,4)] show ?case using f(1) h1(1) by (simp add: emit_def)
qed auto

section \<open>Readers that end\<close>

lemma coalesce_shorter: "coalesce q k ops = (ops', k', pend, q') \<Longrightarrow> length ((case pend of None \<Rightarrow> [] | Some i \<Rightarrow> [i]) @ q') \<le> length q
   \<and> set ((case pend of None \<Rightarrow> [] | Some i \<Rightarrow> [i]) @ q') \<subseteq> set q"
proof (induction q k ops rule: coalesce.induct)
  case (2 i q k ops)
  then show ?case by (cases i) (auto split: if_splits)
qed auto

lemma unread_last [simp]: "unread (r\<lparr>rd_last := x\<rparr>) = unread r" "unread (r\<lparr>rd_open := y\<rparr>) = unread r"
  by (simp_all add: unread_def)

lemma reader_step_terminal:
  assumes "is_terminal (sn_status s)" "rd_open r" "Close \<notin> set (unread r)" "reader_step False True (Some s) False r = (r', out)"
  shows "\<not> rd_open r' \<and> out = [SseSnapshot s]
    \<or> rd_open r' \<and> length (unread r') < length (unread r) \<and> Close \<notin> set (unread r')"
proof -
  obtain item r1 where n: "next_item r = (item, r1)" by fastforce
  note d = assms(4) [unfolded reader_step_def n prod.case]
  have res: "resynchronize (Some s) w r1 = (r1\<lparr>rd_last := sn_seq s, rd_open := False\<rparr>, [SseSnapshot s])" for w
    using assms(1) by (simp add: resynchronize_def)
  show ?thesis
  proof (cases item)
    case None
    then show ?thesis using d res by auto
  next
    case (Some i)
    note r1 = next_item_Some [OF n [unfolded Some]]
    show ?thesis
    proof (cases i)
      case (Delta k ops)
      obtain ops' k' pend q where c: "coalesce (rd_queue r1) k ops = (ops', k', pend, q)"
        by (cases "coalesce (rd_queue r1) k ops") auto
      have u: "unread r1 = rd_queue r1" using r1 by (simp add: unread_def)
      have "r' = r1 \<or> \<not> rd_open r' \<and> out = [SseSnapshot s] \<or> r' = r1\<lparr>rd_queue := q, rd_pending := pend, rd_last := k'\<rparr>"
        using d Some Delta res c by (auto split: if_splits)
      then show ?thesis
        using r1 assms(2,3) coalesce_shorter [OF c] u by (auto simp: unread_def)
    qed (use d Some res r1 assms(3) in auto)
  qed
qed

lemma read_loop_ends:
  assumes "is_terminal (sn_status s)" "rd_open r" "Close \<notin> set (unread r)" "length (unread r) < n"
  shows "\<exists>r' out. read_loop n (Some s) r = (r', out) \<and> \<not> rd_open r' \<and> out \<noteq> [] \<and> last out = SseSnapshot s"
  using assms(2-)
proof (induction n arbitrary: r)
  case (Suc n)
  obtain r1 o1 where st: "reader_step False True (Some s) False r = (r1, o1)" by fastforce
  from reader_step_terminal [OF assms(1) Suc.prems(1,2) st] show ?case
  proof
    assume e: "\<not> rd_open r1 \<and> o1 = [SseSnapshot s]"
    then have "read_loop n (Some s) r1 = (r1, [])" by (cases n) auto
    then show ?thesis using st Suc.prems(1) e by simp
  next
    assume e: "rd_open r1 \<and> length (unread r1) < length (unread r) \<and> Close \<notin> set (unread r1)"
    then obtain r' out where "read_loop n (Some s) r1 = (r', out)" "\<not> rd_open r'" "out \<noteq> []" "last out = SseSnapshot s"
      using Suc.IH [of r1] Suc.prems(3) by fastforce
    then show ?thesis using st Suc.prems(1) by auto
  qed
qed simp

section \<open>Guarantees\<close>

text \<open>C31: the user sees what is stored.  If the provider's chunks decode to a document, feeding them
  through the live emitter succeeds, whatever the chunking, and leaves a draft whose blocks are
  exactly the blocks of the document that is committed.\<close>

theorem live_draft_is_document:
  assumes "new_decoder lm = Some dec" "feed_all dec cs = Inr (dec', es)" "finish dec' = Inr doc"
    and "hub_live h = Some l" "lv_status l = Running" "lv_blocks l = []"
  shows "\<exists>h' l'. emit_all cs (dec, h) = Inr (dec', h') \<and> hub_live h' = Some l' \<and> snapshot_blocks (lv_blocks l') = doc_blocks doc"
proof -
  obtain bs ops where "draft_events es (lv_blocks l) = Inr (bs, ops)" "snapshot_blocks bs = doc_blocks doc"
    using decode_response_draft [OF assms(1-3)] assms(6) by auto
  then show ?thesis using emit_all_draft [OF assms(2) _ assms(4,5)] by blast
qed

definition demo_hub :: hub where
  "demo_hub = \<lparr>hub_live = Some \<lparr>lv_thread = None, lv_status = Running, lv_seq = 1, lv_blocks = []\<rparr>, hub_queues = [[]]\<rparr>"

theorem live_draft_is_document_witness:
  "\<exists>dec dec' h' l'. new_decoder demo_limits = Some dec \<and> emit_all [demo_bytes] (dec, demo_hub) = Inr (dec', h')
     \<and> hub_live h' = Some l' \<and> snapshot_blocks (lv_blocks l') = joined demo_parts"
proof -
  obtain dec dec' es where "new_decoder demo_limits = Some dec" "feed_all dec [demo_bytes] = Inr (dec', es)"
    "finish dec' = Inr \<lparr>doc_blocks = joined demo_parts, doc_state = demo_state\<rparr>"
    using demo_decoded by (auto simp: decode_response_def res_simps split: option.splits)
  moreover have "hub_live demo_hub = Some \<lparr>lv_thread = None, lv_status = Running, lv_seq = 1, lv_blocks = []\<rparr>"
    by (simp add: demo_hub_def)
  ultimately show ?thesis using live_draft_is_document [of demo_limits dec "[demo_bytes]" dec' es _ demo_hub] by fastforce
qed

definition watch_from :: "live \<Rightarrow> snapshot \<Rightarrow> watch" where
  "watch_from l s = \<lparr>w_hub = \<lparr>hub_live = Some l, hub_queues = [[]]\<rparr>, w_reader = fst (open_reader s), w_view = view_of s,
     w_hist = map (\<lambda>k. (live_view l)\<lparr>vw_seq := k\<rparr>) [0..<Suc (lv_seq l)]\<rparr>"

lemma watch_from_ok:
  assumes "is_active (lv_status l)" "get_snapshot g \<lparr>hub_live = Some l, hub_queues = [[]]\<rparr> db = Some s"
  shows "watch_ok (watch_from l s)"
proof -
  have s: "view_of s = live_view l" "sn_seq s = lv_seq l" "sn_status s = lv_status l"
    using assms by (auto simp: get_snapshot_def view_of_def live_view_def)
  show ?thesis
    using assms(1) s by (auto simp: watch_ok_def watch_from_def following_def numbered_def open_reader_def unread_def live_view_def
        simp del: upt_Suc)
qed

text \<open>C4: the browser follows the draft.  For a reader that opens its stream on a running generation, in
  every interleaving of the task and the reader, with slow readers, status changes and restarted
  drafts: every message the server sends continues what the browser has, and whenever the reader has
  nothing left to read, the browser shows exactly the current draft and status.\<close>

theorem browser_follows_draft:
  assumes "is_active (lv_status l)" "get_snapshot g \<lparr>hub_live = Some l, hub_queues = [[]]\<rparr> db = Some s"
    and "watching\<^sup>*\<^sup>* (watch_from l s) w" "rd_open (w_reader w)" "hub_live (w_hub w) = Some l'"
  shows "receive_all (snd (reader_step due valid (get_snapshot g' (w_hub w) db') True (w_reader w))) (w_view w) \<noteq> None
    \<and> (unread (w_reader w) = [] \<longrightarrow> w_view w = live_view l')"
proof -
  have ok: "watch_ok w" using watched.along [OF assms(3) watch_from_ok [OF assms(1,2)]] .
  obtain r out where st: "reader_step due valid (get_snapshot g' (w_hub w) db') True (w_reader w) = (r, out)" by fastforce
  have "receive_all out (w_view w) \<noteq> None" using watch_ok_read [OF ok assms(4) st] by auto
  moreover have "following (w_hist w) l' (w_reader w) (w_view w)" using ok assms(4,5) by (auto simp: watch_ok_def)
  ultimately show ?thesis using st by (auto simp: following_def)
qed

definition demo_live :: live where
  "demo_live = \<lparr>lv_thread = None, lv_status = Running, lv_seq = 1, lv_blocks = []\<rparr>"

definition demo_watch :: watch where
  "demo_watch = watch_from demo_live \<lparr>sn_id = ''g'', sn_thread = None, sn_status = Running, sn_blocks = [], sn_error = None,
     sn_retryable = False, sn_seq = 1\<rparr>"

theorem browser_follows_draft_witness:
  "\<exists>w. watching\<^sup>*\<^sup>* demo_watch w \<and> rd_open (w_reader w) \<and> unread (w_reader w) \<noteq> []
     \<and> receive_all (snd (reader_step False True (get_snapshot ''g'' (w_hub w) (sys_db empty_system)) True (w_reader w))) (w_view w) \<noteq> None"
proof -
  let ?h = "set_live_status Stopping (w_hub demo_watch)"
  let ?w = "moved demo_watch ?h"
  have a: "is_active (lv_status demo_live)" by (simp add: demo_live_def is_active_def active_statuses_def)
  have b: "get_snapshot ''g'' \<lparr>hub_live = Some demo_live, hub_queues = [[]]\<rparr> (sys_db empty_system)
      = Some \<lparr>sn_id = ''g'', sn_thread = None, sn_status = Running, sn_blocks = [], sn_error = None, sn_retryable = False, sn_seq = 1\<rparr>"
    by (simp add: get_snapshot_def demo_live_def is_active_def active_statuses_def)
  have c: "watching\<^sup>*\<^sup>* demo_watch ?w"
    by (rule r_into_rtranclp, rule watching.status) (simp add: is_active_def active_statuses_def)
  have d: "rd_open (w_reader ?w)" "hub_live (w_hub ?w) = Some (demo_live\<lparr>lv_status := Stopping, lv_seq := 2\<rparr>)" "unread (w_reader ?w) \<noteq> []"
    by (simp_all add: moved_def demo_watch_def watch_from_def set_live_status_def demo_live_def is_terminal_def publish_def
        open_reader_def unread_def offer_def stream_queue_size_def)
  show ?thesis
    using browser_follows_draft [OF a b c [unfolded demo_watch_def] d(1,2) [unfolded demo_watch_def]] c d(1,3)
    unfolding demo_watch_def by blast
qed

text \<open>the queue of a reader is bounded by 256 items, is never left empty by an offer, and a request
  to close the stream is never lost, however far the reader falls behind.\<close>

theorem stream_queue_bounded:
  assumes "length q \<le> 256"
  shows "length (offer q i) \<le> 256 \<and> offer q i \<noteq> [] \<and> (i = Close \<or> Close \<in> set q \<longrightarrow> Close \<in> set (offer q i))"
  using offer_length [of q i] offer_nonempty offer_close assms by (auto simp: stream_queue_size_def)

theorem stream_queue_bounded_witness:
  "length (offer (Close # replicate 255 Resync) (Delta 1 [])) \<le> 256 \<and> Close \<in> set (offer (Close # replicate 255 Resync) (Delta 1 []))"
  using stream_queue_bounded [of "Close # replicate 255 Resync" "Delta 1 []"] by simp

text \<open>C32: a stream ends with the stored result.  Once the stored row is terminal, an open reader that is
  not asked to close handles what it has queued and then sends the stored snapshot as its last
  message and ends; it needs at most one iteration more than it has unread items.\<close>

theorem finished_stream_ends:
  assumes "is_terminal (sn_status s)" "rd_open r" "Close \<notin> set (unread r)"
  shows "\<exists>r' out. read_loop (Suc (length (unread r))) (Some s) r = (r', out) \<and> \<not> rd_open r' \<and> out \<noteq> [] \<and> last out = SseSnapshot s"
  by (rule read_loop_ends [OF assms]) simp

theorem finished_stream_ends_witness:
  "\<exists>r' out. read_loop 2 (Some \<lparr>sn_id = ''g'', sn_thread = None, sn_status = Completed, sn_blocks = [], sn_error = None,
        sn_retryable = False, sn_seq = 7\<rparr>) \<lparr>rd_queue = [Delta 5 []], rd_pending = None, rd_last = 4, rd_open = True\<rparr> = (r', out)
     \<and> \<not> rd_open r' \<and> out \<noteq> []"
  using finished_stream_ends [of "\<lparr>sn_id = ''g'', sn_thread = None, sn_status = Completed, sn_blocks = [], sn_error = None,
      sn_retryable = False, sn_seq = 7\<rparr>" "\<lparr>rd_queue = [Delta 5 []], rd_pending = None, rd_last = 4, rd_open = True\<rparr>"]
  by (auto simp: is_terminal_def unread_def numeral_2_eq_2 simp del: read_loop.simps)

text \<open>C33: signing out ends the stream.  After the session's streams are closed, a reader sends at most one
  more message and ends within two iterations, and it sends nothing at all unless it had already taken
  an item out of its queue.\<close>

theorem sign_out_ends_stream:
  assumes "rd_open r" "read_loop 2 snap (r\<lparr>rd_queue := close_stream (rd_queue r)\<rparr>) = (r', out)"
  shows "\<not> rd_open r' \<and> length out \<le> 1 \<and> (rd_pending r = None \<longrightarrow> out = [])"
proof -
  let ?r = "r\<lparr>rd_queue := close_stream (rd_queue r)\<rparr>"
  obtain r1 o1 where st: "reader_step False True snap False ?r = (r1, o1)" by fastforce
  have "\<not> rd_open r1 \<or> next_item r1 = (Some Close, r1\<lparr>rd_queue := []\<rparr>) \<or> next_item r1 = (Some Close, r1\<lparr>rd_pending := None\<rparr>)"
    "length o1 \<le> 1" "rd_pending r = None \<Longrightarrow> \<not> rd_open r1 \<and> o1 = []"
    using st
    by (auto simp: reader_step_def next_item_def close_stream_def resynchronize_def split: option.splits stream_item.splits if_splits)
  moreover from this have "\<exists>r2. read_loop 1 snap r1 = (r2, []) \<and> \<not> rd_open r2"
    by (auto simp: reader_step_def)
  ultimately show ?thesis
    using assms st by (auto simp: numeral_2_eq_2 split: prod.splits)
qed

text \<open>The one message can carry content: a reader that stopped coalescing at a marker re-reads the draft
  before it sees the request to close.\<close>

lemma content_after_sign_out:
  "reader_step False True (Some s) is_live \<lparr>rd_queue = close_stream q, rd_pending = Some Resync, rd_last = k, rd_open = True\<rparr>
     = (if is_terminal (sn_status s) then (\<lparr>rd_queue = [Close], rd_pending = None, rd_last = sn_seq s, rd_open = False\<rparr>, [SseSnapshot s])
        else if sn_seq s \<noteq> k then (\<lparr>rd_queue = [Close], rd_pending = None, rd_last = sn_seq s, rd_open = True\<rparr>, [SseSnapshot s])
        else (\<lparr>rd_queue = [Close], rd_pending = None, rd_last = k, rd_open = True\<rparr>, []))"
  by (simp add: reader_step_def next_item_def resynchronize_def close_stream_def)

definition demo_reader :: reader where
  "demo_reader = \<lparr>rd_queue = [Resync], rd_pending = Some Resync, rd_last = 3, rd_open = True\<rparr>"

theorem sign_out_ends_stream_witness:
  "\<exists>r' out. read_loop 2 None (demo_reader\<lparr>rd_queue := close_stream (rd_queue demo_reader)\<rparr>) = (r', out)
     \<and> \<not> rd_open r' \<and> length out \<le> 1"
proof -
  obtain r' out where l: "read_loop 2 None (demo_reader\<lparr>rd_queue := close_stream (rd_queue demo_reader)\<rparr>) = (r', out)"
    by (cases "read_loop 2 None (demo_reader\<lparr>rd_queue := close_stream (rd_queue demo_reader)\<rparr>)")
  then show ?thesis using sign_out_ends_stream [OF _ l] by (simp add: demo_reader_def del: read_loop.simps)
qed

end
