(* ===== verification/Usage_Guarantees.thy ===== *)
theory Usage_Guarantees
  imports Usage_Ledger
begin

text \<open>
  The ledger is append-only and charges a provider call once; reconciliation settles what it learns
  within bounds; the shown total is close to the exact one.
\<close>

section \<open>The ledger only grows\<close>

lemma append_usage_event_cases:
  obtains (added) "append_usage_event e db = (db\<lparr>usage_events := usage_events db @ [e]\<rparr>, Some e)" "ue_dedupe e \<notin> ue_dedupe ` set (usage_events db)"
  | (present) "append_usage_event e db = (db, None)" "ue_dedupe e \<in> ue_dedupe ` set (usage_events db)"
  by (cases "ue_dedupe e \<in> ue_dedupe ` set (usage_events db)") (auto simp: append_usage_event_def)

definition charge_ok :: "usage_event_row \<Rightarrow> bool" where
  "charge_ok e \<longleftrightarrow> (ue_type e = Charge \<longrightarrow>
     (case ue_provider_generation e of None \<Rightarrow> True | Some g \<Rightarrow> ue_dedupe e = charge_key g (ue_purpose e)))"

definition ledger_ok :: "database \<Rightarrow> bool" where
  "ledger_ok db \<longleftrightarrow> distinct (map ue_dedupe (usage_events db)) \<and> (\<forall>e\<in>set (usage_events db). charge_ok e)"

definition ledger_grows :: "database \<Rightarrow> database \<Rightarrow> bool" where
  "ledger_grows db db' \<longleftrightarrow> (\<exists>new. db' = db\<lparr>usage_events := usage_events db @ new\<rparr>)"

lemma ledger_grows_refl [simp]: "ledger_grows db db"
  unfolding ledger_grows_def by (rule exI [of _ "[]"]) simp

lemma ledger_grows_trans: "ledger_grows a b \<Longrightarrow> ledger_grows b c \<Longrightarrow> ledger_grows a c"
  by (auto simp: ledger_grows_def)

lemma append_keeps: "ledger_ok db \<Longrightarrow> charge_ok e \<Longrightarrow> ledger_ok (fst (append_usage_event e db)) \<and> ledger_grows db (fst (append_usage_event e db))"
  by (rule append_usage_event_cases [of e db]) (auto simp: ledger_ok_def ledger_grows_def)

lemma record_usage_append:
  "\<exists>e. charge_ok e \<and> (record_usage eid now u o' p scope sr sg db = db \<or> record_usage eid now u o' p scope sr sg db = fst (append_usage_event e db))"
proof (cases "co_cost o'")
  case None
  let ?e = "\<lambda>g. usage_row eid now u (g @ '':'' @ p @ '':reconcile-pending'') Pending p None (or_else (co_request o') sr) (Some g)"
  have "charge_ok (?e g)" for g by (simp add: charge_ok_def usage_row_def)
  then show ?thesis
    using None by (cases "or_else (co_generation o') sg") (auto simp: record_usage_def Let_def append_reconcilable_def)
next
  case (Some c)
  then show ?thesis
    by (intro exI [of _ "usage_row eid now u (usage_key o' p scope (or_else (co_request o') sr) (or_else (co_generation o') sg))
          Charge p (Some c) (or_else (co_request o') sr) (or_else (co_generation o') sg)"])
      (auto simp: record_usage_def Let_def charge_ok_def usage_row_def usage_key_def split: option.split)
qed

lemma settle_keeps:
  "settle now cost ids es b db = (db', b', n) \<Longrightarrow> ledger_ok db \<Longrightarrow> ledger_ok db' \<and> ledger_grows db db'"
proof (induction now cost ids es b db arbitrary: db' b' n rule: settle.induct)
  case (2 now cost ids e es b db)
  show ?case
  proof (cases "ue_provider_generation e")
    case None
    then show ?thesis using 2 by auto
  next
    case g: (Some g)
    show ?thesis
    proof (cases "cost g")
      case None
      then show ?thesis using 2 g by auto
    next
      case (Some c)
      let ?e = "e\<lparr>ue_id := hd ids, ue_dedupe := charge_key g (ue_purpose e), ue_type := Charge,
                          ue_amount := Some c, ue_created := now\<rparr>"
      obtain db1 added where a: "append_usage_event ?e db = (db1, added)" by fastforce
      obtain db2 b2 m where s: "settle now cost (tl ids) es (filter (\<lambda>x. fst x \<noteq> ue_id e) b) db1 = (db2, b2, m)"
        by (metis prod_cases3)
      have k: "ledger_ok db1" "ledger_grows db db1"
        using append_keeps [OF 2(5), of ?e] a g by (auto simp: charge_ok_def)
      have "db' = db2" using 2(4) g Some a s by auto
      then show ?thesis using 2(3) [OF g Some a [symmetric] s k(1)] k(2) ledger_grows_trans by blast
    qed
  qed
qed simp

inductive ledger :: "database \<Rightarrow> database \<Rightarrow> bool" where
  call: "ledger db (record_usage eid now u o' p scope sr sg db)"
| early: "ledger db (append_reconcilable eid now u p request g db)"
| reconcile: "reconcile_pending_costs now cost ids b db = (db', b', n) \<Longrightarrow> ledger db db'"

lemma ledger_keeps:
  assumes "ledger db db'" "ledger_ok db"
  shows "ledger_ok db' \<and> ledger_grows db db'"
  using assms(1)
proof cases
  case (call eid now u o' p scope sr sg)
  then show ?thesis using record_usage_append [of eid now u o' p scope sr sg db] append_keeps assms(2) by auto
next
  case (early eid now u p request g)
  have "charge_ok (usage_row eid now u (g @ '':'' @ p @ '':reconcile-pending'') Pending p None request (Some g))"
    by (simp add: charge_ok_def usage_row_def)
  then show ?thesis using early append_keeps assms(2) by (simp add: append_reconcilable_def)
next
  case (reconcile now cost ids b b' n)
  then show ?thesis using settle_keeps assms(2) by (auto simp: reconcile_pending_costs_def Let_def)
qed

interpretation ledger_runs: ordered ledger ledger_ok ledger_grows
  by unfold_locales (auto dest: ledger_keeps intro: ledger_grows_trans)

section \<open>What reconciliation does\<close>

lemma settle_effect:
  assumes "settle now cost ids es b db = (db', b', n)"
  shows "(\<forall>e\<in>set es. \<forall>g c. ue_provider_generation e = Some g \<and> cost g = Some c \<longrightarrow>
        charge_key g (ue_purpose e) \<in> ue_dedupe ` set (usage_events db'))
    \<and> (\<exists>new. usage_events db' = usage_events db @ new \<and> length new = n \<and>
        (\<forall>x\<in>set new. ue_type x = Charge \<and> (\<exists>e\<in>set es. \<exists>g. ue_provider_generation e = Some g \<and> ue_provider_generation x = Some g
           \<and> ue_purpose x = ue_purpose e \<and> ue_generation x = ue_generation e \<and> ue_requester x = ue_requester e
           \<and> ue_dedupe x = charge_key g (ue_purpose e) \<and> ue_amount x = cost g \<and> cost g \<noteq> None)))"
  using assms
proof (induction now cost ids es b db arbitrary: db' b' n rule: settle.induct)
  case (2 now cost ids e es b db)
  show ?case
  proof (cases "ue_provider_generation e")
    case None
    then show ?thesis using 2(1) [OF None] 2(4) by fastforce
  next
    case g: (Some g)
    show ?thesis
    proof (cases "cost g")
      case None
      have "settle now cost ids es (defer_reconciliation now (ue_id e) b) db = (db', b', n)" using 2(4) g None by simp
      from 2(2) [OF g None this] show ?thesis using g None by fastforce
    next
      case (Some c)
      let ?e = "e\<lparr>ue_id := hd ids, ue_dedupe := charge_key g (ue_purpose e), ue_type := Charge,
                          ue_amount := Some c, ue_created := now\<rparr>"
      obtain db1 added where a: "append_usage_event ?e db = (db1, added)" by fastforce
      obtain db2 b2 m where s: "settle now cost (tl ids) es (filter (\<lambda>x. fst x \<noteq> ue_id e) b) db1 = (db2, b2, m)"
        by (metis prod_cases3)
      have r: "db' = db2" "n = (if added = None then m else m + 1)" using 2(4) g Some a s by auto
      from 2(3) [OF g Some a [symmetric] s] obtain new where new:
        "\<forall>e\<in>set es. \<forall>g c. ue_provider_generation e = Some g \<and> cost g = Some c \<longrightarrow>
          charge_key g (ue_purpose e) \<in> ue_dedupe ` set (usage_events db2)"
        "usage_events db2 = usage_events db1 @ new" "length new = m"
        "\<forall>x\<in>set new. ue_type x = Charge \<and> (\<exists>e\<in>set es. \<exists>g. ue_provider_generation e = Some g \<and> ue_provider_generation x = Some g
           \<and> ue_purpose x = ue_purpose e \<and> ue_generation x = ue_generation e \<and> ue_requester x = ue_requester e
           \<and> ue_dedupe x = charge_key g (ue_purpose e) \<and> ue_amount x = cost g \<and> cost g \<noteq> None)" by auto
      have key: "charge_key g (ue_purpose e) \<in> ue_dedupe ` set (usage_events db1)"
        and db1: "usage_events db1 = usage_events db @ (if added = None then [] else [?e])"
        using a by (auto simp: append_usage_event_def split: if_splits)
      show ?thesis
        using new key g Some unfolding r db1 by (auto intro!: exI [of _ "(if added = None then [] else [?e]) @ new"])
    qed
  qed
qed simp

lemma backoff_of_cases: "(i, backoff_of b i) \<in> set b \<or> backoff_of b i = (0, 0)"
  by (auto simp: backoff_of_def map_of_SomeD split: option.split)

definition backoff_ok :: "time \<Rightarrow> backoff \<Rightarrow> bool" where
  "backoff_ok now b \<longleftrightarrow> (\<forall>x\<in>set b. fst (snd x) \<le> max_attempts \<and> snd (snd x) \<le> now + 600000000)"

lemma backoff_of_filter: "j \<noteq> i \<Longrightarrow> backoff_of (filter (\<lambda>x. fst x \<noteq> i) b) j = backoff_of b j"
proof -
  assume "j \<noteq> i"
  then have "map_of (filter (\<lambda>x. fst x \<noteq> i) b) j = map_of b j" by (induction b) auto
  then show ?thesis by (simp add: backoff_of_def)
qed

lemma backoff_of_defer: "j \<noteq> i \<Longrightarrow> backoff_of (defer_reconciliation now i b) j = backoff_of b j"
  using backoff_of_filter [of j i b] by (simp add: defer_reconciliation_def Let_def backoff_of_def)

lemma defer_delay_le: "defer_delay n \<le> 600000000"
  by (simp add: defer_delay_def)

lemma settle_backoff:
  assumes "settle now cost ids es b db = (db', b', n)" "backoff_ok now b" "distinct (map ue_id es)"
    "\<forall>e\<in>set es. fst (backoff_of b (ue_id e)) < max_attempts"
  shows "backoff_ok now b'"
  using assms
proof (induction now cost ids es b db arbitrary: db' b' n rule: settle.induct)
  case (2 now cost ids e es b db)
  have other: "ue_id x \<noteq> ue_id e" if "x \<in> set es" for x using 2(6) that by (force simp: image_iff)
  show ?case
  proof (cases "ue_provider_generation e")
    case None
    then show ?thesis using 2(1) [OF None] 2(4-7) by auto
  next
    case g: (Some g)
    show ?thesis
    proof (cases "cost g")
      case None
      let ?b = "defer_reconciliation now (ue_id e) b"
      have "settle now cost ids es ?b db = (db', b', n)" using 2(4) g None by simp
      moreover have "backoff_ok now ?b"
        using 2(5,7) defer_delay_le by (auto simp: backoff_ok_def defer_reconciliation_def Let_def)
      moreover have "\<forall>x\<in>set es. fst (backoff_of ?b (ue_id x)) < max_attempts"
        using 2(7) other backoff_of_defer by auto
      ultimately show ?thesis using 2(2) [OF g None] 2(6) by auto
    next
      case (Some c)
      let ?e = "e\<lparr>ue_id := hd ids, ue_dedupe := charge_key g (ue_purpose e), ue_type := Charge,
                          ue_amount := Some c, ue_created := now\<rparr>"
      let ?b = "filter (\<lambda>x. fst x \<noteq> ue_id e) b"
      obtain db1 added where a: "append_usage_event ?e db = (db1, added)" by fastforce
      obtain db2 b2 m where s: "settle now cost (tl ids) es ?b db1 = (db2, b2, m)"
        by (metis prod_cases3)
      have "b' = b2" using 2(4) g Some a s by auto
      moreover have "backoff_ok now ?b" using 2(5) by (auto simp: backoff_ok_def)
      moreover have "\<forall>x\<in>set es. fst (backoff_of ?b (ue_id x)) < max_attempts"
        using 2(7) other backoff_of_filter by auto
      ultimately show ?thesis using 2(3) [OF g Some a [symmetric] s] 2(6) by auto
    qed
  qed
qed simp

lemma due_rows_distinct:
  "distinct (map ue_id es) \<Longrightarrow> distinct (map ue_id (due_rows now b es))"
  by (simp add: due_rows_def take_map [symmetric] distinct_map_filter)

lemma candidates_distinct: "distinct (map ue_id (usage_events db)) \<Longrightarrow> distinct (map ue_id (candidates db))"
proof -
  let ?es = "filter (\<lambda>e. ue_type e = Pending \<and> ue_provider_generation e \<noteq> None \<and> \<not> is_charged db e) (usage_events db)"
  assume "distinct (map ue_id (usage_events db))"
  then have "distinct (map ue_id ?es)" by (rule distinct_map_filter)
  then have "distinct (map ue_id (sort_key (\<lambda>e. (ue_created e, ue_id e)) ?es))"
    by (simp add: distinct_map)
  then show ?thesis by (simp add: candidates_def take_map [symmetric])
qed

section \<open>The shown total\<close>

lemma round_half_even_close:
  assumes "0 < d"
  shows "\<bar>2 * (d * round_half_even a d - a)\<bar> \<le> d"
proof -
  define q r where "q = a div d" and "r = a mod d"
  have a: "a = d * q + r" by (simp add: q_def r_def)
  have r: "0 \<le> r" "r < d" using assms by (simp_all add: r_def)
  have "round_half_even a d = (if 2 * r < d then q else if 2 * r > d then q + 1 else if even q then q else q + 1)"
    by (simp add: round_half_even_def q_def r_def Let_def)
  then show ?thesis using r unfolding a by (auto simp: algebra_simps)
qed

lemma of_digits_append: "of_digits (a @ b) = of_digits a * 10 ^ length b + of_digits b"
proof (induction b rule: rev_induct)
  case (snoc d b)
  then show ?case by (simp add: of_digits_snoc append.assoc [symmetric] algebra_simps del: append.assoc append_assoc)
qed (simp add: of_digits_def)

lemma filter_group3: "(\<forall>c\<in>set s. ascii_digit c) \<Longrightarrow> filter ascii_digit (group3 s) = s"
proof (induction s rule: group3.induct)
  case (1 s)
  show ?case
  proof (cases "length s \<le> 3")
    case True
    then show ?thesis using 1(2) by (simp add: group3.simps [of s])
  next
    case False
    have "filter ascii_digit (group3 (take (length s - 3) s)) = take (length s - 3) s"
      by (rule 1(1) [OF False]) (use 1(2) in \<open>auto dest: in_set_takeD\<close>)
    moreover have "filter ascii_digit (drop (length s - 3) s) = drop (length s - 3) s"
      using 1(2) by (auto intro!: filter_True dest: in_set_dropD)
    moreover have "\<not> ascii_digit 44" by (simp add: ascii_digit_def)
    ultimately show ?thesis using False by (simp add: group3.simps [of s])
  qed
qed

definition shown_digits :: "pystr \<Rightarrow> nat" where
  "shown_digits s = of_digits (map (\<lambda>c. c - 48) (filter ascii_digit s))"

lemma str_nat_value: "of_digits (map (\<lambda>c. c - 48) (str_nat n)) = n"
  by (simp add: str_nat_def o_def)

lemma pad_value: "of_digits (map (\<lambda>c. c - 48) (pad k n)) = n"
  by (simp add: pad_def map_replicate_const of_digits_replicate0 str_nat_value)

lemma pad_digits: "c \<in> set (pad k n) \<Longrightarrow> ascii_digit c"
  by (auto simp: pad_def ascii_digit_def dest: str_nat_digits split: if_splits)

lemma pad_length: "n < 10 ^ k \<Longrightarrow> 0 < k \<Longrightarrow> length (pad k n) = k"
  using length_digits_of_le [of n k] by (simp add: pad_def str_nat_def)

lemma format_lifetime_cost_cents:
  assumes "10000 \<le> \<bar>a\<bar>"
  shows "shown_digits (format_lifetime_cost a) = nat (round_half_even \<bar>a\<bar> 10000)"
proof -
  let ?c = "nat (round_half_even \<bar>a\<bar> 10000)"
  let ?s = "if a < 0 then lit ''-'' else []"
  have "format_lifetime_cost a = lit ''$'' @ ?s @ group3 (str_nat (?c div 100)) @ lit ''.'' @ pad 2 (?c mod 100)"
    using assms by (auto simp: format_lifetime_cost_def Let_def)
  moreover have "filter ascii_digit (lit ''$'') = []" "filter ascii_digit ?s = []" "filter ascii_digit (lit ''.'') = []"
    by (auto simp: lit_def ascii_digit_def)
  moreover have "filter ascii_digit (group3 (str_nat (?c div 100))) = str_nat (?c div 100)"
    using filter_group3 str_nat_digits by blast
  moreover have "filter ascii_digit (pad 2 (?c mod 100)) = pad 2 (?c mod 100)"
    using pad_digits by (intro filter_True) blast
  ultimately have "shown_digits (format_lifetime_cost a) = of_digits (map (\<lambda>c. c - 48) (str_nat (?c div 100)) @ map (\<lambda>c. c - 48) (pad 2 (?c mod 100)))"
    by (simp add: shown_digits_def)
  then show ?thesis
    using pad_length [of "?c mod 100" 2] by (simp add: of_digits_append str_nat_value pad_value)
qed

section \<open>Guarantees\<close>

text \<open>C9: a provider call is charged exactly once.  Starting from an empty ledger, whatever mixture of
  reported costs, early identifiers and reconciliation passes is recorded, there is never more than
  one charge for a provider call and purpose, and every entry stays: the ledger is only appended to,
  and no other table changes.\<close>

theorem charged_once:
  assumes "ledger\<^sup>*\<^sup>* db0 db" "ledger\<^sup>*\<^sup>* db db'" "usage_events db0 = []"
  shows "length (filter (\<lambda>e. ue_type e = Charge \<and> ue_provider_generation e = Some g \<and> ue_purpose e = p) (usage_events db)) \<le> 1
    \<and> (\<exists>new. db' = db\<lparr>usage_events := usage_events db @ new\<rparr>)"
proof -
  have ok: "ledger_ok db"
    by (rule ledger_runs.along [OF assms(1)]) (simp add: ledger_ok_def assms(3))
  let ?P = "\<lambda>e. ue_type e = Charge \<and> ue_provider_generation e = Some g \<and> ue_purpose e = p"
  have "\<forall>e\<in>set (filter ?P (usage_events db)). ue_dedupe e = charge_key g p"
    using ok by (auto simp: ledger_ok_def charge_ok_def)
  then have "set (map ue_dedupe (filter ?P (usage_events db))) \<subseteq> {charge_key g p}" by auto
  moreover have "distinct (map ue_dedupe (filter ?P (usage_events db)))"
    using ok by (simp add: ledger_ok_def distinct_map_filter)
  ultimately have "length (map ue_dedupe (filter ?P (usage_events db))) \<le> card {charge_key g p}"
    using card_mono [of "{charge_key g p}" "set (map ue_dedupe (filter ?P (usage_events db)))"]
      distinct_card [of "map ue_dedupe (filter ?P (usage_events db))"] by simp
  moreover have "ledger_grows db db'" by (rule ledger_runs.forward [OF assms(2) ok])
  ultimately show ?thesis by (simp add: ledger_grows_def)
qed

definition demo_context :: usage_context where
  "demo_context = \<lparr>uc_generation = ''g'', uc_thread = Some ''t'', uc_requester = ''u''\<rparr>"

definition demo_outcome :: call_outcome where
  "demo_outcome = \<lparr>co_failed = False, co_request = Some ''req'', co_generation = Some ''gen'', co_cost = Some 1500\<rparr>"

definition demo_twice :: database where
  "demo_twice = record_usage ''e2'' 2 demo_context demo_outcome ''chat'' ''s'' None None
     (record_usage ''e1'' 1 demo_context demo_outcome ''chat'' ''s'' None None (empty_db\<lparr>usage_events := []\<rparr>))"

theorem charged_once_witness:
  "length (filter (\<lambda>e. ue_type e = Charge \<and> ue_provider_generation e = Some ''gen'' \<and> ue_purpose e = ''chat'') (usage_events demo_twice)) \<le> 1
   \<and> length (usage_events demo_twice) = 1"
proof -
  have "ledger\<^sup>*\<^sup>* (empty_db\<lparr>usage_events := []\<rparr>) demo_twice"
    unfolding demo_twice_def by (meson ledger.call rtranclp.rtrancl_into_rtrancl rtranclp.rtrancl_refl)
  moreover have "usage_events (empty_db\<lparr>usage_events := []\<rparr>) = []" by simp
  moreover have "length (usage_events demo_twice) = 1"
    by (simp add: demo_twice_def record_usage_def or_else_def append_usage_event_def usage_row_def usage_key_def demo_outcome_def)
  ultimately show ?thesis using charged_once [OF _ rtranclp.rtrancl_refl] by blast
qed

text \<open>reconciliation settles what it learns and invents nothing.  Every due row whose amount the
  provider reports is settled by an entry under its charge key; every new entry is a charge of a due
  row with the amount the provider reported; the returned number is the number of new entries.\<close>

theorem reconciliation_settles:
  assumes "reconcile_pending_costs now cost ids b db = (db', b', n)"
  shows "\<exists>new. usage_events db' = usage_events db @ new \<and> length new = n
    \<and> (\<forall>x\<in>set new. ue_type x = Charge \<and> (\<exists>e\<in>set (candidates db). \<exists>g. ue_provider_generation e = Some g
         \<and> ue_provider_generation x = Some g \<and> ue_purpose x = ue_purpose e \<and> ue_generation x = ue_generation e
         \<and> ue_dedupe x = charge_key g (ue_purpose e) \<and> ue_amount x = cost g \<and> cost g \<noteq> None))
    \<and> (\<forall>e\<in>set (due_rows now (filter (\<lambda>x. fst x \<in> ue_id ` set (candidates db)) b) (candidates db)).
         \<forall>g c. ue_provider_generation e = Some g \<and> cost g = Some c
           \<longrightarrow> charge_key g (ue_purpose e) \<in> ue_dedupe ` set (usage_events db'))"
proof -
  let ?b = "filter (\<lambda>x. fst x \<in> ue_id ` set (candidates db)) b"
  let ?es = "due_rows now ?b (candidates db)"
  have s: "settle now cost ids ?es ?b db = (db', b', n)" using assms by (simp add: reconcile_pending_costs_def Let_def)
  have sub: "set ?es \<subseteq> set (candidates db)" by (auto simp: due_rows_def dest: in_set_takeD)
  from settle_effect [OF s] obtain new where new: "usage_events db' = usage_events db @ new" "length new = n"
    "\<forall>x\<in>set new. ue_type x = Charge \<and> (\<exists>e\<in>set ?es. \<exists>g. ue_provider_generation e = Some g \<and> ue_provider_generation x = Some g
           \<and> ue_purpose x = ue_purpose e \<and> ue_generation x = ue_generation e \<and> ue_requester x = ue_requester e
           \<and> ue_dedupe x = charge_key g (ue_purpose e) \<and> ue_amount x = cost g \<and> cost g \<noteq> None)" by blast
  show ?thesis using settle_effect [OF s] new sub by (intro exI [of _ new]) blast
qed

definition demo_pending :: database where
  "demo_pending = append_reconcilable ''e1'' 1 demo_context ''chat'' None ''gen'' (empty_db\<lparr>usage_events := []\<rparr>)"

theorem reconciliation_settles_witness:
  "\<exists>db' b' new. reconcile_pending_costs 5 (\<lambda>g. Some 700) [''e2''] [] demo_pending = (db', b', 1)
     \<and> usage_events db' = usage_events demo_pending @ new \<and> length new = 1"
proof -
  obtain db' b' n where r: "reconcile_pending_costs 5 (\<lambda>g. Some 700) [''e2''] [] demo_pending = (db', b', n)"
    by (metis prod_cases3)
  moreover have "n = 1"
    using r by (simp add: reconcile_pending_costs_def candidates_def demo_pending_def append_reconcilable_def
        append_usage_event_def usage_row_def is_charged_def due_rows_def backoff_of_def max_attempts_def charge_key_def)
  ultimately show ?thesis using reconciliation_settles [OF r] by blast
qed

text \<open>C34: reconciliation backs off within bounds.  However often the provider's answer is missing, a pass
  asks for at most eight rows, a row is deferred by at most ten minutes and asked for at most eight
  times in the life of the process.\<close>

theorem reconciliation_bounded:
  assumes "reconcile_pending_costs now cost ids b db = (db', b', n)" "backoff_ok now b"
    and "distinct (map ue_id (usage_events db))"
  shows "backoff_ok now b' \<and> length (due_rows now (filter (\<lambda>x. fst x \<in> ue_id ` set (candidates db)) b) (candidates db)) \<le> 8"
proof -
  let ?b = "filter (\<lambda>x. fst x \<in> ue_id ` set (candidates db)) b"
  have "settle now cost ids (due_rows now ?b (candidates db)) ?b db = (db', b', n)"
    using assms(1) by (simp add: reconcile_pending_costs_def Let_def)
  moreover have "backoff_ok now ?b" using assms(2) by (auto simp: backoff_ok_def)
  moreover have "distinct (map ue_id (due_rows now ?b (candidates db)))"
    by (intro due_rows_distinct candidates_distinct assms(3))
  moreover have "\<forall>e\<in>set (due_rows now ?b (candidates db)). fst (backoff_of ?b (ue_id e)) < max_attempts"
    by (auto simp: due_rows_def dest: in_set_takeD)
  ultimately have "backoff_ok now b'" by (rule settle_backoff)
  then show ?thesis by (simp add: due_rows_def)
qed

theorem reconciliation_bounded_witness:
  "\<exists>db' b' n. reconcile_pending_costs 5 (\<lambda>g. None) [] [(''e1'', 7, 2)] demo_pending = (db', b', n) \<and> backoff_ok 5 b'"
proof -
  obtain db' b' n where r: "reconcile_pending_costs 5 (\<lambda>g. None) [] [(''e1'', 7, 2)] demo_pending = (db', b', n)"
    by (metis prod_cases3)
  moreover have "backoff_ok 5 [(''e1'', 7, 2)]" by (simp add: backoff_ok_def max_attempts_def)
  moreover have "distinct (map ue_id (usage_events demo_pending))"
    by (simp add: demo_pending_def append_reconcilable_def append_usage_event_def)
  ultimately show ?thesis using reconciliation_bounded [OF r] by blast
qed

text \<open>Only the 64 oldest unsettled rows are candidates.  When all of them have used up their attempts,
  nothing is asked for any more, however many newer rows wait behind them.\<close>

lemma exhausted_candidates_starve:
  assumes "\<forall>e\<in>set (candidates db). max_attempts \<le> fst (backoff_of b (ue_id e))"
    and "\<forall>x\<in>set b. fst x \<in> ue_id ` set (candidates db)"
  shows "reconcile_pending_costs now cost ids b db = (db, b, 0)"
proof -
  have "filter (\<lambda>x. fst x \<in> ue_id ` set (candidates db)) b = b" using assms(2) by (intro filter_True)
  moreover have "due_rows now b (candidates db) = []" using assms(1) by (auto simp: due_rows_def filter_empty_conv)
  ultimately show ?thesis by (simp add: reconcile_pending_costs_def)
qed

text \<open>C35: the shown total is honest.  For a total of at least one cent in size, the digits of the shown
  text are an amount of cents within half a cent of the ledger's exact total.\<close>

theorem shown_total_close:
  assumes "10000 \<le> \<bar>lifetime_total db\<bar>"
  shows "\<bar>10000 * int (shown_digits (format_lifetime_cost (lifetime_total db))) - \<bar>lifetime_total db\<bar>\<bar> \<le> 5000"
proof -
  define a where "a = \<bar>lifetime_total db\<bar>"
  define c where "c = round_half_even a 10000"
  have "\<bar>2 * (10000 * c - a)\<bar> \<le> 10000" unfolding c_def by (rule round_half_even_close) simp
  then have d: "\<bar>10000 * c - a\<bar> \<le> 5000" unfolding abs_mult by simp
  have "10000 \<le> a" using assms by (simp add: a_def)
  with d have "0 \<le> c" unfolding abs_le_iff by linarith
  moreover have "shown_digits (format_lifetime_cost (lifetime_total db)) = nat c"
    using format_lifetime_cost_cents [OF assms] by (simp add: a_def c_def)
  ultimately show ?thesis using d by (simp add: a_def [symmetric])
qed

theorem shown_total_close_witness:
  "\<bar>10000 * int (shown_digits (format_lifetime_cost (lifetime_total
      (empty_db\<lparr>usage_events := [usage_row ''e'' 1 demo_context ''k'' Charge ''chat'' (Some 1234567) None None]\<rparr>)))) - 1234567\<bar> \<le> 5000"
proof -
  have "lifetime_total (empty_db\<lparr>usage_events := [usage_row ''e'' 1 demo_context ''k'' Charge ''chat'' (Some 1234567) None None]\<rparr>) = 1234567"
    by (simp add: lifetime_total_def amount_of_def usage_row_def)
  then show ?thesis
    using shown_total_close [of "empty_db\<lparr>usage_events := [usage_row ''e'' 1 demo_context ''k'' Charge ''chat'' (Some 1234567) None None]\<rparr>"] by simp
qed

end
