(* ===== verification/Sign_In.thy ===== *)
theory Sign_In
  imports Lifecycle
begin

text \<open>
  Accounts, sessions and sign-in (\<^verbatim>\<open>src/oveo/auth.py\<close>, \<^verbatim>\<open>login_guard.py\<close>, \<^verbatim>\<open>workers.py\<close> and the guards
  of \<^verbatim>\<open>api.py\<close>).  Times are microseconds.
\<close>

section \<open>Accounts and sessions\<close>

record user_row =
  us_id :: row_id
  us_name :: pystr
  us_hash :: string
  us_version :: nat
  us_failed :: nat
  us_window :: "time option"
  us_locked :: "time option"

record session_row =
  se_id :: row_id
  se_token :: string
  se_csrf :: string
  se_user :: row_id
  se_version :: nat
  se_expires :: time

record accounts =
  users :: "user_row list"
  sessions :: "session_row list"

record login_limits =
  max_attempts_per_window :: nat
  window_length :: time
  lock_length :: time

text \<open>\<^verbatim>\<open>int(timedelta.total_seconds())\<close> of a positive difference in microseconds\<close>

definition whole_seconds :: "time \<Rightarrow> nat" where
  "whole_seconds d = nat (d div 1000000)"

text \<open>The Unicode case folding of \<^verbatim>\<open>str.casefold\<close> is the parameter \<open>fold_case\<close>; password and token
  hashes come from the libraries the parameters \<open>verify\<close> and \<open>digest\<close> stand for.\<close>

definition normalize_username :: "(pystr \<Rightarrow> pystr) \<Rightarrow> pystr \<Rightarrow> pystr" where
  "normalize_username fold_case name = fold_case (strip name)"

definition update_user :: "row_id \<Rightarrow> (user_row \<Rightarrow> user_row) \<Rightarrow> accounts \<Rightarrow> accounts" where
  "update_user i f a = a\<lparr>users := map (\<lambda>u. if us_id u = i then f u else u) (users a)\<rparr>"

datatype login_result = SignedIn user_row | LoginThrottled nat | InvalidCredentials | LoginBusy

text \<open>The counters after a wrong password.\<close>

definition count_failure :: "login_limits \<Rightarrow> time \<Rightarrow> user_row \<Rightarrow> user_row" where
  "count_failure lm now u =
     (let expired = (case us_window u of None \<Rightarrow> True | Some w \<Rightarrow> window_length lm \<le> now - w);
          u1 = (if expired then u\<lparr>us_window := Some now, us_failed := 1\<rparr> else u\<lparr>us_failed := us_failed u + 1\<rparr>)
      in if max_attempts_per_window lm \<le> us_failed u1 then u1\<lparr>us_locked := Some (now + lock_length lm)\<rparr> else u1)"

text \<open>\<^verbatim>\<open>authenticate_user\<close>.  \<open>verify\<close> answers \<open>None\<close> when the hashing worker turns the check away.\<close>

definition check_password ::
    "(string \<Rightarrow> pystr \<Rightarrow> bool option) \<Rightarrow> login_limits \<Rightarrow> time \<Rightarrow> pystr \<Rightarrow> user_row \<Rightarrow> accounts \<Rightarrow> accounts \<times> login_result" where
  "check_password verify lm now password u a =
     (case verify (us_hash u) password of
        None \<Rightarrow> (a, LoginBusy)
      | Some False \<Rightarrow> (update_user (us_id u) (count_failure lm now) a, InvalidCredentials)
      | Some True \<Rightarrow>
          (update_user (us_id u) (\<lambda>u. u\<lparr>us_failed := 0, us_window := None, us_locked := None\<rparr>) a,
           SignedIn (u\<lparr>us_failed := 0, us_window := None, us_locked := None\<rparr>)))"

definition authenticate_user ::
    "(pystr \<Rightarrow> pystr) \<Rightarrow> (string \<Rightarrow> pystr \<Rightarrow> bool option) \<Rightarrow> string \<Rightarrow> login_limits \<Rightarrow> time \<Rightarrow> pystr \<Rightarrow> pystr
      \<Rightarrow> accounts \<Rightarrow> accounts \<times> login_result" where
  "authenticate_user fold_case verify dummy lm now name password a =
     (case find (\<lambda>u. us_name u = normalize_username fold_case name) (users a) of
        None \<Rightarrow> (a, if verify dummy password = None then LoginBusy else InvalidCredentials)
      | Some u \<Rightarrow>
          (case us_locked u of
             None \<Rightarrow> check_password verify lm now password u a
           | Some t \<Rightarrow>
               if now < t then (a, LoginThrottled (max 1 (whole_seconds (t - now))))
               else check_password verify lm now password u a))"

section \<open>Sessions\<close>

definition create_session ::
    "(string \<Rightarrow> string) \<Rightarrow> row_id \<Rightarrow> string \<Rightarrow> string \<Rightarrow> time \<Rightarrow> nat \<Rightarrow> user_row \<Rightarrow> accounts \<Rightarrow> accounts" where
  "create_session digest sid token csrf now days u a =
     a\<lparr>sessions := sessions a @
         [\<lparr>se_id = sid, se_token = digest token, se_csrf = digest csrf, se_user = us_id u, se_version = us_version u,
           se_expires = now + int days * 86400000000\<rparr>]\<rparr>"

definition user_of :: "accounts \<Rightarrow> session_row \<Rightarrow> user_row option" where
  "user_of a s = find (\<lambda>u. us_id u = se_user s) (users a)"

definition version_matches :: "accounts \<Rightarrow> session_row \<Rightarrow> bool" where
  "version_matches a s \<longleftrightarrow> (case user_of a s of None \<Rightarrow> False | Some u \<Rightarrow> se_version s = us_version u)"

definition delete_session :: "row_id \<Rightarrow> accounts \<Rightarrow> accounts" where
  "delete_session i a = a\<lparr>sessions := filter (\<lambda>s. se_id s \<noteq> i) (sessions a)\<rparr>"

definition get_session_principal ::
    "(string \<Rightarrow> string) \<Rightarrow> time \<Rightarrow> string option \<Rightarrow> accounts \<Rightarrow> accounts \<times> (session_row \<times> user_row) option" where
  "get_session_principal digest now token a =
     (case token of
        None \<Rightarrow> (a, None)
      | Some t \<Rightarrow>
          if t = [] then (a, None)
          else
            (case find (\<lambda>s. se_token s = digest t) (sessions a) of
               None \<Rightarrow> (a, None)
             | Some s \<Rightarrow>
                 if se_expires s \<le> now then (delete_session (se_id s) a, None)
                 else if \<not> version_matches a s then (delete_session (se_id s) a, None)
                 else (a, map_option (\<lambda>u. (s, u)) (user_of a s))))"

definition session_is_active :: "time \<Rightarrow> row_id \<Rightarrow> accounts \<Rightarrow> bool" where
  "session_is_active now i a \<longleftrightarrow>
     (case find (\<lambda>s. se_id s = i) (sessions a) of None \<Rightarrow> False | Some s \<Rightarrow> now < se_expires s \<and> version_matches a s)"

definition validate_csrf :: "(string \<Rightarrow> string) \<Rightarrow> session_row \<Rightarrow> string option \<Rightarrow> string option \<Rightarrow> bool" where
  "validate_csrf digest s cookie header =
     (case (cookie, header) of
        (Some c, Some h) \<Rightarrow> c \<noteq> [] \<and> h \<noteq> [] \<and> c = h \<and> se_csrf s = digest h
      | _ \<Rightarrow> False)"

definition revoke_session :: "(string \<Rightarrow> string) \<Rightarrow> string option \<Rightarrow> accounts \<Rightarrow> accounts" where
  "revoke_session digest token a =
     (case token of
        None \<Rightarrow> a
      | Some t \<Rightarrow> if t = [] then a else a\<lparr>sessions := filter (\<lambda>s. se_token s \<noteq> digest t) (sessions a)\<rparr>)"

definition revoke_user_sessions :: "row_id \<Rightarrow> accounts \<Rightarrow> accounts" where
  "revoke_user_sessions i a = a\<lparr>sessions := filter (\<lambda>s. se_user s \<noteq> i) (sessions a)\<rparr>"

definition change_password :: "row_id \<Rightarrow> string \<Rightarrow> accounts \<Rightarrow> accounts" where
  "change_password i new_hash a =
     revoke_user_sessions i (update_user i (\<lambda>u. u\<lparr>us_hash := new_hash, us_version := us_version u + 1\<rparr>) a)"

section \<open>Bounded sign-in work\<close>

text \<open>\<^verbatim>\<open>BoundedWorker\<close>: the number of admitted jobs that have not finished.\<close>

record worker =
  wk_max :: nat
  wk_pending :: nat

definition new_worker :: "nat \<Rightarrow> worker option" where
  "new_worker m = (if m < 1 then None else Some \<lparr>wk_max = m, wk_pending = 0\<rparr>)"

definition admit :: "bool \<Rightarrow> worker \<Rightarrow> worker option" where
  "admit wait w = (if \<not> wait \<and> wk_max w \<le> wk_pending w then None else Some (w\<lparr>wk_pending := wk_pending w + 1\<rparr>))"

definition release :: "worker \<Rightarrow> worker" where
  "release w = w\<lparr>wk_pending := wk_pending w - 1\<rparr>"

text \<open>\<^verbatim>\<open>LoginGuard\<close>: the failures of everybody and per client, oldest first, and the number of attempts
  that wait for each account.\<close>

record guard =
  gd_window :: time
  gd_client_limit :: nat
  gd_global_limit :: nat
  gd_global :: "time list"
  gd_clients :: "(string \<times> time list) list"
  gd_waiting :: "pystr \<Rightarrow> nat"

definition expire :: "guard \<Rightarrow> time \<Rightarrow> time list \<Rightarrow> time list" where
  "expire g now ts = dropWhile (\<lambda>t. t \<le> now - gd_window g) ts"

definition retry_after :: "time \<Rightarrow> string \<Rightarrow> guard \<Rightarrow> guard \<times> nat option" where
  "retry_after now client g =
     (let everybody = expire g now (gd_global g);
          own = map_option (expire g now) (map_of (gd_clients g) client);
          waits = (if gd_global_limit g \<le> length everybody then [hd everybody + gd_window g - now] else [])
                  @ (case own of
                       None \<Rightarrow> []
                     | Some ts \<Rightarrow> if gd_client_limit g \<le> length ts then [hd ts + gd_window g - now] else [])
      in (g\<lparr>gd_global := everybody,
            gd_clients := map (\<lambda>(c, ts). (c, if c = client then expire g now ts else ts)) (gd_clients g)\<rparr>,
          if waits = [] then None else Some (max 1 (whole_seconds (Max (set waits)) + 1))))"

definition max_tracked_clients :: nat where "max_tracked_clients = 1024"

definition record_failure :: "time \<Rightarrow> string \<Rightarrow> guard \<Rightarrow> guard" where
  "record_failure now client g =
     (let failures = (case map_of (gd_clients g) client of None \<Rightarrow> [] | Some ts \<Rightarrow> ts) @ [now];
          clients = filter (\<lambda>(c, ts). c \<noteq> client) (gd_clients g) @ [(client, failures)]
      in g\<lparr>gd_global := gd_global g @ [now],
           gd_clients := drop (length clients - max_tracked_clients) clients\<rparr>)"

definition max_waiting_per_account :: nat where "max_waiting_per_account = 3"

definition enter_account :: "pystr \<Rightarrow> guard \<Rightarrow> guard option" where
  "enter_account name g =
     (if max_waiting_per_account \<le> gd_waiting g name then None
      else Some (g\<lparr>gd_waiting := (gd_waiting g)(name := gd_waiting g name + 1)\<rparr>))"

definition leave_account :: "pystr \<Rightarrow> guard \<Rightarrow> guard" where
  "leave_account name g = g\<lparr>gd_waiting := (gd_waiting g)(name := gd_waiting g name - 1)\<rparr>"

section \<open>The sign-in request\<close>

datatype api_error = Api nat code

definition own_origin :: "string \<Rightarrow> string option \<Rightarrow> bool" where
  "own_origin public origin = (case origin of None \<Rightarrow> True | Some s \<Rightarrow> rev (dropWhile (\<lambda>c. c = CHR ''/'') (rev s)) = public)"

text \<open>One request, as it runs when it gets the account's lock.\<close>

definition login ::
    "(pystr \<Rightarrow> pystr) \<Rightarrow> (string \<Rightarrow> pystr \<Rightarrow> bool option) \<Rightarrow> string \<Rightarrow> (string \<Rightarrow> string) \<Rightarrow> login_limits \<Rightarrow> nat \<Rightarrow> string
      \<Rightarrow> time \<Rightarrow> row_id \<times> string \<times> string \<Rightarrow> string option \<Rightarrow> string \<Rightarrow> pystr \<Rightarrow> pystr \<Rightarrow> accounts \<times> guard
      \<Rightarrow> (accounts \<times> guard) \<times> (api_error + user_row)" where
  "login fold_case verify dummy digest lm days public now drawn origin client name password = (\<lambda>(a, g).
     if \<not> own_origin public origin then ((a, g), Inl (Api 403 ''csrf_failed''))
     else
       (case retry_after now client g of
          (g1, Some n) \<Rightarrow> ((a, g1), Inl (Api 429 ''login_throttled''))
        | (g1, None) \<Rightarrow>
            (case enter_account (normalize_username fold_case name) g1 of
               None \<Rightarrow> ((a, g1), Inl (Api 429 ''login_busy''))
             | Some g2 \<Rightarrow>
                 (let g3 = leave_account (normalize_username fold_case name) in
                  case authenticate_user fold_case verify dummy lm now name password a of
                    (a1, LoginThrottled n) \<Rightarrow> ((a1, g3 g2), Inl (Api 429 ''login_throttled''))
                  | (a1, InvalidCredentials) \<Rightarrow> ((a1, g3 (record_failure now client g2)), Inl (Api 401 ''invalid_credentials''))
                  | (a1, LoginBusy) \<Rightarrow> ((a, g3 g2), Inl (Api 429 ''login_busy''))
                  | (a1, SignedIn u) \<Rightarrow>
                      (case drawn of (sid, token, csrf) \<Rightarrow>
                        ((create_session digest sid token csrf now days u a1, g3 g2), Inr u))))))"

text \<open>The guards of the other requests: a signed-in session, and a proof against request forgery.\<close>

definition csrf_principal ::
    "(string \<Rightarrow> string) \<Rightarrow> string \<Rightarrow> time \<Rightarrow> string option \<Rightarrow> string option \<Rightarrow> string option \<Rightarrow> string option
      \<Rightarrow> accounts \<Rightarrow> accounts \<times> (api_error + session_row \<times> user_row)" where
  "csrf_principal digest public now token origin cookie header a =
     (case get_session_principal digest now token a of
        (a', None) \<Rightarrow> (a', Inl (Api 401 ''authentication_required''))
      | (a', Some (s, u)) \<Rightarrow>
          if \<not> own_origin public origin \<or> \<not> validate_csrf digest s cookie header
          then (a', Inl (Api 403 ''csrf_failed'')) else (a', Inr (s, u)))"

definition logout :: "(string \<Rightarrow> string) \<Rightarrow> string option \<Rightarrow> accounts \<Rightarrow> accounts" where
  "logout digest token a = revoke_session digest token a"

definition require_generation :: "row_id \<Rightarrow> row_id \<Rightarrow> database \<Rightarrow> api_error + generation_row" where
  "require_generation user g db =
     (case the_generation db g of
        None \<Rightarrow> Inl (Api 404 ''generation_not_found'')
      | Some r \<Rightarrow>
          (case gen_thread r of
             Some t \<Rightarrow>
               (case the_thread db t of
                  None \<Rightarrow> Inl (Api 404 ''thread_not_found'')
                | Some th \<Rightarrow> if th_owner th \<noteq> user then Inl (Api 404 ''thread_not_found'') else Inr r)
           | None \<Rightarrow> if gen_requester r \<noteq> user then Inl (Api 404 ''generation_not_found'') else Inr r))"

end
