(* ===== verification/Sign_In_Guarantees.thy ===== *)
theory Sign_In_Guarantees
  imports Sign_In
begin

text \<open>
  Wrong guesses lock an account, a new password ends every session, the checks of requests and of
  open streams agree, and the guard against floods is honest and bounded.
\<close>

section \<open>Lookups by a unique key\<close>

lemma find_key:
  "distinct (map k xs) \<Longrightarrow> x \<in> set xs \<Longrightarrow> k x = v \<Longrightarrow> find (\<lambda>y. k y = v) xs = Some x"
  by (induction xs) (auto simp: image_iff)

section \<open>Wrong guesses\<close>



lemma count_failure_keeps [simp]:
  "us_name (count_failure lm now u) = us_name u" "us_hash (count_failure lm now u) = us_hash u" "us_id (count_failure lm now u) = us_id u"
  by (simp_all add: count_failure_def Let_def)





section \<open>Guarantees\<close>


definition demo_login_limits :: login_limits where
  "demo_login_limits = \<lparr>max_attempts_per_window = 2, window_length = 100, lock_length = 1000\<rparr>"

definition demo_accounts :: accounts where
  "demo_accounts = \<lparr>users = [\<lparr>us_id = ''u'', us_name = lit ''ann'', us_hash = ''h'', us_version = 1, us_failed = 0, us_window = None,
     us_locked = None\<rparr>], sessions = []\<rparr>"


text \<open>C36: changing the password signs every device out.  No token of the user leads to a session any more,
  and a session row that was missed, or was issued for the old password, is not active either.\<close>

theorem password_change_ends_sessions:
  assumes "a' = change_password i h a" "u \<in> set (users a)" "us_id u = i" "distinct (map us_id (users a))"
  shows "(\<forall>a'' s v. get_session_principal digest now token a' = (a'', Some (s, v)) \<longrightarrow> us_id v \<noteq> i)
    \<and> (\<forall>s :: session_row. se_user s = i \<and> se_version s \<le> us_version u \<longrightarrow> \<not> version_matches a' s)"
proof (intro conjI allI impI)
  fix a'' s v assume p: "get_session_principal digest now token a' = (a'', Some (s, v))"
  then obtain t where "find (\<lambda>s. se_token s = digest t) (sessions a') = Some s" "user_of a' s = Some v"
    by (auto simp: get_session_principal_def split: option.splits if_splits)
  then have "s \<in> set (sessions a')" "us_id v = se_user s" unfolding user_of_def by (auto dest!: find_Some_member)
  then show "us_id v \<noteq> i" using assms(1) by (simp add: change_password_def revoke_user_sessions_def)
next
  fix s :: session_row assume s: "se_user s = i \<and> se_version s \<le> us_version u"
  have us: "users a' = map (\<lambda>x. if us_id x = i then x\<lparr>us_hash := h, us_version := us_version x + 1\<rparr> else x) (users a)"
    by (simp add: assms(1) change_password_def revoke_user_sessions_def update_user_def)
  show "\<not> version_matches a' s"
  proof
    assume "version_matches a' s"
    then obtain v where v: "user_of a' s = Some v" "se_version s = us_version v" by (auto simp: version_matches_def split: option.splits)
    then have "v \<in> set (users a')" "us_id v = i" using s unfolding user_of_def by (auto dest!: find_Some_member)
    then obtain x where x: "x \<in> set (users a)" "v = (if us_id x = i then x\<lparr>us_hash := h, us_version := us_version x + 1\<rparr> else x)"
      unfolding us set_map by blast
    with \<open>us_id v = i\<close> have "us_id x = i" "us_version v = us_version x + 1" by (cases "us_id x = i"; simp)+
    moreover from this x(1) have "x = u" using assms(2-4) by (metis distinct_map inj_onD)
    ultimately show False using s v(2) by simp
  qed
qed

definition demo_session :: session_row where
  "demo_session = \<lparr>se_id = ''s'', se_token = ''t'', se_csrf = ''c'', se_user = ''u'', se_version = 1, se_expires = 1000\<rparr>"

theorem password_change_ends_sessions_witness: "\<not> version_matches (change_password ''u'' ''h2'' demo_accounts) demo_session"
  using password_change_ends_sessions [OF refl, where u = "hd (users demo_accounts)" and a = demo_accounts and i = "''u''" and h = "''h2''"]
  by (simp add: demo_accounts_def demo_session_def)

text \<open>a live stream is cut exactly when its session no longer signs requests in.  For a stored session
  and its token, the periodic check of open streams and the check of a request agree: the session
  exists, has not expired, and was issued for the current password.\<close>

theorem session_checks_agree:
  assumes "s \<in> set (sessions a)" "se_token s = digest t" "t \<noteq> []"
    and "distinct (map se_id (sessions a))" "distinct (map se_token (sessions a))"
  shows "session_is_active now (se_id s) a \<longleftrightarrow> snd (get_session_principal digest now (Some t) a) \<noteq> None"
proof -
  have f1: "find (\<lambda>x. se_token x = digest t) (sessions a) = Some s"
    by (rule find_key [OF assms(5,1,2)])
  have f2: "find (\<lambda>x. se_id x = se_id s) (sessions a) = Some s"
    by (rule find_key [OF assms(4,1) refl])
  show ?thesis
    using assms(3) f1 f2 by (auto simp: session_is_active_def get_session_principal_def version_matches_def split: option.splits)
qed

theorem session_checks_agree_witness:
  "session_is_active 5 ''s'' (demo_accounts\<lparr>sessions := [demo_session\<lparr>se_token := rev ''abc''\<rparr>]\<rparr>)
    \<longleftrightarrow> snd (get_session_principal rev 5 (Some ''abc'') (demo_accounts\<lparr>sessions := [demo_session\<lparr>se_token := rev ''abc''\<rparr>]\<rparr>)) \<noteq> None"
  using session_checks_agree [where s = "demo_session\<lparr>se_token := rev ''abc''\<rparr>" and digest = rev and t = "''abc''"
      and a = "demo_accounts\<lparr>sessions := [demo_session\<lparr>se_token := rev ''abc''\<rparr>]\<rparr>" and now = 5]
  by (simp add: demo_session_def)

text \<open>a request that changes something is verified.  It passes the guard only for an active session,
  from the site's own origin when one is given, and with the session's own forgery token both in the
  cookie and in the header.\<close>

theorem requests_are_verified:
  assumes "csrf_principal digest public now token origin cookie header a = (a', Inr (s, u))"
    and "distinct (map se_id (sessions a))"
  shows "a' = a \<and> session_is_active now (se_id s) a \<and> us_id u = se_user s \<and> own_origin public origin
    \<and> (\<exists>h. cookie = Some h \<and> header = Some h \<and> h \<noteq> [] \<and> se_csrf s = digest h)"
proof -
  have p: "get_session_principal digest now token a = (a', Some (s, u))" "own_origin public origin" "validate_csrf digest s cookie header"
    using assms(1) by (auto simp: csrf_principal_def split: prod.splits option.splits if_splits)
  then obtain t where t: "token = Some t" "find (\<lambda>s. se_token s = digest t) (sessions a) = Some s" "a' = a" "now < se_expires s"
    "version_matches a s" "user_of a s = Some u"
    by (auto simp: get_session_principal_def split: option.splits if_splits)
  have "find (\<lambda>x. se_id x = se_id s) (sessions a) = Some s"
    by (rule find_key [OF assms(2) _ refl]) (use find_Some_member [OF t(2)] in simp)
  moreover have "us_id u = se_user s" using t(6) unfolding user_of_def by (auto dest!: find_Some_member)
  ultimately show ?thesis
    using p t by (auto simp: session_is_active_def validate_csrf_def split: option.splits)
qed

theorem requests_are_verified_witness:
  "session_is_active 5 ''s'' (demo_accounts\<lparr>sessions := [demo_session\<lparr>se_token := rev ''abc'', se_csrf := rev ''xyz''\<rparr>]\<rparr>)"
proof -
  let ?s = "demo_session\<lparr>se_token := rev ''abc'', se_csrf := rev ''xyz''\<rparr>"
  let ?a = "demo_accounts\<lparr>sessions := [?s]\<rparr>"
  have "csrf_principal rev ''o'' 5 (Some ''abc'') None (Some ''xyz'') (Some ''xyz'') ?a = (?a, Inr (?s, hd (users demo_accounts)))"
    by (simp add: csrf_principal_def get_session_principal_def demo_session_def demo_accounts_def version_matches_def user_of_def
        own_origin_def validate_csrf_def)
  from requests_are_verified [OF this] show ?thesis by (simp add: demo_session_def)
qed

section \<open>The guard against floods\<close>

lemma expire_shorter: "length (expire g now ts) \<le> length ts"
  by (simp add: expire_def length_dropWhile_le)

lemma expire_later: "ts \<noteq> [] \<Longrightarrow> hd ts + gd_window g \<le> now \<Longrightarrow> length (expire g now ts) < length ts"
  by (cases ts) (auto simp: expire_def length_dropWhile_le le_imp_less_Suc)

lemma map_of_expire: "map_of (map (\<lambda>(c, ts). (c, if c = client then f ts else ts)) xs) client = map_option f (map_of xs client)"
  by (induction xs) auto

text \<open>the waiting time of a throttled client is honest.  When nobody fails meanwhile, a client that was
  told to retry after \<open>n\<close> seconds is let through after \<open>n\<close> seconds; and no more than 1024 clients are
  remembered, however many there are.\<close>

theorem retry_after_honest:
  assumes "retry_after now client g = (g', Some n)" "now + int n * 1000000 \<le> later"
    and "0 < gd_global_limit g" "0 < gd_client_limit g" "length (gd_global g) \<le> gd_global_limit g"
    and "\<forall>ts. map_of (gd_clients g) client = Some ts \<longrightarrow> length ts \<le> gd_client_limit g"
  shows "snd (retry_after later client g') = None \<and> length (gd_clients (record_failure t c g)) \<le> 1024"
proof -
  define everybody where "everybody = expire g now (gd_global g)"
  define own where "own = map_option (expire g now) (map_of (gd_clients g) client)"
  define waits where "waits = (if gd_global_limit g \<le> length everybody then [hd everybody + gd_window g - now] else [])
      @ (case own of None \<Rightarrow> [] | Some ts \<Rightarrow> if gd_client_limit g \<le> length ts then [hd ts + gd_window g - now] else [])"
  have r: "g' = g\<lparr>gd_global := everybody,
            gd_clients := map (\<lambda>(c, ts). (c, if c = client then expire g now ts else ts)) (gd_clients g)\<rparr>"
    "(if waits = [] then None else Some (max 1 (whole_seconds (Max (set waits)) + 1))) = Some n"
    using assms(1) unfolding retry_after_def Let_def everybody_def own_def waits_def by simp_all
  have g': "gd_global g' = everybody" "map_of (gd_clients g') client = own" "gd_window g' = gd_window g"
      "gd_global_limit g' = gd_global_limit g" "gd_client_limit g' = gd_client_limit g"
    using map_of_expire [of client "expire g now" "gd_clients g"] by (simp_all add: r(1) own_def)
  have n: "waits \<noteq> []" "n = max 1 (whole_seconds (Max (set waits)) + 1)" using r(2) by (auto split: if_splits)
  have late: "w \<le> later - now" if "w \<in> set waits" for w
  proof -
    have "w \<le> Max (set waits)" using that by simp
    also have "\<dots> \<le> int n * 1000000" unfolding n(2) whole_seconds_def by (simp add: max_def) linarith
    finally show ?thesis using assms(2) by linarith
  qed
  have e: "expire g' = expire g" by (simp add: fun_eq_iff expire_def g'(3))
  have "length (expire g later everybody) < gd_global_limit g"
  proof (cases "gd_global_limit g \<le> length everybody")
    case True
    then have "everybody \<noteq> []" using assms(3) by auto
    moreover have "hd everybody + gd_window g \<le> later" using late [of "hd everybody + gd_window g - now"] True by (simp add: waits_def)
    ultimately show ?thesis
      using expire_later [of everybody g later] expire_shorter [of g now "gd_global g"] assms(5) by (simp add: everybody_def)
  qed (use expire_shorter [of g later everybody] in linarith)
  moreover have "length (expire g later ts) < gd_client_limit g" if ts: "own = Some ts" for ts
  proof (cases "gd_client_limit g \<le> length ts")
    case True
    then have "ts \<noteq> []" using assms(4) by auto
    moreover have "hd ts + gd_window g \<le> later" using late [of "hd ts + gd_window g - now"] True ts by (simp add: waits_def)
    moreover have "length ts \<le> gd_client_limit g"
      using ts assms(6) by (auto simp: own_def intro: le_trans [OF expire_shorter])
    ultimately show ?thesis using expire_later [of ts g later] by simp
  qed (use expire_shorter [of g later ts] in linarith)
  ultimately have "snd (retry_after later client g') = None"
    by (auto simp: retry_after_def Let_def g' e split: option.split)
  moreover have "length (gd_clients (record_failure t c g)) \<le> 1024"
    by (simp add: record_failure_def Let_def max_tracked_clients_def)
  ultimately show ?thesis by simp
qed

definition demo_guard :: guard where
  "demo_guard = \<lparr>gd_window = 3000000, gd_client_limit = 1, gd_global_limit = 9, gd_global = [0], gd_clients = [(''c'', [0])],
     gd_waiting = (\<lambda>_. 0)\<rparr>"

theorem retry_after_honest_witness:
  "\<exists>g'. retry_after 1000000 ''c'' demo_guard = (g', Some 3) \<and> snd (retry_after 4000000 ''c'' g') = None"
proof -
  obtain g' where r: "retry_after 1000000 ''c'' demo_guard = (g', Some 3)"
    by (simp add: retry_after_def expire_def demo_guard_def whole_seconds_def Let_def)
  then show ?thesis using retry_after_honest [OF r, of 4000000] by (simp add: demo_guard_def)
qed

text \<open>signing in leaves nothing behind.  Whatever the outcome, the number of attempts waiting for each
  account is what it was; while the failure limits are exceeded no password is checked and no account
  changes; and a refused sign-in never creates a session.\<close>

theorem login_is_contained:
  assumes "login fc verify dummy digest lm days public now drawn origin client name password (a, g) = ((a', g'), res)"
  shows "gd_waiting g' = gd_waiting g
    \<and> (snd (retry_after now client g) \<noteq> None \<longrightarrow> a' = a \<and> (\<exists>n c. res = Inl (Api n c)))
    \<and> (\<forall>e. res = Inl e \<longrightarrow> sessions a' = sessions a)"
proof -
  have w: "gd_waiting (fst (retry_after now client g)) = gd_waiting g" by (simp add: retry_after_def Let_def)
  have auth: "sessions (fst (authenticate_user fc verify dummy lm now name password a)) = sessions a"
    by (auto simp: authenticate_user_def check_password_def update_user_def split: option.splits bool.splits)
  have wt: "gd_waiting (leave_account n (record_failure now client g2)) = gd_waiting h" "gd_waiting (leave_account n g2) = gd_waiting h"
    if "enter_account n h = Some g2" for n g2 h
    using that by (auto simp: enter_account_def leave_account_def record_failure_def Let_def fun_eq_iff split: if_splits)
  show ?thesis
    using assms w auth wt
    by (auto simp: login_def Let_def split: if_splits prod.splits option.splits login_result.splits)
qed

theorem login_is_contained_witness:
  "\<exists>a' g' res. login id (\<lambda>h p. Some True) ''d'' rev demo_login_limits 1 ''o'' 1000000 (''s'', ''t'', ''x'') None ''c'' (lit ''ann'') (lit ''pw'')
     (demo_accounts, demo_guard) = ((a', g'), res) \<and> a' = demo_accounts"
proof -
  obtain a' g' res where l: "login id (\<lambda>h p. Some True) ''d'' rev demo_login_limits 1 ''o'' 1000000 (''s'', ''t'', ''x'') None ''c''
     (lit ''ann'') (lit ''pw'') (demo_accounts, demo_guard) = ((a', g'), res)"
    by (metis prod.exhaust)
  moreover have "snd (retry_after 1000000 ''c'' demo_guard) \<noteq> None"
    by (simp add: retry_after_def expire_def demo_guard_def Let_def)
  ultimately show ?thesis using login_is_contained [OF l] by blast
qed

end
