(* ===== verification/Spec2Isabelle.thy ===== *)
theory Spec2Isabelle
  imports Generation_Run_Guarantees Stream_Guarantees Usage_Guarantees Sign_In_Guarantees
begin

text \<open>
  \<^bold>\<open>Verification development of Oveo\<close>, the language adviser under \<^verbatim>\<open>src/\<close>: a service in Python that takes
  the turns of two accounts, lets a language model answer them in a typed response protocol, keeps the
  canonical work of every conversation in versions, and shows answers while they are written.

  \<^bold>\<open>The program and how its parts interact.\<close>  A turn enters through \<^verbatim>\<open>api.py\<close>, behind the session and
  forgery checks of \<^verbatim>\<open>auth.py\<close> and the limits of \<^verbatim>\<open>login_guard.py\<close> and \<^verbatim>\<open>workers.py\<close>.
  \<^verbatim>\<open>GenerationManager\<close> in \<^verbatim>\<open>generation.py\<close> stores it with a queued generation and starts one task per
  generation.  The task composes a request with \<^verbatim>\<open>context.py\<close>, compacts it when it is over the token budget,
  streams the answer with the client of \<^verbatim>\<open>provider.py\<close>, decodes it with \<^verbatim>\<open>protocol.py\<close> into a draft that
  readers follow over event streams, and commits answer and canonical work in one transaction; for a
  Word document the work is a list of block replacements checked by \<^verbatim>\<open>docx.py\<close>.  Every call is charged in the
  ledger of \<^verbatim>\<open>usage.py\<close>.  Stops, restarts, deletions and reconciliation run beside the tasks.

  \<^bold>\<open>Which theory models what.\<close>

  \<^item> \<open>Prelude\<close>, \<open>Utf8\<close>, \<open>Json\<close>: results of fallible code as sums, Python's strings as lists of code points,
    UTF-8 with its incremental decoder, and the \<^verbatim>\<open>json\<close> module as the program calls it (doubles, integer
    digit limit, recursion limit).  Two interfaces, a property that steps keep (\<open>preserved\<close>) and an order
    that steps respect (\<open>ordered\<close>), serve every step relation; \<open>string_codec\<close> serves both string encoders.
  \<^item> \<open>Protocol\<close>: \<^verbatim>\<open>protocol.py\<close> as a whole.  The decoder is a record with one function per method.
    \<open>Protocol_Stream\<close> refines the incremental decoder to one that reads the whole text, \<open>Protocol_Invariant\<close>
    has the invariant of the decoder and of its documents, \<open>Protocol_Wire\<close> renders documents and reads
    them back, \<open>Protocol_Guarantees\<close> states the properties.
  \<^item> \<open>Text_Edits\<close>: anchored replacement (\<^verbatim>\<open>_replacement_span\<close>, \<^verbatim>\<open>_apply_base_replacements\<close>).
    \<open>Docx_Blocks\<close>: hyperlink tokens, block maps and their validation in \<^verbatim>\<open>docx.py\<close>.
  \<^item> \<open>Database\<close>: the tables of \<^verbatim>\<open>models.py\<close> as lists of records, unique indexes as checks of an insert.
    \<open>Work_State\<close>: \<^verbatim>\<open>_apply_state_operation\<close> and its helpers, and the version history.
  \<^item> \<open>Lifecycle\<close>: the committed transactions of \<^verbatim>\<open>generation.py\<close> and \<^verbatim>\<open>api.py\<close> (submit, retry, handoff,
    run, commit, fail, stop, restart, orphans, deletion, file sweep, bookkeeping of a run).
    \<open>Lifecycle_Laws\<close>: the invariant \<open>sys_ok\<close> and why each of them keeps it.  \<open>Lifecycle_Runs\<close>: the
    step relations \<open>work\<close> and \<open>step\<close>, the order of statuses.  \<open>Lifecycle_Guarantees\<close>: what users rely on.
  \<^item> \<open>Streams\<close>, \<open>Stream_Laws\<close>, \<open>Stream_Guarantees\<close>: the draft, the bounded queue of a reader, the reader loop
    of the server-sent events and the browser's handling of snapshots and deltas (\<^verbatim>\<open>stream.ts\<close>).
  \<^item> \<open>Usage_Ledger\<close>, \<open>Usage_Guarantees\<close>: the ledger, its keys, reconciliation with backoff, the shown total.
  \<^item> \<open>Provider_Data\<close>, \<open>Provider_Client\<close>, \<open>Provider_Guarantees\<close>: \<^verbatim>\<open>provider.py\<close> from event-stream lines over
    one attempt to the retries, charges and token estimates.
  \<^item> \<open>Context\<close>, \<open>Context_Guarantees\<close>: \<^verbatim>\<open>context.py\<close>, prompt texts, envelopes and provider messages.
    \<open>Compaction\<close>, \<open>Compaction_Guarantees\<close>: request snapshots, repaired requests, summaries, handoff extracts.
  \<^item> \<open>Generation_Run\<close>: \<^verbatim>\<open>_run\<close> and everything it calls, composed from the theories above: one
    action per method on a \<open>world\<close> (stored state, draft, number of suspensions).  At each suspension the
    \<open>surroundings\<close> move: other tasks, the outcome of the write, the clock, the stop event, the provider.
    \<open>Generation_Run_Laws\<close>: the interface \<open>task_relation\<close>, interpreted on the steps of the system.
  \<^item> \<open>Sign_In\<close>, \<open>Sign_In_Guarantees\<close>: accounts, locks, sessions, the forgery guard, limits on failures.

  \<^bold>\<open>How state and code correspond.\<close>  A table is a list of records in insertion order; a committed transaction
  is a function on the \<open>database\<close>, an exception rolls it back and is an \<open>Inl\<close>.  Identifiers that the code draws
  at random are arguments.  Times are microseconds (sign-in, ledger) or ticks of a clock that is an argument.
  The objects of the process (owned generations, drafts, queues) are the fields \<open>sys_live\<close> and \<open>hub\<close>.  An
  asynchronous function is a function of the world it starts in; its \<^verbatim>\<open>await\<close>s are the suspensions.

  \<^bold>\<open>What the lemmas show.\<close>  Of the protocol: canonical rendering is read back, chunking does not matter,
  documents are well formed.  Of the stored state: an invariant of all reachable states, rows that only move
  forward, the race of stop and commit, repeated requests, restarts, orphans, privacy.  Of a task: it takes only
  steps of the system, it always finishes its generation, it reports a failure as what it is.  Of streams: the
  draft refines the decoder and the browser follows the draft in every interleaving.  Of the provider client:
  no delta is delivered twice, charges are exact to half a microdollar.  Of requests: data cannot leave
  its envelope, handoffs carry user turns only, compaction loses nothing it must keep.  Of the ledger: a call is
  charged once.  Of sign-in: wrong guesses lock, a new password ends every session.

  \<^bold>\<open>Bounds and fuel.\<close>  The scanner of \<open>Json\<close> recurses on \<open>2 * length + 1\<close> units of fuel, and
  \<open>loads_never_starves\<close> shows that they are enough; the interpreter's recursion limit is a separate argument.
  The loops of the program terminate by measures (decoder lines, tokens, searches over chunks, compaction
  rounds by the number of unsummarized messages).  An answer has three attempts, a write seven, as in the code.

  \<^bold>\<open>Parameters.\<close>  The HTTP client (data of an \<open>exchange\<close>), the tokenizer, SHA-256, password and token hashing,
  Unicode case folding, the file system's answers, the time zone database, the XML and ZIP libraries, and the
  scheduler (\<open>surroundings\<close>).

  \<^bold>\<open>Not modelled.\<close>  The HTTP routing and the serialization of views in \<^verbatim>\<open>api.py\<close> (framework calls around the
  transactions that are modelled), start-up and wiring (\<^verbatim>\<open>main.py\<close>, \<^verbatim>\<open>config.py\<close>, \<^verbatim>\<open>db.py\<close>), security
  headers and body limits (\<^verbatim>\<open>middleware.py\<close>), logging, the command line of \<^verbatim>\<open>admin.py\<close>, migrations,
  backups and deployment (input, output and shell), the React interface apart from its stream handling, the
  wording of the prompts, and the limit on open event streams of an account.
\<close>

end
